(* ===== verification/Prelude.thy ===== *)
theory Prelude
  imports Main "HOL-Library.Word" "HOL-Library.Sublist" "HOL-Library.Signed_Division"
begin

text \<open>
  What every component of the development shares: the value of a Go call that may panic, the
  machine integers, the visiting orders of Go maps, and the collections of facts the component
  proofs use.

  A Go function that can panic returns a value of type \<open>go\<close>; \<open>Panic\<close> carries the reason.
  A Go string and a Go byte slice are both sequences of bytes, so both are \<open>string\<close> (an Isabelle
  \<open>char\<close> is one byte). An \<open>int64\<close> whose wrap-around matters is a \<open>64 word\<close> read with \<open>sint\<close>.
\<close>

named_theorems conn_simps \<open>look-ups in the connection table after an operation\<close>
named_theorems push_simps \<open>results of the transport clients\<close>
named_theorems log_simps \<open>what the logging components emit\<close>
named_theorems inv_intros \<open>operations keep their component's invariant\<close>

section \<open>Calls that may panic\<close>

datatype 'a go = Ret 'a | Panic string

fun go_bind :: "'a go \<Rightarrow> ('a \<Rightarrow> 'b go) \<Rightarrow> 'b go" where
  "go_bind (Ret x) f = f x"
| "go_bind (Panic p) f = Panic p"

definition is_panic :: "'a go \<Rightarrow> bool" where
  "is_panic r = (case r of Ret _ \<Rightarrow> False | Panic _ \<Rightarrow> True)"

lemma is_panic_simps [simp]: "is_panic (Panic p)" "\<not> is_panic (Ret x)"
  by (simp_all add: is_panic_def)

lemma go_bind_Ret_iff: "go_bind r f = Ret y \<longleftrightarrow> (\<exists>x. r = Ret x \<and> f x = Ret y)"
  by (cases r) auto

text \<open>A slice read \<open>xs[i]\<close>: out of range it panics.\<close>

definition go_index :: "'a list \<Rightarrow> int \<Rightarrow> 'a go" where
  "go_index xs i =
     (if 0 \<le> i \<and> i < int (length xs) then Ret (xs ! nat i) else Panic ''index out of range'')"

lemma go_index_nat [simp]: "i < length xs \<Longrightarrow> go_index xs (int i) = Ret (xs ! i)"
  by (simp add: go_index_def)

section \<open>Machine integers\<close>

type_synonym i64 = "64 word"

text \<open>The largest and smallest values of an \<open>int64\<close>, and when an integer is one.\<close>

definition fits_i64 :: "int \<Rightarrow> bool" where
  "fits_i64 x \<longleftrightarrow> - (2 ^ 63) \<le> x \<and> x < 2 ^ 63"

lemma sint_of_fitting: "fits_i64 x \<Longrightarrow> sint (word_of_int x :: i64) = x"
  unfolding fits_i64_def
  by (simp add: signed_take_bit_int_eq_self sint_sbintrunc')

lemma sint_fits: "fits_i64 (sint (w :: i64))"
  using sint_range_size [of w] by (simp add: fits_i64_def word_size)

section \<open>Go maps\<close>

text \<open>
  Go visits a map (and a \<open>sync.Map\<close>) in no fixed order. A loop over one takes the order as an
  argument: a list of the keys, each once.
\<close>

definition visits :: "'k list \<Rightarrow> ('k \<rightharpoonup> 'v) \<Rightarrow> bool" where
  "visits ks m \<longleftrightarrow> distinct ks \<and> set ks = dom m"

lemma visits_length: "visits ks m \<Longrightarrow> length ks = card (dom m)"
  by (auto simp: visits_def distinct_card [symmetric])

lemma visits_finite: "visits ks m \<Longrightarrow> finite (dom m)"
  by (auto simp: visits_def) (metis List.finite_set)

section \<open>Lists\<close>

text \<open>The first element, in order, whose image is defined.\<close>

fun first_some :: "('a \<Rightarrow> 'b option) \<Rightarrow> 'a list \<Rightarrow> 'b option" where
  "first_some f [] = None"
| "first_some f (x # xs) = (case f x of None \<Rightarrow> first_some f xs | Some y \<Rightarrow> Some y)"

lemma first_some_None_iff: "first_some f xs = None \<longleftrightarrow> (\<forall>x\<in>set xs. f x = None)"
  by (induction xs) (auto split: option.splits)

lemma first_some_SomeD:
  "first_some f xs = Some y \<Longrightarrow>
     \<exists>us x vs. xs = us @ x # vs \<and> f x = Some y \<and> (\<forall>u\<in>set us. f u = None)"
proof (induction xs)
  case Nil
  then show ?case by simp
next
  case (Cons a xs)
  show ?case
  proof (cases "f a")
    case None
    then obtain us x vs where "xs = us @ x # vs" "f x = Some y" "\<forall>u\<in>set us. f u = None"
      using Cons by auto
    then have "a # xs = (a # us) @ x # vs \<and> f x = Some y \<and> (\<forall>u\<in>set (a # us). f u = None)"
      using None by simp
    then show ?thesis by blast
  next
    case (Some b)
    then have "a # xs = [] @ a # xs \<and> f a = Some y" using Cons.prems by simp
    then show ?thesis by fastforce
  qed
qed

lemma first_some_append:
  "first_some f (us @ vs) = (case first_some f us of None \<Rightarrow> first_some f vs | Some y \<Rightarrow> Some y)"
  by (induction us) (auto split: option.splits)

lemma sum_list_update_minus:
  fixes xs :: "int list"
  shows "i < length xs \<Longrightarrow> sum_list (xs[i := v]) = sum_list xs - xs ! i + v"
  by (induction xs arbitrary: i) (auto split: nat.splits)

end
