(* ===== verification/GoText.thy ===== *)
theory GoText
  imports Prelude
begin

text \<open>
  The functions of Go's \<open>bytes\<close>, \<open>strings\<close> and \<open>strconv\<close> that the program calls, over byte
  sequences: \<open>find_sub\<close> is \<open>bytes.Index\<close>, \<open>index_byte\<close> is \<open>bytes.IndexByte\<close>, \<open>split_on\<close> is
  \<open>strings.Split\<close> with a one-byte separator, \<open>join_with\<close> is \<open>strings.Join\<close>, \<open>trim_space\<close> is
  \<open>strings.TrimSpace\<close>, \<open>itoa\<close> and \<open>parse_uint\<close> are \<open>strconv.Itoa\<close> and \<open>strconv.ParseUint\<close>.
\<close>

section \<open>Searching\<close>

fun find_sub :: "string \<Rightarrow> string \<Rightarrow> nat option" where
  "find_sub k [] = (if k = [] then Some 0 else None)"
| "find_sub k (c # cs) =
     (if prefix k (c # cs) then Some 0 else map_option Suc (find_sub k cs))"

fun index_byte :: "char \<Rightarrow> string \<Rightarrow> nat option" where
  "index_byte b [] = None"
| "index_byte b (c # cs) = (if c = b then Some 0 else map_option Suc (index_byte b cs))"

lemma index_byte_None_iff: "index_byte b s = None \<longleftrightarrow> b \<notin> set s"
  by (induction s) auto

lemma index_byte_append:
  "b \<notin> set u \<Longrightarrow> index_byte b (u @ b # v) = Some (length u)"
  by (induction u) auto

lemma index_byte_SomeD:
  "index_byte b s = Some e \<Longrightarrow> s = take e s @ b # drop (Suc e) s \<and> b \<notin> set (take e s)"
  by (induction s arbitrary: e) (auto split: if_splits)

lemma find_sub_SomeD:
  "find_sub k s = Some i \<Longrightarrow> s = take i s @ k @ drop (i + length k) s \<and> i + length k \<le> length s"
proof (induction s arbitrary: i)
  case Nil
  then show ?case by (auto split: if_splits)
next
  case (Cons c cs)
  show ?case
  proof (cases "prefix k (c # cs)")
    case True
    then obtain zs where "c # cs = k @ zs" by (auto simp: prefix_def)
    moreover from this have "length k \<le> length (c # cs)" by simp
    moreover have "i = 0" using True Cons.prems by simp
    ultimately show ?thesis by simp
  next
    case False
    then show ?thesis using Cons by auto
  qed
qed

text \<open>The index is that of the first occurrence.\<close>

lemma find_sub_first:
  "find_sub k s = Some i \<Longrightarrow> j < i \<Longrightarrow> \<not> prefix k (drop j s)"
proof (induction s arbitrary: i j)
  case Nil
  then show ?case by (auto split: if_splits)
next
  case (Cons c cs)
  then show ?case
    by (cases j) (auto split: if_splits)
qed

lemma find_sub_None_iff: "find_sub k s = None \<longleftrightarrow> \<not> sublist k s"
proof (induction s)
  case Nil
  then show ?case by simp
next
  case (Cons c cs)
  then show ?case by (auto simp: sublist_Cons_right)
qed

text \<open>
  A bracketed field: what stands between the first occurrence of \<open>key\<close> and the next quote. Both
  scanners of the program (the gateway's for \<open>connId\<close>, the router's for \<open>cmd\<close>) are this search.
\<close>

definition quote :: char where
  "quote = CHR 0x22"

definition quoted_field :: "string \<Rightarrow> string \<Rightarrow> string" where
  "quoted_field key payload =
     (case find_sub key payload of
        None \<Rightarrow> []
      | Some i \<Rightarrow>
          let start = i + length key in
          (case index_byte quote (drop start payload) of
             None \<Rightarrow> []
           | Some e \<Rightarrow> take e (drop start payload)))"

lemma quoted_field_no_quote: "quote \<notin> set (quoted_field key payload)"
  using index_byte_SomeD by (auto simp: quoted_field_def Let_def split: option.splits)

lemma quoted_field_occurs:
  assumes "quoted_field key payload = v" and "v \<noteq> []"
  shows "\<exists>pre post. payload = pre @ key @ v @ quote # post \<and>
           (\<forall>j < length pre. \<not> prefix key (drop j payload))"
proof -
  from assms obtain i e where i: "find_sub key payload = Some i"
    and e: "index_byte quote (drop (i + length key) payload) = Some e"
    and v: "v = take e (drop (i + length key) payload)"
    by (auto simp: quoted_field_def Let_def split: option.splits)
  let ?rest = "drop (i + length key) payload"
  have "payload = take i payload @ key @ ?rest" and len: "i + length key \<le> length payload"
    using find_sub_SomeD [OF i] by auto
  moreover have "?rest = v @ quote # drop (Suc e) ?rest"
    using index_byte_SomeD [OF e] v by simp
  ultimately have "payload = take i payload @ key @ v @ quote # drop (Suc e) ?rest"
    by metis
  moreover have "\<forall>j < length (take i payload). \<not> prefix key (drop j payload)"
    using find_sub_first [OF i] by simp
  ultimately show ?thesis by blast
qed

lemma find_sub_at:
  assumes "\<forall>j < length pre. \<not> prefix k (drop j (pre @ k @ r))"
  shows "find_sub k (pre @ k @ r) = Some (length pre)"
  using assms
proof (induction pre)
  case Nil
  have "prefix k (k @ r)" by simp
  then show ?case by (cases "k @ r") (auto simp del: prefix_code)
next
  case (Cons c pre)
  have "\<not> prefix k (drop 0 ((c # pre) @ k @ r))"
    using Cons.prems by (metis length_greater_0_conv list.distinct(1))
  moreover have "\<forall>j < length pre. \<not> prefix k (drop j (pre @ k @ r))"
    using Cons.prems by (metis Suc_less_eq append_Cons drop_Suc_Cons length_Cons)
  ultimately show ?case using Cons.IH by simp
qed

lemma quoted_field_at:
  assumes "\<forall>j < length pre. \<not> prefix key (drop j (pre @ key @ v @ quote # post))"
    and "quote \<notin> set v"
  shows "quoted_field key (pre @ key @ v @ quote # post) = v"
  using find_sub_at [OF assms(1)] index_byte_append [OF assms(2), of post]
  by (simp add: quoted_field_def Let_def)

text \<open>
  The scanner is exactly this: its result is a given non-empty value iff that value stands, closed
  by a quote and holding none, after the first occurrence of the key.
\<close>

lemma quoted_field_iff:
  assumes "v \<noteq> []"
  shows "quoted_field key payload = v \<longleftrightarrow>
     (\<exists>pre post. payload = pre @ key @ v @ quote # post \<and> quote \<notin> set v \<and>
        (\<forall>j < length pre. \<not> prefix key (drop j payload)))"
proof
  assume "quoted_field key payload = v"
  then show "\<exists>pre post. payload = pre @ key @ v @ quote # post \<and> quote \<notin> set v \<and>
        (\<forall>j < length pre. \<not> prefix key (drop j payload))"
    using quoted_field_occurs [OF _ assms] quoted_field_no_quote by metis
next
  assume "\<exists>pre post. payload = pre @ key @ v @ quote # post \<and> quote \<notin> set v \<and>
        (\<forall>j < length pre. \<not> prefix key (drop j payload))"
  then show "quoted_field key payload = v"
    using quoted_field_at by metis
qed

section \<open>Splitting and joining\<close>

fun split_on :: "char \<Rightarrow> string \<Rightarrow> string list" where
  "split_on b [] = [[]]"
| "split_on b (c # cs) =
     (if c = b then [] # split_on b cs
      else (case split_on b cs of [] \<Rightarrow> [[c]] | w # ws \<Rightarrow> (c # w) # ws))"

lemma split_on_not_Nil [simp]: "split_on b s \<noteq> []"
  by (induction s) (auto split: list.splits)

lemma split_on_no_sep: "w \<in> set (split_on b s) \<Longrightarrow> b \<notin> set w"
  by (induction s arbitrary: w) (auto split: list.splits if_splits)

lemma split_on_single: "b \<notin> set s \<Longrightarrow> split_on b s = [s]"
  by (induction s) auto

lemma split_on_append: "b \<notin> set u \<Longrightarrow> split_on b (u @ b # v) = u # split_on b v"
  by (induction u) auto

fun join_with :: "string \<Rightarrow> string list \<Rightarrow> string" where
  "join_with sep [] = []"
| "join_with sep [w] = w"
| "join_with sep (w # v # ws) = w @ sep @ join_with sep (v # ws)"

lemma join_split: "join_with [b] (split_on b s) = s"
proof (induction s)
  case Nil
  then show ?case by simp
next
  case (Cons c cs)
  obtain w ws where w: "split_on b cs = w # ws"
    using split_on_not_Nil by (metis list.exhaust)
  show ?case
  proof (cases "c = b")
    case True
    then show ?thesis using Cons w by simp
  next
    case False
    then show ?thesis using Cons w by (cases ws) simp_all
  qed
qed

lemma split_join:
  "ws \<noteq> [] \<Longrightarrow> \<forall>w\<in>set ws. b \<notin> set w \<Longrightarrow> split_on b (join_with [b] ws) = ws"
  by (induction "[b]" ws rule: join_with.induct) (auto simp: split_on_single split_on_append)

text \<open>\<open>strings.ReplaceAll\<close> of one byte by another.\<close>

definition replace_byte :: "char \<Rightarrow> char \<Rightarrow> string \<Rightarrow> string" where
  "replace_byte a b = map (\<lambda>c. if c = a then b else c)"

section \<open>Trimming\<close>

text \<open>
  The UTF-8 encodings of the runes \<open>unicode.IsSpace\<close> accepts: the six ASCII ones, U+0085, U+00A0,
  U+1680, U+2000 to U+200A, U+2028, U+2029, U+202F, U+205F and U+3000.
\<close>

definition go_spaces :: "string list" where
  "go_spaces =
     [[CHR 0x09], [CHR 0x0A], [CHR 0x0B], [CHR 0x0C], [CHR 0x0D], [CHR 0x20],
      [CHR 0xC2, CHR 0x85], [CHR 0xC2, CHR 0xA0], [CHR 0xE1, CHR 0x9A, CHR 0x80],
      [CHR 0xE2, CHR 0x80, CHR 0x80], [CHR 0xE2, CHR 0x80, CHR 0x81], [CHR 0xE2, CHR 0x80, CHR 0x82],
      [CHR 0xE2, CHR 0x80, CHR 0x83], [CHR 0xE2, CHR 0x80, CHR 0x84], [CHR 0xE2, CHR 0x80, CHR 0x85],
      [CHR 0xE2, CHR 0x80, CHR 0x86], [CHR 0xE2, CHR 0x80, CHR 0x87], [CHR 0xE2, CHR 0x80, CHR 0x88],
      [CHR 0xE2, CHR 0x80, CHR 0x89], [CHR 0xE2, CHR 0x80, CHR 0x8A], [CHR 0xE2, CHR 0x80, CHR 0xA8],
      [CHR 0xE2, CHR 0x80, CHR 0xA9], [CHR 0xE2, CHR 0x80, CHR 0xAF], [CHR 0xE2, CHR 0x81, CHR 0x9F],
      [CHR 0xE3, CHR 0x80, CHR 0x80]]"

lemma go_spaces_nonempty: "w \<in> set go_spaces \<Longrightarrow> w \<noteq> []"
  by (auto simp: go_spaces_def)

function trim_left :: "string list \<Rightarrow> string \<Rightarrow> string" where
  "trim_left ws s =
     (case find (\<lambda>w. w \<noteq> [] \<and> prefix w s) ws of
        None \<Rightarrow> s
      | Some w \<Rightarrow> trim_left ws (drop (length w) s))"
  by pat_completeness auto
termination
proof (relation "measure (\<lambda>(ws, s). length s)", goal_cases)
  case 1
  then show ?case by simp
next
  case (2 ws s w)
  then have "w \<noteq> []" and "prefix w s" by (auto simp: find_Some_iff)
  then show ?case by (auto simp: prefix_def)
qed

declare trim_left.simps [simp del]

definition trim_space :: "string \<Rightarrow> string" where
  "trim_space s = rev (trim_left (map rev go_spaces) (rev (trim_left go_spaces s)))"

text \<open>A word without space bytes and without bytes above ASCII is its own trimming.\<close>

definition space_byte :: "char \<Rightarrow> bool" where
  "space_byte c \<longleftrightarrow> (let v = of_char c :: nat in 128 \<le> v \<or> v = 32 \<or> (9 \<le> v \<and> v \<le> 13))"

definition plain_word :: "string \<Rightarrow> bool" where
  "plain_word s \<longleftrightarrow> list_all (\<lambda>c. \<not> space_byte c) s"

lemma go_spaces_space_byte: "list_all (list_ex space_byte) go_spaces"
  by code_simp

lemma trim_left_id:
  assumes "\<forall>w\<in>set ws. \<not> prefix w s"
  shows "trim_left ws s = s"
proof -
  have "find (\<lambda>w. w \<noteq> [] \<and> prefix w s) ws = None"
    using assms by (auto simp: find_None_iff)
  then show ?thesis by (subst trim_left.simps) simp
qed

lemma plain_word_no_space:
  assumes s: "plain_word s" and w: "w \<in> set go_spaces \<union> set (map rev go_spaces)"
  shows "\<not> prefix w s"
proof
  assume "prefix w s"
  then have "set w \<subseteq> set s" by (auto simp: prefix_def)
  moreover have "\<exists>c\<in>set w. space_byte c"
    using w go_spaces_space_byte by (auto simp: list_all_iff list_ex_iff)
  ultimately show False using s by (auto simp: plain_word_def list_all_iff)
qed

lemma trim_space_plain: "plain_word s \<Longrightarrow> trim_space s = s"
proof -
  assume s: "plain_word s"
  then have "plain_word (rev s)" by (simp add: plain_word_def list_all_iff)
  have "trim_left go_spaces s = s"
    by (rule trim_left_id) (use s plain_word_no_space in blast)
  moreover have "trim_left (map rev go_spaces) (rev s) = rev s"
    by (rule trim_left_id) (use \<open>plain_word (rev s)\<close> plain_word_no_space in blast)
  ultimately show ?thesis by (simp add: trim_space_def)
qed

section \<open>Decimal numbers\<close>

definition digit :: "nat \<Rightarrow> char" where
  "digit d = char_of (48 + d)"

fun show_nat :: "nat \<Rightarrow> string" where
  "show_nat n = (if n < 10 then [digit n] else show_nat (n div 10) @ [digit (n mod 10)])"

declare show_nat.simps [simp del]

text \<open>\<open>strconv.Itoa\<close>, and the verb \<open>%d\<close>.\<close>

definition itoa :: "int \<Rightarrow> string" where
  "itoa i = (if i < 0 then CHR ''-'' # show_nat (nat (- i)) else show_nat (nat i))"

definition digit_value :: "char \<Rightarrow> nat option" where
  "digit_value c =
     (let v = of_char c :: nat in if 48 \<le> v \<and> v \<le> 57 then Some (v - 48) else None)"

fun parse_digits :: "nat \<Rightarrow> string \<Rightarrow> nat option" where
  "parse_digits acc [] = Some acc"
| "parse_digits acc (c # cs) =
     (case digit_value c of None \<Rightarrow> None | Some d \<Rightarrow> parse_digits (10 * acc + d) cs)"

text \<open>\<open>strconv.ParseUint(s, 10, 64)\<close>; \<open>None\<close> is a syntax or a range error.\<close>

definition parse_uint :: "string \<Rightarrow> nat option" where
  "parse_uint s =
     (if s = [] then None
      else case parse_digits 0 s of
          None \<Rightarrow> None
        | Some v \<Rightarrow> if v < 2 ^ 64 then Some v else None)"

lemma digit_value_digit: "d < 10 \<Longrightarrow> digit_value (digit d) = Some d"
  by (simp add: digit_value_def digit_def Let_def)

lemma parse_digits_append:
  "parse_digits acc (u @ v) = Option.bind (parse_digits acc u) (\<lambda>a. parse_digits a v)"
  by (induction u arbitrary: acc) (auto split: option.splits)

lemma parse_show_nat: "parse_digits 0 (show_nat n) = Some n"
proof (induction n rule: show_nat.induct)
  case (1 n)
  show ?case
  proof (cases "n < 10")
    case True
    then show ?thesis by (subst show_nat.simps) (simp add: digit_value_digit)
  next
    case False
    with 1 show ?thesis
      by (subst show_nat.simps) (simp add: parse_digits_append digit_value_digit)
  qed
qed

lemma show_nat_not_Nil [simp]: "show_nat n \<noteq> []"
  by (subst show_nat.simps) simp

lemma parse_uint_itoa: "0 \<le> i \<Longrightarrow> i < 2 ^ 64 \<Longrightarrow> parse_uint (itoa i) = Some (nat i)"
  by (simp add: parse_uint_def itoa_def parse_show_nat nat_less_iff)

lemma show_nat_inject: "show_nat m = show_nat n \<Longrightarrow> m = n"
  by (metis option.inject parse_show_nat)

end
