(* ===== verification/GoError.thy ===== *)
theory GoError
  imports GoText
begin

text \<open>
  The error values of the program (\<open>src/pkg/errors/deviceErr.go\<close>, the sentinel errors of the other
  packages, and the errors that libraries hand back) and their \<open>Error()\<close> texts.

  A library error is known only by its text and by the tests the code makes on it: whether it is the
  Redis nil reply, the \<open>sqlx\<close> not-found error or a gRPC status with a code.
\<close>

datatype lib_kind = NilReply | NotFoundRow | GrpcStatus int | OtherLib

datatype go_error =
    LogicError int string                \<comment> \<open>\<open>LogicError{Code, Msg}\<close>\<close>
  | MyErrorWithTrace string go_error     \<comment> \<open>\<open>MyErrorWithTrace{Trace, err}\<close>\<close>
  | TextError string                     \<comment> \<open>\<open>errors.New\<close>, \<open>fmt.Errorf\<close> without \<open>%w\<close>\<close>
  | WrapError string go_error            \<comment> \<open>\<open>fmt.Errorf\<close> of a text and then \<open>: %w\<close>\<close>
  | LibError lib_kind string
  | CtxCanceled
  | CtxDeadlineExceeded

fun Error :: "go_error \<Rightarrow> string" where
  "Error (LogicError code msg) = ''code:'' @ itoa code @ '', msg:'' @ msg"
| "Error (MyErrorWithTrace trace e) = ''{trace:'' @ trace @ '', msg:'' @ Error e @ ''}''"
| "Error (TextError s) = s"
| "Error (WrapError s e) = s @ '': '' @ Error e"
| "Error (LibError k s) = s"
| "Error CtxCanceled = ''context canceled''"
| "Error CtxDeadlineExceeded = ''context deadline exceeded''"

definition NewMyError :: "int \<Rightarrow> string \<Rightarrow> go_error" where
  "NewMyError code msg = LogicError code msg"

definition NewMyErrorWithTrace :: "string \<Rightarrow> go_error \<Rightarrow> go_error" where
  "NewMyErrorWithTrace trace e = MyErrorWithTrace trace e"

text \<open>
  What the code reads of a context's span: whether it is valid, whether it has a trace id, and the
  texts of the two ids.
\<close>

record span_ctx =
  span_valid :: bool
  has_trace_id :: bool
  trace_text :: string
  span_text :: string

definition TraceIDFromContext :: "span_ctx \<Rightarrow> string" where
  "TraceIDFromContext sc = (if has_trace_id sc then trace_text sc else [])"

definition NewMyErrorWithCtx :: "span_ctx \<Rightarrow> go_error \<Rightarrow> go_error" where
  "NewMyErrorWithCtx ctx e = MyErrorWithTrace (TraceIDFromContext ctx) e"

text \<open>\<open>errors.Is(e, context.DeadlineExceeded)\<close>: the wrapped chain of \<open>%w\<close> is searched.\<close>

fun is_deadline :: "go_error \<Rightarrow> bool" where
  "is_deadline CtxDeadlineExceeded = True"
| "is_deadline (WrapError _ e) = is_deadline e"
| "is_deadline _ = False"

text \<open>The wrapper keeps the text of the error it wraps.\<close>

lemma Error_NewMyErrorWithCtx:
  "Error (NewMyErrorWithCtx ctx e) =
     ''{trace:'' @ TraceIDFromContext ctx @ '', msg:'' @ Error e @ ''}''"
  by (simp add: NewMyErrorWithCtx_def)

text \<open>\<open>LogicError\<close> texts with the same message tell the codes apart.\<close>

lemma LogicError_text_code:
  "0 \<le> c \<Longrightarrow> 0 \<le> d \<Longrightarrow> Error (LogicError c m) = Error (LogicError d m) \<Longrightarrow> c = d"
  by (simp add: itoa_def) (metis int_nat_eq show_nat_inject)

end
