(* ===== verification/Support.thy ===== *)
theory Support
  imports GoError
begin

text \<open>
  The HTTP middleware (\<open>src/pkg/middleware\<close>) and the recovering
  goroutine (\<open>src/pkg/util/go.go\<close>).
\<close>

section \<open>Middleware\<close>

text \<open>A request body: none, bytes not yet read, or already read or closed.\<close>

datatype req_body = NoBody | Unread string | Spent

text \<open>
  \<open>RequestBodyLog\<close>: the body the next handler finds and the bytes logged. \<open>read\<close> is reading the whole
  body.
\<close>

definition RequestBodyLog :: "(req_body \<Rightarrow> go_error + string) \<Rightarrow> req_body \<Rightarrow> req_body \<times> string option" where
  "RequestBodyLog read b =
     (case b of
        NoBody \<Rightarrow> (NoBody, None)
      | _ \<Rightarrow>
          (case read b of
             Inl err \<Rightarrow> (Spent, None)
           | Inr bytes \<Rightarrow> (Unread bytes, if bytes \<noteq> [] then Some bytes else None)))"

text \<open>The handler below finds the bytes that were sent.\<close>

lemma RequestBodyLog_transparent:
  "read (Unread bytes) = Inr bytes \<Longrightarrow>
     RequestBodyLog read (Unread bytes) = (Unread bytes, if bytes = [] then None else Some bytes)"
  by (simp add: RequestBodyLog_def)

text \<open>\<open>Middleware\<close>: a panic of the handler becomes an internal server error.\<close>

definition Middleware :: "(int \<times> string) go \<Rightarrow> int \<times> string" where
  "Middleware next =
     (case next of Ret answer \<Rightarrow> answer | Panic p \<Rightarrow> (500, ''internal server error''))"

text \<open>\<open>util.Go\<close>: a panic of the function ends the goroutine and is logged.\<close>

definition util_Go :: "unit go \<Rightarrow> string option" where
  "util_Go r = (case r of Ret _ \<Rightarrow> None | Panic p \<Rightarrow> Some p)"

end
