(* ===== verification/Cache.thy ===== *)
theory Cache
  imports GoError
begin

text \<open>
  \<open>src/pkg/cache\<close>: the names of the Redis keys, and the lock built on Redis \<open>SET NX\<close>.

  Redis is a parameter of the lock: \<open>setnx\<close> and \<open>del\<close> take the server's state and return the
  command's error with the next state. What the lock relies on of Redis is \<open>redis_lock_laws\<close>.
  The waiting loop is a fuelled recursion over the world (server, clock and context); the lemma
  \<open>BlockUntilLock_returns\<close> says how much fuel is always enough.
\<close>

section \<open>Keys\<close>

definition cacheConn :: string where "cacheConn = ''conn:''"
definition cacheKeyPrefix :: string where "cacheKeyPrefix = ''iot:cache:''"
definition cacheWsServerName :: string where "cacheWsServerName = ''iot:ws:server:''"
definition cacheWsConn :: string where "cacheWsConn = ''iot:ws:conn:''"
definition cacheWsBalancedLastat :: string where "cacheWsBalancedLastat = ''iot:ws:balance:lastat''"
definition WsBalancedPublishCache :: string where
  "WsBalancedPublishCache = ''publish:iot:ws:balanced:''"

text \<open>A \<open>time.Duration\<close> is a number of nanoseconds.\<close>

type_synonym duration = int

definition Second :: duration where "Second = 1000000000"
definition Millisecond :: duration where "Millisecond = 1000000"
definition Minute :: duration where "Minute = 60 * Second"

definition ConnTime :: duration where "ConnTime = Minute * 6"
definition LockTimne :: duration where "LockTimne = 10 * Second"
definition maxWaitTime :: duration where "maxWaitTime = 5 * Second"
definition retryInterval :: duration where "retryInterval = 100 * Millisecond"

definition GetCacheConn :: "string \<Rightarrow> string" where
  "GetCacheConn key = cacheConn @ key"

definition GetCacheKey :: "string \<Rightarrow> string" where
  "GetCacheKey key = cacheKeyPrefix @ key"

definition GetCacheWsConn :: string where
  "GetCacheWsConn = cacheWsConn"

definition GetCacheWsServerName :: "string \<Rightarrow> string" where
  "GetCacheWsServerName i = cacheWsServerName @ i"

definition CacheWsServerNameLock :: "string \<Rightarrow> string" where
  "CacheWsServerNameLock key = GetCacheWsServerName key @ '':lock''"

definition GetCacheWsBalancedLastat :: string where
  "GetCacheWsBalancedLastat = cacheWsBalancedLastat"

definition GetWsBalancedPublishCache :: "string \<Rightarrow> string" where
  "GetWsBalancedPublishCache serverName = GetCacheKey (WsBalancedPublishCache @ serverName)"

lemmas cache_key_defs = GetCacheConn_def GetCacheKey_def GetCacheWsServerName_def
  CacheWsServerNameLock_def GetWsBalancedPublishCache_def GetCacheWsBalancedLastat_def
  cacheConn_def cacheKeyPrefix_def cacheWsServerName_def cacheWsConn_def
  cacheWsBalancedLastat_def WsBalancedPublishCache_def

lemma GetCacheConn_inject [simp]: "GetCacheConn a = GetCacheConn b \<longleftrightarrow> a = b"
  by (simp add: GetCacheConn_def)

lemma GetWsBalancedPublishCache_inject [simp]:
  "GetWsBalancedPublishCache a = GetWsBalancedPublishCache b \<longleftrightarrow> a = b"
  by (simp add: cache_key_defs)

text \<open>The key families never collide, whatever the names in them.\<close>

lemma key_families_disjoint:
  "GetCacheConn a \<noteq> GetCacheKey b" "GetCacheConn a \<noteq> GetCacheWsServerName b"
  "GetCacheConn a \<noteq> GetCacheWsBalancedLastat" "GetCacheKey a \<noteq> GetCacheWsServerName b"
  "GetCacheKey a \<noteq> GetCacheWsBalancedLastat" "GetCacheConn a \<noteq> GetWsBalancedPublishCache b"
  "GetCacheWsServerName a \<noteq> GetCacheWsBalancedLastat"
  by (simp_all add: cache_key_defs)

text \<open>The message the balancer publishes for one overloaded server.\<close>

record WsBalancedPublish =
  Meanws :: int
  ReceiveWsserver :: "string list"
  ReceiveWsserverAmount :: "int list"

section \<open>The lock\<close>

text \<open>
  \<open>setnx key value ttl r\<close> is \<open>SetArgs{Mode: "NX", TTL}\<close> and \<open>del key r\<close> is \<open>Del\<close>; \<open>None\<close> is a nil error.
\<close>

type_synonym 'r setnx = "string \<Rightarrow> string \<Rightarrow> duration \<Rightarrow> 'r \<Rightarrow> go_error option \<times> 'r"
type_synonym 'r del = "string \<Rightarrow> 'r \<Rightarrow> go_error option \<times> 'r"

definition Lock :: "'r setnx \<Rightarrow> string \<Rightarrow> 'r \<Rightarrow> go_error option \<times> 'r" where
  "Lock setnx lockKey r =
     (case setnx lockKey [] LockTimne r of
        (Some err, r') \<Rightarrow> (Some err, r')
      | (None, r') \<Rightarrow> (None, r'))"

definition Unlock :: "'r del \<Rightarrow> string \<Rightarrow> 'r \<Rightarrow> go_error option \<times> 'r" where
  "Unlock del key r =
     (case del key r of
        (Some err, r') \<Rightarrow> (Some err, r')
      | (None, r') \<Rightarrow> (None, r'))"

text \<open>
  The loop of \<open>BlockUntilLock\<close>. \<open>ctx_err w\<close> is \<open>timeoutCtx.Err()\<close>; \<open>wait w\<close> is the select between the
  context and the 100 ms timer: \<open>Some e\<close> when the context was done first (\<open>e\<close> its error), \<open>None\<close> when
  the timer fired. Running out of fuel is the outer \<open>None\<close>.
\<close>

fun BlockUntilLock ::
  "nat \<Rightarrow> 'w setnx \<Rightarrow> ('w \<Rightarrow> go_error option) \<Rightarrow> ('w \<Rightarrow> go_error option \<times> 'w) \<Rightarrow> string \<Rightarrow> 'w
     \<Rightarrow> (go_error option \<times> 'w) option" where
  "BlockUntilLock 0 setnx ctx_err wait key w = None"
| "BlockUntilLock (Suc fuel) setnx ctx_err wait key w =
     (case Lock setnx key w of
        (None, w1) \<Rightarrow> Some (None, w1)
      | (Some err, w1) \<Rightarrow>
          if (case ctx_err w1 of None \<Rightarrow> False | Some e \<Rightarrow> is_deadline e)
          then Some (Some (WrapError ''failed to acquire lock within 5s'' err), w1)
          else (case wait w1 of
              (Some e, w2) \<Rightarrow> Some (Some (WrapError ''waiting for lock interrupted'' e), w2)
            | (None, w2) \<Rightarrow> BlockUntilLock fuel setnx ctx_err wait key w2))"

text \<open>
  What the loop relies on of its environment: a clock (\<open>now\<close>, in nanoseconds) that no call turns
  back, a timer that takes at least the interval, and a context whose error is its deadline's from
  the deadline on.
\<close>

definition waits_forward ::
  "('w \<Rightarrow> int) \<Rightarrow> int \<Rightarrow> 'w setnx \<Rightarrow> ('w \<Rightarrow> go_error option) \<Rightarrow> ('w \<Rightarrow> go_error option \<times> 'w) \<Rightarrow> bool" where
  "waits_forward now deadline setnx ctx_err wait \<longleftrightarrow>
     (\<forall>k v t w. now w \<le> now (snd (setnx k v t w))) \<and>
     (\<forall>w w'. wait w = (None, w') \<longrightarrow> now w + retryInterval \<le> now w') \<and>
     (\<forall>w. deadline \<le> now w \<longrightarrow> ctx_err w = Some CtxDeadlineExceeded)"

lemma now_Lock: "waits_forward now d setnx ctx_err wait \<Longrightarrow> now w \<le> now (snd (Lock setnx key w))"
  unfolding waits_forward_def Lock_def
  by (auto split: prod.splits option.splits) (metis snd_conv)+

lemma BlockUntilLock_enough:
  assumes env: "waits_forward now deadline setnx ctx_err wait"
    and "deadline - now w \<le> int n * retryInterval"
  shows "\<exists>r. BlockUntilLock (Suc n) setnx ctx_err wait key w = Some r"
  using assms(2)
proof (induction n arbitrary: w)
  case (0 w)
  obtain e w1 where L: "Lock setnx key w = (e, w1)" by (cases "Lock setnx key w")
  have "deadline \<le> now w1" using now_Lock [OF env, of w key] L 0 by simp
  then have "ctx_err w1 = Some CtxDeadlineExceeded" using env by (simp add: waits_forward_def)
  then show ?case using L by (cases e) simp_all
next
  case (Suc n w)
  obtain e w1 where L: "Lock setnx key w = (e, w1)" by (cases "Lock setnx key w")
  obtain e2 w2 where W: "wait w1 = (e2, w2)" by (cases "wait w1")
  show ?case
  proof (cases "e2 = None")
    case True
    have "now w1 + retryInterval \<le> now w2"
      using env W True by (simp add: waits_forward_def)
    moreover have "now w \<le> now w1" using now_Lock [OF env, of w key] L by simp
    ultimately have "deadline - now w2 \<le> int n * retryInterval"
      using Suc.prems by (simp add: algebra_simps)
    then obtain r where "BlockUntilLock (Suc n) setnx ctx_err wait key w2 = Some r"
      using Suc.IH by blast
    then show ?thesis using L W True by (simp del: BlockUntilLock.simps(2) add: BlockUntilLock.simps(2) [of "Suc n"] split: option.splits)
  next
    case False
    then show ?thesis using L W by (auto split: option.splits)
  qed
qed

lemma BlockUntilLock_mono:
  "BlockUntilLock n setnx ctx_err wait key w = Some r \<Longrightarrow>
   BlockUntilLock (n + k) setnx ctx_err wait key w = Some r"
  by (induction n arbitrary: w) (auto split: prod.splits option.splits if_splits)

text \<open>
  C28. \<open>BlockUntilLock\<close> always returns, and 51 rounds of its loop are enough: started at most five
  seconds before its deadline it either takes the lock or gives up, whatever Redis answers.
\<close>

theorem BlockUntilLock_returns:
  assumes "waits_forward now (now w + maxWaitTime) setnx ctx_err wait"
    and "51 \<le> fuel"
  shows "\<exists>r. BlockUntilLock fuel setnx ctx_err wait key w = Some r"
proof -
  have "\<exists>r. BlockUntilLock (Suc 50) setnx ctx_err wait key w = Some r"
    by (rule BlockUntilLock_enough [OF assms(1)])
      (simp add: maxWaitTime_def retryInterval_def Second_def Millisecond_def)
  then obtain r where "BlockUntilLock 51 setnx ctx_err wait key w = Some r" by auto
  then have "BlockUntilLock (51 + (fuel - 51)) setnx ctx_err wait key w = Some r"
    by (rule BlockUntilLock_mono)
  then show ?thesis using assms(2) by auto
qed

text \<open>
  What the lock relies on of Redis: \<open>holds r k\<close> is "the key exists". A \<open>SET NX\<close> that succeeds found no
  key and leaves one, a \<open>SET NX\<close> of an existing key fails and leaves it, and a \<open>DEL\<close> that succeeds
  leaves no key. A command may also fail for another reason (a lost connection).
\<close>

definition redis_lock_laws :: "('r \<Rightarrow> string \<Rightarrow> bool) \<Rightarrow> 'r setnx \<Rightarrow> 'r del \<Rightarrow> bool" where
  "redis_lock_laws holds setnx del \<longleftrightarrow>
     (\<forall>k v t r r'. setnx k v t r = (None, r') \<longrightarrow> \<not> holds r k \<and> holds r' k) \<and>
     (\<forall>k v t r e r'. setnx k v t r = (Some e, r') \<longrightarrow> holds r k \<longrightarrow> holds r' k) \<and>
     (\<forall>k r r'. del k r = (None, r') \<longrightarrow> \<not> holds r' k)"

lemma Lock_eq: "Lock setnx key r = setnx key [] LockTimne r"
  by (simp add: Lock_def split: prod.splits option.splits)

lemma Unlock_eq: "Unlock del key r = del key r"
  by (simp add: Unlock_def split: prod.splits option.splits)

text \<open>
  Clients contending for one key. \<open>owners\<close> are the clients between a successful \<open>Lock\<close> and their
  \<open>Unlock\<close>; the environment may drop the key when its ten seconds are over (\<open>expire\<close>), unless every
  owner is quick enough (\<open>ttl_outlives\<close>).
\<close>

record 'r lock_sys =
  server :: 'r
  owners :: "nat set"

inductive lock_step ::
  "('r \<Rightarrow> string \<Rightarrow> bool) \<Rightarrow> 'r setnx \<Rightarrow> 'r del \<Rightarrow> bool \<Rightarrow> string \<Rightarrow> 'r lock_sys \<Rightarrow> 'r lock_sys \<Rightarrow> bool"
  for holds :: "'r \<Rightarrow> string \<Rightarrow> bool" and setnx :: "'r setnx" and del :: "'r del"
    and ttl_outlives :: bool and key :: string where
  acquire: "Lock setnx key (server s) = (None, r) \<Longrightarrow>
     lock_step holds setnx del ttl_outlives key s (s\<lparr>server := r, owners := insert i (owners s)\<rparr>)"
| refuse: "Lock setnx key (server s) = (Some e, r) \<Longrightarrow>
     lock_step holds setnx del ttl_outlives key s (s\<lparr>server := r\<rparr>)"
| release: "i \<in> owners s \<Longrightarrow> Unlock del key (server s) = (e, r) \<Longrightarrow>
     lock_step holds setnx del ttl_outlives key s (s\<lparr>server := r, owners := owners s - {i}\<rparr>)"
| expire: "\<not> holds r key \<Longrightarrow> owners s = {} \<or> \<not> ttl_outlives \<Longrightarrow>
     lock_step holds setnx del ttl_outlives key s (s\<lparr>server := r\<rparr>)"

definition lock_inv :: "('r \<Rightarrow> string \<Rightarrow> bool) \<Rightarrow> string \<Rightarrow> 'r lock_sys \<Rightarrow> bool" where
  "lock_inv holds key s \<longleftrightarrow>
     owners s = {} \<or> (\<exists>i. owners s = {i}) \<and> holds (server s) key"

lemma lock_step_inv [inv_intros]:
  assumes "lock_step holds setnx del True key s t" and "redis_lock_laws holds setnx del"
    and "lock_inv holds key s"
  shows "lock_inv holds key t"
  using assms(1)
proof cases
  case (acquire r i)
  then have "\<not> holds (server s) key" and "holds r key"
    using assms(2) by (auto simp: redis_lock_laws_def Lock_eq)
  then show ?thesis using acquire assms(3) by (auto simp: lock_inv_def)
next
  case (refuse e r)
  then have "holds (server s) key \<longrightarrow> holds r key"
    using assms(2) by (auto simp: redis_lock_laws_def Lock_eq)
  then show ?thesis using refuse assms(3) by (auto simp: lock_inv_def)
next
  case (release i e r)
  then have "owners t = {}" using assms(3) by (auto simp: lock_inv_def)
  then show ?thesis by (simp add: lock_inv_def)
next
  case (expire r)
  then show ?thesis by (simp add: lock_inv_def)
qed

inductive lock_reachable ::
  "('r \<Rightarrow> string \<Rightarrow> bool) \<Rightarrow> 'r setnx \<Rightarrow> 'r del \<Rightarrow> bool \<Rightarrow> string \<Rightarrow> 'r lock_sys \<Rightarrow> bool"
  for holds :: "'r \<Rightarrow> string \<Rightarrow> bool" and setnx :: "'r setnx" and del :: "'r del"
    and ttl_outlives :: bool and key :: string where
  lock_start: "lock_reachable holds setnx del ttl_outlives key \<lparr>server = r, owners = {}\<rparr>"
| lock_next: "lock_reachable holds setnx del ttl_outlives key s \<Longrightarrow>
     lock_step holds setnx del ttl_outlives key s t \<Longrightarrow>
     lock_reachable holds setnx del ttl_outlives key t"

lemma lock_reachable_inv:
  "lock_reachable holds setnx del True key s \<Longrightarrow> redis_lock_laws holds setnx del \<Longrightarrow>
   lock_inv holds key s"
proof (induction rule: lock_reachable.induct)
  case (lock_start r)
  show ?case by (simp add: lock_inv_def)
next
  case (lock_next s t)
  then show ?case by (blast intro: lock_step_inv)
qed

text \<open>
  C27. Mutual exclusion: as long as no lock outlives its ten seconds while a client still works under it,
  two clients never own the same key, over any interleaving of \<open>Lock\<close> and \<open>Unlock\<close> calls, failed
  commands included.
\<close>

theorem Lock_mutual_exclusion:
  assumes "redis_lock_laws holds setnx del"
    and "lock_reachable holds setnx del True key s" and "i \<in> owners s" and "j \<in> owners s"
  shows "i = j"
  using lock_reachable_inv [OF assms(2,1)] assms(3,4) by (auto simp: lock_inv_def)

section \<open>A Redis to run the lock on\<close>

text \<open>The set of existing keys, as the concrete server of the witnesses.\<close>

definition set_setnx :: "string set setnx" where
  "set_setnx k v t r = (if k \<in> r then (Some (LibError NilReply ''redis: nil''), r) else (None, insert k r))"

definition set_del :: "string set del" where
  "set_del k r = (None, r - {k})"

lemma set_redis_laws: "redis_lock_laws (\<lambda>r k. k \<in> r) set_setnx set_del"
  by (auto simp: redis_lock_laws_def set_setnx_def set_del_def split: if_splits)

theorem Lock_mutual_exclusion_witness:
  "\<exists>s. lock_reachable (\<lambda>r k. k \<in> r) set_setnx set_del True ''k'' s \<and> (7::nat) \<in> owners s \<and>
       (\<forall>i. \<not> (i \<in> owners s \<and> i \<noteq> 7))"
proof -
  let ?s = "\<lparr>server = {''k''}, owners = {7::nat}\<rparr>"
  have "lock_step (\<lambda>r k. k \<in> r) set_setnx set_del True ''k'' \<lparr>server = {}, owners = {}\<rparr> ?s"
    using lock_step.acquire [of set_setnx "''k''" "\<lparr>server = {}, owners = {}\<rparr>" "{''k''}"
        "\<lambda>r k. k \<in> r" set_del True 7]
    by (simp add: Lock_eq set_setnx_def)
  then have r: "lock_reachable (\<lambda>r k. k \<in> r) set_setnx set_del True ''k'' ?s"
    by (rule lock_reachable.lock_next [OF lock_reachable.lock_start])
  moreover have "\<forall>i. \<not> (i \<in> owners ?s \<and> i \<noteq> 7)"
    using Lock_mutual_exclusion [OF set_redis_laws r, of _ 7] by auto
  ultimately show ?thesis by (intro exI [of _ ?s]) simp
qed

text \<open>
  A busy server and a clock: every \<open>SET NX\<close> fails, the timer takes exactly the interval, the context
  expires at the deadline. The state is the time.
\<close>

definition clock_setnx :: "int setnx" where
  "clock_setnx k v t w = (Some (LibError NilReply ''redis: nil''), w)"

definition clock_ctx_err :: "int \<Rightarrow> int \<Rightarrow> go_error option" where
  "clock_ctx_err deadline w = (if deadline \<le> w then Some CtxDeadlineExceeded else None)"

definition clock_wait :: "int \<Rightarrow> go_error option \<times> int" where
  "clock_wait w = (None, w + retryInterval)"

theorem BlockUntilLock_returns_witness:
  "\<exists>r. BlockUntilLock 51 clock_setnx (clock_ctx_err maxWaitTime) clock_wait ''k'' 0 = Some r"
proof -
  have "waits_forward (\<lambda>w. w) (0 + maxWaitTime) clock_setnx (clock_ctx_err maxWaitTime) clock_wait"
    by (auto simp: waits_forward_def clock_setnx_def clock_ctx_err_def clock_wait_def)
  from BlockUntilLock_returns [of "\<lambda>w. w", OF this, of 51] show ?thesis by simp
qed

end
