(* ===== verification/ConnTable.thy ===== *)
theory ConnTable
  imports Prelude
begin

text \<open>
  The connection table of a WebSocket node (\<open>src/app/iotws/cmd/internal/ws/connection.go\<close>): the map
  from connection id to socket and the counter kept beside it.

  \<open>conn_table\<close> is the interface the handlers use (look-ups after \<open>Storage\<close> and \<open>Del\<close>); its lemmas are
  about any sequence of operations. The counter is not part of it: \<open>count_drift\<close> says by how much it
  leaves the number of entries.
\<close>

section \<open>The table\<close>

record 'c connection =
  soketMap :: "string \<rightharpoonup> 'c"
  count :: i64

definition NewConnection :: "'c connection" where
  "NewConnection = \<lparr>soketMap = Map.empty, count = 0\<rparr>"

text \<open>\<open>Storage\<close> always returns a nil error, so only its effect is modelled.\<close>

definition Storage :: "string \<Rightarrow> 'c \<Rightarrow> 'c connection \<Rightarrow> 'c connection" where
  "Storage connId conn c =
     (let c1 = c\<lparr>soketMap := (soketMap c)(connId \<mapsto> conn)\<rparr>
      in c1\<lparr>count := count c1 + 1\<rparr>)"

definition Del :: "string \<Rightarrow> 'c connection \<Rightarrow> 'c connection" where
  "Del connId c =
     (let c1 = c\<lparr>count := count c - 1\<rparr>
      in c1\<lparr>soketMap := (soketMap c1)(connId := None)\<rparr>)"

definition GetconnByConnId :: "'c connection \<Rightarrow> string \<Rightarrow> 'c option" where
  "GetconnByConnId c connId = soketMap c connId"

definition GetNumber :: "'c connection \<Rightarrow> int" where
  "GetNumber c = sint (count c)"

text \<open>
  The callback of \<open>GetConnByCount\<close> over the values in visiting order. \<open>i\<close> is incremented before it is
  used; a nil slot is \<open>None\<close>.
\<close>

fun fill_conns :: "int \<Rightarrow> int \<Rightarrow> 'c list \<Rightarrow> 'c option list \<Rightarrow> 'c option list" where
  "fill_conns i cnt [] conns = conns"
| "fill_conns i cnt (c # cs) conns =
     (let i' = i + 1 in
      if i' \<ge> cnt then conns else fill_conns i' cnt cs (conns[nat i' := Some c]))"

definition GetConnByCount :: "'c list \<Rightarrow> int \<Rightarrow> ('c option list \<times> bool) go" where
  "GetConnByCount vs cnt =
     (if cnt < 0 then Panic ''makeslice: len out of range''
      else Ret (fill_conns 0 cnt vs (replicate (nat cnt) None), True))"

text \<open>The values of the map in a visiting order of its keys.\<close>

definition range_values :: "string list \<Rightarrow> 'c connection \<Rightarrow> 'c list" where
  "range_values ks c = List.map_filter (soketMap c) ks"

section \<open>The interface\<close>

datatype 'c conn_op = OpStorage string 'c | OpDel string

fun op_id :: "'c conn_op \<Rightarrow> string" where
  "op_id (OpStorage k c) = k"
| "op_id (OpDel k) = k"

locale conn_table =
  fixes new :: 't
    and storage :: "string \<Rightarrow> 'c \<Rightarrow> 't \<Rightarrow> 't"
    and del :: "string \<Rightarrow> 't \<Rightarrow> 't"
    and lookup :: "'t \<Rightarrow> string \<Rightarrow> 'c option"
  assumes lookup_new: "lookup new k = None"
    and lookup_storage: "lookup (storage k c t) j = (if j = k then Some c else lookup t j)"
    and lookup_del: "lookup (del k t) j = (if j = k then None else lookup t j)"
begin

fun run_ops :: "'c conn_op list \<Rightarrow> 't \<Rightarrow> 't" where
  "run_ops [] t = t"
| "run_ops (OpStorage k c # ops) t = run_ops ops (storage k c t)"
| "run_ops (OpDel k # ops) t = run_ops ops (del k t)"

fun last_op :: "string \<Rightarrow> 'c conn_op list \<Rightarrow> 'c option \<Rightarrow> 'c option" where
  "last_op j [] d = d"
| "last_op j (OpStorage k c # ops) d = last_op j ops (if j = k then Some c else d)"
| "last_op j (OpDel k # ops) d = last_op j ops (if j = k then None else d)"

lemma lookup_run: "lookup (run_ops ops t) j = last_op j ops (lookup t j)"
  by (induction ops t rule: run_ops.induct) (auto simp: lookup_storage lookup_del)

lemma lookup_run_new: "lookup (run_ops ops new) j = last_op j ops None"
  by (simp add: lookup_run lookup_new)

lemma last_op_append: "last_op j (xs @ ys) d = last_op j ys (last_op j xs d)"
  by (induction j xs d rule: last_op.induct) auto

lemma last_op_untouched: "list_all (\<lambda>op. op_id op \<noteq> j) ops \<Longrightarrow> last_op j ops d = d"
  by (induction j ops d rule: last_op.induct) auto

lemma last_op_SomeD:
  "last_op j ops d = Some c \<Longrightarrow>
     (\<exists>pre rest. ops = pre @ OpStorage j c # rest \<and> list_all (\<lambda>op. op_id op \<noteq> j) rest) \<or>
     (d = Some c \<and> list_all (\<lambda>op. op_id op \<noteq> j) ops)"
proof (induction ops rule: rev_induct)
  case Nil
  then show ?case by simp
next
  case (snoc op ops)
  show ?case
  proof (cases "op_id op = j")
    case True
    with snoc.prems have "op = OpStorage j c"
      by (cases op) (auto simp: last_op_append)
    then show ?thesis by fastforce
  next
    case False
    with snoc.prems have "last_op j ops d = Some c"
      by (cases op) (auto simp: last_op_append)
    from snoc.IH [OF this] show ?thesis
    proof
      assume "\<exists>pre rest. ops = pre @ OpStorage j c # rest \<and> list_all (\<lambda>op. op_id op \<noteq> j) rest"
      then obtain pre rest where "ops = pre @ OpStorage j c # rest"
        "list_all (\<lambda>op. op_id op \<noteq> j) rest" by blast
      then have "ops @ [op] = pre @ OpStorage j c # (rest @ [op])"
        "list_all (\<lambda>op. op_id op \<noteq> j) (rest @ [op])" using False by simp_all
      then show ?thesis by blast
    next
      assume "d = Some c \<and> list_all (\<lambda>op. op_id op \<noteq> j) ops"
      then show ?thesis using False by simp
    qed
  qed
qed

lemma lookup_run_iff:
  "lookup (run_ops ops new) j = Some c \<longleftrightarrow>
     (\<exists>pre rest. ops = pre @ OpStorage j c # rest \<and> list_all (\<lambda>op. op_id op \<noteq> j) rest)"
proof
  assume "lookup (run_ops ops new) j = Some c"
  then show "\<exists>pre rest. ops = pre @ OpStorage j c # rest \<and> list_all (\<lambda>op. op_id op \<noteq> j) rest"
    using last_op_SomeD by (fastforce simp: lookup_run_new)
next
  assume "\<exists>pre rest. ops = pre @ OpStorage j c # rest \<and> list_all (\<lambda>op. op_id op \<noteq> j) rest"
  then show "lookup (run_ops ops new) j = Some c"
    by (auto simp: lookup_run_new last_op_append last_op_untouched)
qed

text \<open>Operations on different ids commute for every look-up.\<close>

lemma storage_del_commute:
  "k \<noteq> k' \<Longrightarrow> lookup (storage k c (del k' t)) j = lookup (del k' (storage k c t)) j"
  by (simp add: lookup_storage lookup_del)

text \<open>A device that reconnects under its id loses its entry when the old socket is deleted.\<close>

lemma reconnect_then_del: "lookup (del k (storage k new_sock (storage k old_sock t))) k = None"
  by (simp add: lookup_del)

end

lemma soketMap_Storage [simp]: "soketMap (Storage k c t) = (soketMap t)(k \<mapsto> c)"
  by (simp add: Storage_def Let_def)

lemma soketMap_Del [simp]: "soketMap (Del k t) = (soketMap t)(k := None)"
  by (simp add: Del_def Let_def)

lemma count_Storage [simp]: "count (Storage k c t) = count t + 1"
  by (simp add: Storage_def Let_def)

lemma count_Del [simp]: "count (Del k t) = count t - 1"
  by (simp add: Del_def Let_def)

lemma connection_new [simp]: "soketMap NewConnection = Map.empty" "count NewConnection = 0"
  by (simp_all add: NewConnection_def)

interpretation ct: conn_table NewConnection Storage Del GetconnByConnId
  by unfold_locales (auto simp: GetconnByConnId_def)

lemmas conn_lookups [conn_simps] = ct.lookup_new ct.lookup_storage ct.lookup_del

section \<open>The counter\<close>

text \<open>
  An \<open>overwrite\<close> is a \<open>Storage\<close> of an id that is in the table, a \<open>missed\<close> deletion a \<open>Del\<close> of one that
  is not; both change the counter and leave the number of entries.
\<close>

fun overwrites :: "'c conn_op list \<Rightarrow> 'c connection \<Rightarrow> nat" where
  "overwrites [] t = 0"
| "overwrites (OpStorage k c # ops) t =
     (if soketMap t k = None then 0 else 1) + overwrites ops (Storage k c t)"
| "overwrites (OpDel k # ops) t = overwrites ops (Del k t)"

fun missed :: "'c conn_op list \<Rightarrow> 'c connection \<Rightarrow> nat" where
  "missed [] t = 0"
| "missed (OpStorage k c # ops) t = missed ops (Storage k c t)"
| "missed (OpDel k # ops) t =
     (if soketMap t k = None then 1 else 0) + missed ops (Del k t)"

lemma card_dom_upd:
  "finite (dom m) \<Longrightarrow> card (dom (m(k \<mapsto> c))) = (if m k = None then Suc (card (dom m)) else card (dom m))"
  by (auto simp: insert_absorb domIff)

lemma card_dom_del:
  "finite (dom m) \<Longrightarrow>
     int (card (dom (m(k := None)))) = int (card (dom m)) - (if m k = None then 0 else 1)"
proof (cases "m k")
  case None
  then show ?thesis by (simp add: domIff)
next
  case (Some y)
  moreover assume "finite (dom m)"
  ultimately have "card (dom m) \<noteq> 0" and "k \<in> dom m" by auto
  then show ?thesis using Some by (simp add: card_Diff_singleton of_nat_diff)
qed

text \<open>The counter's distance from the number of entries, as the exact integer before any wrap-around.\<close>

definition drift :: "'c connection \<Rightarrow> i64" where
  "drift t = count t - of_nat (card (dom (soketMap t)))"

lemma drift_Storage:
  "finite (dom (soketMap t)) \<Longrightarrow>
     drift (Storage k c t) = drift t + (if soketMap t k = None then 0 else 1)"
  by (simp add: drift_def card_dom_upd del: dom_fun_upd)

lemma drift_Del:
  assumes "finite (dom (soketMap t))"
  shows "drift (Del k t) = drift t - (if soketMap t k = None then 1 else 0)"
proof -
  have "(of_nat (card (dom ((soketMap t)(k := None)))) :: i64) =
      of_int (int (card (dom (soketMap t))) - (if soketMap t k = None then 0 else 1))"
    using card_dom_del [OF assms, of k] by (metis of_int_of_nat_eq)
  then show ?thesis by (simp add: drift_def del: dom_fun_upd)
qed

lemma drift_run:
  "finite (dom (soketMap t)) \<Longrightarrow>
     finite (dom (soketMap (ct.run_ops ops t))) \<and>
     drift (ct.run_ops ops t) = drift t + of_nat (overwrites ops t) - of_nat (missed ops t)"
proof (induction ops arbitrary: t)
  case Nil
  then show ?case by simp
next
  case (Cons op ops)
  show ?case
  proof (cases op)
    case (OpStorage k c)
    have "finite (dom (soketMap (Storage k c t)))" using Cons.prems by simp
    from Cons.IH [OF this] OpStorage Cons.prems show ?thesis by (simp add: drift_Storage)
  next
    case (OpDel k)
    have "finite (dom (soketMap (Del k t)))" using Cons.prems by simp
    from Cons.IH [OF this] OpDel Cons.prems show ?thesis by (simp add: drift_Del)
  qed
qed

text \<open>
  After any sequence of operations the counter is the number of entries, plus the \<open>Storage\<close> calls
  that overwrote an entry, minus the \<open>Del\<close> calls that found none (modulo \<open>2^64\<close>).
\<close>

theorem count_drift:
  "count (ct.run_ops ops NewConnection) =
     of_nat (card (dom (soketMap (ct.run_ops ops NewConnection)))) +
     of_nat (overwrites ops NewConnection) - of_nat (missed ops NewConnection)"
proof -
  have "finite (dom (soketMap (NewConnection :: 'a connection)))" by simp
  from drift_run [OF this, of ops] show ?thesis by (simp add: drift_def algebra_simps)
qed

text \<open>
  C35. What the table answers for an id after any sequence of operations: exactly the socket of a
  \<open>Storage\<close> of that id which no later operation on the id follows.
\<close>

theorem table_last_writer:
  "GetconnByConnId (ct.run_ops ops NewConnection) k = Some c \<longleftrightarrow>
     (\<exists>pre rest. ops = pre @ OpStorage k c # rest \<and> list_all (\<lambda>op. op_id op \<noteq> k) rest)"
  by (rule ct.lookup_run_iff)

section \<open>Sockets by count\<close>

lemma fill_conns_length [simp]: "length (fill_conns i cnt cs conns) = length conns"
  by (induction i cnt cs conns rule: fill_conns.induct) (auto simp: Let_def)

lemma fill_conns_nth:
  "0 \<le> i \<Longrightarrow> j < length conns \<Longrightarrow> int (length conns) = cnt \<Longrightarrow>
     fill_conns i cnt cs conns ! j =
       (if nat i < j \<and> j \<le> nat i + length cs then Some (cs ! (j - nat i - 1)) else conns ! j)"
proof (induction i cnt cs conns rule: fill_conns.induct)
  case (1 i cnt conns)
  then show ?case by auto
next
  case (2 i cnt c cs conns)
  show ?case
  proof (cases "i + 1 \<ge> cnt")
    case True
    then show ?thesis using "2.prems" by (auto simp: Let_def)
  next
    case False
    have IH: "fill_conns (i + 1) cnt cs (conns[nat (i + 1) := Some c]) ! j =
        (if nat (i + 1) < j \<and> j \<le> nat (i + 1) + length cs then Some (cs ! (j - nat (i + 1) - 1))
         else conns[nat (i + 1) := Some c] ! j)"
      using "2.IH" [OF refl] False "2.prems" by (simp add: Let_def)
    have n: "nat (i + 1) = Suc (nat i)" using "2.prems" by simp
    show ?thesis
      using False "2.prems" IH unfolding n
      by (auto simp: Let_def n nth_list_update nth_Cons' Suc_diff_Suc)
  qed
qed

lemma GetConnByCount_fills:
  assumes "0 \<le> cnt"
  shows "fill_conns 0 cnt vs (replicate (nat cnt) None) =
     (if cnt = 0 then []
      else None # map Some (take (nat cnt - 1) vs) @ replicate (nat cnt - 1 - length vs) None)"
    (is "?r = ?s")
proof (rule nth_equalityI)
  show "length ?r = length ?s" using assms by auto
next
  fix j
  assume "j < length ?r"
  then show "?r ! j = ?s ! j"
    using assms by (auto simp: fill_conns_nth nth_Cons' nth_append)
qed

text \<open>
  \<open>GetConnByCount\<close> panics exactly for a negative count; otherwise it answers a slice of that length
  whose first slot is nil and whose following slots hold the first \<open>count - 1\<close> sockets visited (fewer
  if the table has fewer).
\<close>

theorem GetConnByCount_result:
  "GetConnByCount vs cnt =
     (if cnt < 0 then Panic ''makeslice: len out of range''
      else Ret (if cnt = 0 then []
                else None # map Some (take (nat cnt - 1) vs) @
                     replicate (nat cnt - 1 - length vs) None, True))"
  by (simp add: GetConnByCount_def GetConnByCount_fills)

end
