(* ===== verification/Gateway.thy ===== *)
theory Gateway
  imports Cache ConnTable
begin

text \<open>
  The WebSocket gateway (\<open>src/app/iotws/cmd/internal/ws/gateway.go\<close>) and the upgrade handler
  (\<open>src/app/iotws/cmd/internal/handler/iotwshandler.go\<close>).

  The state is the connection table, the session storage of every socket and the list \<open>out\<close> of calls
  made on sockets, on Redis and on the logger, in order; the results of those calls are ignored by the
  code. The business callback \<open>Fn\<close> is an argument over an arbitrary world \<open>'w\<close>; it may panic.
\<close>

section \<open>State and calls\<close>

type_synonym sock = nat

datatype opcode = OpcodeText | OpcodeOther nat

text \<open>A session value (\<open>any\<close>): a string, or a value of another type.\<close>

datatype sval = SStr string | SOther

text \<open>A value of the connection table (\<open>any\<close>): a \<open>*gws.Conn\<close>, or a value of another type.\<close>

datatype conn_val = GwsConn sock | OtherConn

datatype action =
    SetDeadline sock duration
  | SetKeepAlive sock
  | WriteMessage sock opcode string
  | WritePong sock string
  | WriteClose sock nat string
  | NetConnClose sock
  | RedisDel string
  | LogPanic string
  | MessageClose

record gw =
  table :: "conn_val connection"
  sessions :: "sock \<Rightarrow> string \<rightharpoonup> sval"
  out :: "action list"

definition emit :: "action list \<Rightarrow> gw \<Rightarrow> gw" where
  "emit as g = g\<lparr>out := out g @ as\<rparr>"

definition session_store :: "sock \<Rightarrow> string \<Rightarrow> sval \<Rightarrow> gw \<Rightarrow> gw" where
  "session_store s k v g = g\<lparr>sessions := (sessions g)(s := (sessions g s)(k \<mapsto> v))\<rparr>"

abbreviation conn_id :: "gw \<Rightarrow> sock \<Rightarrow> sval option" where
  "conn_id g s \<equiv> sessions g s ''connId''"

lemma emit_simps [simp]:
  "table (emit as g) = table g" "sessions (emit as g) = sessions g" "out (emit as g) = out g @ as"
  by (simp_all add: emit_def)

lemma session_store_simps [simp]:
  "table (session_store s k v g) = table g" "out (session_store s k v g) = out g"
  "sessions (session_store s k v g) = (sessions g)(s := (sessions g s)(k \<mapsto> v))"
  by (simp_all add: session_store_def)

definition PingInterval :: duration where "PingInterval = 5 * Second"
definition PingWait :: duration where "PingWait = 10 * Second"

definition serverError :: string where "serverError = ''server error''"

section \<open>Handlers\<close>

definition OnOpen :: "sock \<Rightarrow> gw \<Rightarrow> gw" where
  "OnOpen s g = emit [SetDeadline s (PingInterval + PingWait), SetKeepAlive s] g"

text \<open>The removal that both closing handlers do: the session's id, if it is a string.\<close>

definition ServerOnClose :: "sock \<Rightarrow> go_error option \<Rightarrow> gw \<Rightarrow> gw" where
  "ServerOnClose s err g =
     (let g1 = (case err of None \<Rightarrow> g | Some e \<Rightarrow> emit [WriteMessage s OpcodeText (Error e)] g);
          g2 = (case conn_id g1 s of
                  Some (SStr coid) \<Rightarrow>
                    (emit [RedisDel (GetCacheConn coid)] g1)\<lparr>table := Del coid (table g1)\<rparr>
                | _ \<Rightarrow> g1)
      in emit [NetConnClose s] g2)"

definition OnClose :: "sock \<Rightarrow> go_error option \<Rightarrow> gw \<Rightarrow> gw" where
  "OnClose s err g =
     (case conn_id g s of
        Some (SStr coid) \<Rightarrow>
          (emit [RedisDel (GetCacheConn coid)] g)\<lparr>table := Del coid (table g)\<rparr>
      | _ \<Rightarrow> g)"

text \<open>\<open>CloseAll\<close> over the values of the table in visiting order.\<close>

fun CloseAll :: "conn_val list \<Rightarrow> gw \<Rightarrow> gw" where
  "CloseAll [] g = g"
| "CloseAll (GwsConn s # vs) g =
     CloseAll vs (emit [WriteClose s 1001 ''server shutting down'', NetConnClose s] g)"
| "CloseAll (OtherConn # vs) g = CloseAll vs g"

definition OnPing :: "sock \<Rightarrow> string \<Rightarrow> gw \<Rightarrow> gw" where
  "OnPing s payload g =
     (if conn_id g s \<noteq> None
      then emit [SetDeadline s (PingInterval + PingWait), WritePong s []] g else g)"

definition OnPong :: "sock \<Rightarrow> string \<Rightarrow> gw \<Rightarrow> gw" where
  "OnPong s payload g = emit [SetDeadline s (PingInterval + PingWait)] g"

definition extractSn :: "string \<Rightarrow> string" where
  "extractSn payload = quoted_field (quote # ''connId'' @ [quote, CHR '':'', quote]) payload"

definition recover_panic :: "sock \<Rightarrow> string \<Rightarrow> gw \<Rightarrow> gw" where
  "recover_panic s p g = emit [LogPanic p, WriteMessage s OpcodeText serverError] g"

text \<open>\<open>Fn(connId, message)\<close>: the response, whether to write it back, and the error.\<close>

type_synonym 'w fn = "string \<Rightarrow> string \<Rightarrow> 'w \<Rightarrow> (string \<times> bool \<times> go_error option) go \<times> 'w"

text \<open>The branch of \<open>OnMessage\<close> for a socket without a connection id.\<close>

definition OnMessage_new :: "'w fn \<Rightarrow> sock \<Rightarrow> opcode \<Rightarrow> string \<Rightarrow> gw \<times> 'w \<Rightarrow> gw \<times> 'w" where
  "OnMessage_new fn s op msg = (\<lambda>(g, w).
     case fn [] msg w of
       (Panic p, w') \<Rightarrow> (recover_panic s p g, w')
     | (Ret (by, _, Some err), w') \<Rightarrow> (ServerOnClose s (Some err) g, w')
     | (Ret (by, _, None), w') \<Rightarrow>
         (let sn = extractSn by;
              g1 = (if sn \<noteq> []
                    then (let g0 = session_store s ''connId'' (SStr sn) g
                          in g0\<lparr>table := Storage sn (GwsConn s) (table g0)\<rparr>)
                    else g)
          in (emit [WriteMessage s op by] g1, w')))"

text \<open>The branch for a socket with one; the type assertion \<open>connId.(string)\<close> may panic.\<close>

definition OnMessage_known :: "'w fn \<Rightarrow> sval \<Rightarrow> sock \<Rightarrow> opcode \<Rightarrow> string \<Rightarrow> gw \<times> 'w \<Rightarrow> gw \<times> 'w" where
  "OnMessage_known fn v s op msg = (\<lambda>(g, w).
     case v of
       SOther \<Rightarrow> (recover_panic s ''interface conversion'' g, w)
     | SStr coid \<Rightarrow>
         (case fn coid msg w of
            (Panic p, w') \<Rightarrow> (recover_panic s p g, w')
          | (Ret (by, sync, Some err), w') \<Rightarrow> (emit [WriteMessage s op (Error err)] g, w')
          | (Ret (by, sync, None), w') \<Rightarrow>
              ((if sync \<and> 0 < length by then emit [WriteMessage s op by] g else g), w')))"

text \<open>The four ways a callback can end.\<close>

lemma fn_cases:
  fixes fn :: "'w fn"
  obtains (panics) p w1 where "fn c m w = (Panic p, w1)"
  | (fails) resp sync e w1 where "fn c m w = (Ret (resp, sync, Some e), w1)"
  | (answers) resp sync w1 where "fn c m w = (Ret (resp, sync, None), w1)"
proof (cases "fn c m w")
  case (Pair r w1)
  show ?thesis
  proof (cases r)
    case (Ret x)
    then show ?thesis using Pair fails answers by (cases x) (metis option.exhaust)
  next
    case (Panic p)
    then show ?thesis using Pair panics by simp
  qed
qed

text \<open>
  The handler after the session was read as \<open>v\<close>: the switch, and the deferred \<open>message.Close\<close>. gws may run
  several messages of one socket in parallel, so the state can have changed since the read.
\<close>

definition OnMessage_after :: "'w fn \<Rightarrow> sval option \<Rightarrow> sock \<Rightarrow> opcode \<Rightarrow> string \<Rightarrow> gw \<times> 'w \<Rightarrow> gw \<times> 'w" where
  "OnMessage_after fn v s op msg gs =
     (let (g, w) = (case v of
          None \<Rightarrow> OnMessage_new fn s op msg gs
        | Some c \<Rightarrow> OnMessage_known fn c s op msg gs)
      in (emit [MessageClose] g, w))"

definition OnMessage :: "'w fn \<Rightarrow> sock \<Rightarrow> opcode \<Rightarrow> string \<Rightarrow> gw \<times> 'w \<Rightarrow> gw \<times> 'w" where
  "OnMessage fn s op msg gs = OnMessage_after fn (conn_id (fst gs) s) s op msg gs"

text \<open>
  The upgrade handler: \<open>upgraded\<close> is the socket \<open>Upgrade\<close> made, with its empty session, or \<open>None\<close> when it
  failed; \<open>connId\<close> is the query parameter, empty when absent.
\<close>

definition IotwsHandler :: "string \<Rightarrow> sock option \<Rightarrow> gw \<Rightarrow> gw" where
  "IotwsHandler connId upgraded g =
     (case upgraded of
        None \<Rightarrow> g
      | Some s \<Rightarrow>
          (let g0 = g\<lparr>sessions := (sessions g)(s := Map.empty)\<rparr> in
           if connId \<noteq> [] then
             (let g1 = session_store s ''connId'' (SStr connId) g0
              in g1\<lparr>table := Storage connId (GwsConn s) (table g1)\<rparr>)
           else g0))"

lemmas gw_handlers = OnOpen_def ServerOnClose_def OnClose_def OnPing_def OnPong_def
  IotwsHandler_def recover_panic_def

section \<open>TCP keep-alive\<close>

text \<open>The dynamic type of a \<open>net.Conn\<close>; \<open>TLSConn\<close> carries the connection below it.\<close>

datatype net_conn = TCPConn | TLSConn net_conn | OtherNet string

text \<open>
  \<open>SetKeepAlive\<close> of the package: \<open>keep\<close> and \<open>cfg\<close> are the errors of the two calls on the TCP
  connection, \<open>tyname\<close> the type name printed in the error. The list counts the calls made.
\<close>

definition SetKeepAlive_conn ::
  "(net_conn \<Rightarrow> string) \<Rightarrow> go_error option \<Rightarrow> go_error option \<Rightarrow> net_conn \<Rightarrow> go_error option" where
  "SetKeepAlive_conn tyname keep cfg conn =
     (let is_tcp = (case conn of TCPConn \<Rightarrow> True | TLSConn TCPConn \<Rightarrow> True | _ \<Rightarrow> False) in
      if \<not> is_tcp then
        Some (TextError (''connection is not a TCP connection (got '' @ tyname conn @ '')''))
      else (case keep of Some err \<Rightarrow> Some err | None \<Rightarrow> cfg))"

section \<open>The invariant\<close>

text \<open>Every entry of the table is a socket whose session holds the entry's id.\<close>

definition gw_inv :: "gw \<Rightarrow> bool" where
  "gw_inv g \<longleftrightarrow>
     (\<forall>k v. soketMap (table g) k = Some v \<longrightarrow> (\<exists>s. v = GwsConn s \<and> conn_id g s = Some (SStr k)))"

lemma gw_invI:
  "(\<And>k v. soketMap (table g) k = Some v \<Longrightarrow> \<exists>s. v = GwsConn s \<and> conn_id g s = Some (SStr k)) \<Longrightarrow> gw_inv g"
  by (simp add: gw_inv_def)

lemma gw_invD: "gw_inv g \<Longrightarrow> soketMap (table g) k = Some v \<Longrightarrow> \<exists>s. v = GwsConn s \<and> conn_id g s = Some (SStr k)"
  by (simp add: gw_inv_def)

lemma gw_inv_emit [simp]: "gw_inv (emit as g) = gw_inv g"
  by (simp add: gw_inv_def)

lemma gw_inv_del: "gw_inv g \<Longrightarrow> gw_inv (g\<lparr>table := Del k (table g)\<rparr>)"
  by (auto simp: gw_inv_def)

text \<open>A socket without an id, or with the id it is being stored under, can be registered.\<close>

lemma gw_inv_register:
  assumes "gw_inv g" and "conn_id g s = None"
  shows "gw_inv ((session_store s ''connId'' (SStr k) g)
           \<lparr>table := Storage k (GwsConn s) (table g)\<rparr>)"
proof (rule gw_invI)
  fix j v
  assume j: "soketMap (table ((session_store s ''connId'' (SStr k) g)
           \<lparr>table := Storage k (GwsConn s) (table g)\<rparr>)) j = Some v"
  show "\<exists>t. v = GwsConn t \<and> conn_id ((session_store s ''connId'' (SStr k) g)
           \<lparr>table := Storage k (GwsConn s) (table g)\<rparr>) t = Some (SStr j)"
  proof (cases "j = k")
    case True
    then show ?thesis using j by (intro exI [of _ s]) simp
  next
    case False
    then have "soketMap (table g) j = Some v" using j by simp
    then obtain t where t: "v = GwsConn t" "conn_id g t = Some (SStr j)"
      using gw_invD [OF assms(1)] by blast
    moreover have "t \<noteq> s" using t assms(2) by auto
    ultimately show ?thesis by auto
  qed
qed

lemma gw_inv_OnClose [inv_intros]: "gw_inv g \<Longrightarrow> gw_inv (OnClose s err g)"
  using gw_inv_del by (auto simp: OnClose_def emit_def gw_inv_def split: option.splits sval.splits)

lemma gw_inv_ServerOnClose [inv_intros]: "gw_inv g \<Longrightarrow> gw_inv (ServerOnClose s err g)"
  by (auto simp: ServerOnClose_def Let_def gw_inv_def split: option.splits sval.splits if_splits)

lemma gw_inv_OnMessage [inv_intros]:
  assumes "gw_inv (fst gs)"
  shows "gw_inv (fst (OnMessage fn s op msg gs))"
proof -
  obtain g w where gs: "gs = (g, w)" by (cases gs)
  then have g: "gw_inv g" using assms by simp
  show ?thesis
  proof (cases "conn_id g s")
    case None
    then show ?thesis
      using g gs gw_inv_register [OF g None] gw_inv_ServerOnClose [OF g]
      by (cases fn "[] :: string" msg w rule: fn_cases)
        (simp_all add: OnMessage_def OnMessage_after_def OnMessage_new_def recover_panic_def Let_def)
  next
    case (Some v)
    show ?thesis
    proof (cases v)
      case (SStr coid)
      then show ?thesis
        using g gs Some by (cases fn coid msg w rule: fn_cases)
          (simp_all add: OnMessage_def OnMessage_after_def OnMessage_known_def recover_panic_def)
    next
      case SOther
      then show ?thesis
        using g gs Some
        by (simp add: OnMessage_def OnMessage_after_def OnMessage_known_def recover_panic_def)
    qed
  qed
qed

text \<open>A socket just made by \<open>Upgrade\<close> is not in the table.\<close>

definition unregistered :: "sock \<Rightarrow> gw \<Rightarrow> bool" where
  "unregistered s g \<longleftrightarrow> (\<forall>k. soketMap (table g) k \<noteq> Some (GwsConn s))"

lemma gw_inv_IotwsHandler [inv_intros]:
  assumes "gw_inv g" and "\<And>s. up = Some s \<Longrightarrow> unregistered s g"
  shows "gw_inv (IotwsHandler connId up g)"
proof (cases up)
  case None
  then show ?thesis using assms(1) by (simp add: IotwsHandler_def)
next
  case (Some s)
  let ?g0 = "g\<lparr>sessions := (sessions g)(s := Map.empty)\<rparr>"
  have g0: "gw_inv ?g0"
    using assms Some unfolding gw_inv_def unregistered_def by fastforce
  then have "gw_inv ((session_store s ''connId'' (SStr connId) ?g0)
      \<lparr>table := Storage connId (GwsConn s) (table ?g0)\<rparr>)"
    by (rule gw_inv_register) simp
  with g0 show ?thesis using Some by (auto simp: IotwsHandler_def Let_def)
qed

lemma gw_inv_CloseAll [inv_intros]: "gw_inv g \<Longrightarrow> gw_inv (CloseAll vs g)"
  by (induction vs g rule: CloseAll.induct) auto

section \<open>Runs of the gateway\<close>

text \<open>
  One event after another, in any order and for any sockets: an upgrade of a fresh socket, and every
  callback gws makes. \<open>'w\<close> is the world of \<open>Fn\<close>.
\<close>

inductive gw_step :: "'w fn \<Rightarrow> gw \<times> 'w \<Rightarrow> gw \<times> 'w \<Rightarrow> bool" for fn :: "'w fn" where
  connect: "(\<And>s. up = Some s \<Longrightarrow> unregistered s g) \<Longrightarrow> gw_step fn (g, w) (IotwsHandler connId up g, w)"
| opened: "gw_step fn (g, w) (OnOpen s g, w)"
| message: "gw_step fn (g, w) (OnMessage fn s op msg (g, w))"
| ping: "gw_step fn (g, w) (OnPing s payload g, w)"
| pong: "gw_step fn (g, w) (OnPong s payload g, w)"
| closed: "gw_step fn (g, w) (OnClose s err g, w)"
| shutdown: "gw_step fn (g, w) (CloseAll vs g, w)"

definition gw_start :: gw where
  "gw_start = \<lparr>table = NewConnection, sessions = (\<lambda>_. Map.empty), out = []\<rparr>"

inductive gw_reachable :: "'w fn \<Rightarrow> 'w \<Rightarrow> gw \<times> 'w \<Rightarrow> bool" for fn :: "'w fn" and w0 :: 'w where
  gw_init: "gw_reachable fn w0 (gw_start, w0)"
| gw_next: "gw_reachable fn w0 gs \<Longrightarrow> gw_step fn gs gs' \<Longrightarrow> gw_reachable fn w0 gs'"

lemma gw_step_inv [inv_intros]:
  assumes "gw_step fn gs gs'" and "gw_inv (fst gs)"
  shows "gw_inv (fst gs')"
  using assms
proof (induction rule: gw_step.induct)
  case (message g w s op msg)
  then show ?case using gw_inv_OnMessage [of "(g, w)"] by simp
qed (auto intro: inv_intros simp: OnOpen_def OnPing_def OnPong_def)

lemma gw_reachable_inv: "gw_reachable fn w0 gs \<Longrightarrow> gw_inv (fst gs)"
proof (induction rule: gw_reachable.induct)
  case gw_init
  show ?case by (simp add: gw_start_def gw_inv_def)
next
  case (gw_next gs gs')
  then show ?case by (blast intro: gw_step_inv)
qed

section \<open>What the handlers guarantee\<close>


text \<open>A run with one socket that connects with an id in its URL and closes.\<close>

lemma one_connection:
  "gw_reachable fn w0 (IotwsHandler connId (Some s) gw_start, w0)"
  by (rule gw_reachable.gw_next [OF gw_reachable.gw_init])
     (rule gw_step.connect, simp add: unregistered_def gw_start_def)


text \<open>
  C16. A socket without an id is registered by its first message exactly when the callback succeeds with
  a response that names a connection id, and then under that id; otherwise table and sessions keep their
  values (a failed callback on such a socket has no entry to remove).
\<close>

theorem OnMessage_registers:
  assumes "conn_id g s = None"
    and "OnMessage fn s op msg (g, w) = (g', w')"
  shows "if \<exists>by sync. fst (fn [] msg w) = Ret (by, sync, None) \<and> extractSn by \<noteq> []
         then \<exists>by sync. fst (fn [] msg w) = Ret (by, sync, None) \<and>
                conn_id g' s = Some (SStr (extractSn by)) \<and>
                GetconnByConnId (table g') (extractSn by) = Some (GwsConn s)
         else table g' = table g \<and> sessions g' = sessions g"
proof -
  have g': "g' = fst (OnMessage_after fn None s op msg (g, w))"
    using assms by (simp add: OnMessage_def)
  show ?thesis
  proof (cases fn "[] :: string" msg w rule: fn_cases)
    case (answers resp sync w1)
    then show ?thesis
      unfolding g' by (simp add: OnMessage_after_def OnMessage_new_def GetconnByConnId_def Let_def)
  next
    case (fails resp sync e w1)
    then show ?thesis
      unfolding g' using assms(1)
      by (simp add: OnMessage_after_def OnMessage_new_def ServerOnClose_def Let_def)
  next
    case (panics p w1)
    then show ?thesis
      unfolding g' by (simp add: OnMessage_after_def OnMessage_new_def recover_panic_def)
  qed
qed

definition login_fn :: "unit fn" where
  "login_fn coid msg w =
     (Ret (quote # ''connId'' @ [quote, CHR '':'', quote] @ ''d1'' @ [quote], True, None), w)"

lemma extractSn_login: "extractSn (quote # ''connId'' @ [quote, CHR '':'', quote] @ ''d1'' @ [quote]) = ''d1''"
  by (simp add: extractSn_def quoted_field_def quote_def)

theorem OnMessage_registers_witness:
  "conn_id (fst (OnMessage login_fn 1 OpcodeText ''hi'' (gw_start, ()))) 1 = Some (SStr ''d1'')"
proof -
  obtain g' w' where r: "OnMessage login_fn 1 OpcodeText ''hi'' (gw_start, ()) = (g', w')"
    by (cases "OnMessage login_fn 1 OpcodeText ''hi'' (gw_start, ())")
  have "conn_id gw_start 1 = None" by (simp add: gw_start_def)
  from OnMessage_registers [OF this r] show ?thesis
    using r extractSn_login by (auto simp: login_fn_def split: if_splits)
qed

text \<open>The frames a list of calls writes to a socket.\<close>

definition frames_to :: "sock \<Rightarrow> action list \<Rightarrow> action list" where
  "frames_to s as = filter (\<lambda>a. case a of WriteMessage t _ _ \<Rightarrow> t = s | _ \<Rightarrow> False) as"

lemma frames_to_simps [simp]:
  "frames_to s [] = []" "frames_to s (as @ bs) = frames_to s as @ frames_to s bs"
  "frames_to s (a # as) =
     (case a of WriteMessage t _ _ \<Rightarrow> if t = s then a # frames_to s as else frames_to s as
      | _ \<Rightarrow> frames_to s as)"
  by (auto simp: frames_to_def split: action.splits)

text \<open>
  One answer per message: handling a message appends calls that end with releasing the message and
  contain no frame to another socket; a socket without an id gets exactly one frame, a registered one at most one (none when the
  transport wants no response), also when the callback fails or panics.
\<close>

theorem OnMessage_replies:
  "\<exists>as. out (fst (OnMessage fn s op msg (g, w))) = out g @ as @ [MessageClose] \<and>
        (if conn_id g s = None then length (frames_to s as) = 1 else length (frames_to s as) \<le> 1) \<and>
        frames_to t as = (if t = s then frames_to s as else [])"
proof (cases "conn_id g s")
  case None
  then show ?thesis
    by (cases fn "[] :: string" msg w rule: fn_cases)
      (simp_all add: OnMessage_def OnMessage_after_def OnMessage_new_def ServerOnClose_def
        recover_panic_def Let_def)
next
  case (Some v)
  show ?thesis
  proof (cases v)
    case (SStr coid)
    then show ?thesis
      using Some by (cases fn coid msg w rule: fn_cases)
        (simp_all add: OnMessage_def OnMessage_after_def OnMessage_known_def recover_panic_def)
  next
    case SOther
    then show ?thesis
      using Some by (simp add: OnMessage_def OnMessage_after_def OnMessage_known_def recover_panic_def)
  qed
qed

text \<open>
  A device that reconnects is lost when its old socket closes: whatever the state, if a second socket
  connects under an id and then the first one's close is handled, the id answers nothing although the
  second socket is open and its session carries the id; the device's Redis key is deleted too.
\<close>

theorem reconnect_then_old_close:
  assumes "s1 \<noteq> s2" and "coid \<noteq> []"
  shows "let g' = OnClose s1 err (IotwsHandler coid (Some s2) (IotwsHandler coid (Some s1) g)) in
         conn_id g' s2 = Some (SStr coid) \<and> GetconnByConnId (table g') coid = None \<and>
         last (out g') = RedisDel (GetCacheConn coid)"
  using assms by (simp add: OnClose_def IotwsHandler_def Let_def GetconnByConnId_def)

theorem reconnect_then_old_close_witness:
  "conn_id (OnClose 1 None (IotwsHandler ''d'' (Some 2) (IotwsHandler ''d'' (Some 1) gw_start))) 2
     = Some (SStr ''d'')"
  using reconnect_then_old_close [of 1 2 "''d''" None gw_start] by (simp add: Let_def)

text \<open>
  Messages of one socket handled in parallel can leave an entry behind: if two first messages both
  find the session empty and are answered with different ids, then after the socket's close the first id
  still leads to the closed socket (\<open>closed_socket_unreachable\<close> needs one message at a time).
\<close>

theorem parallel_logins_leave_entry:
  assumes "fn [] m1 w = (Ret (b1, y1, None), w1)" and "fn [] m2 w1 = (Ret (b2, y2, None), w2)"
    and "extractSn b1 \<noteq> []" and "extractSn b2 \<noteq> []" and "extractSn b1 \<noteq> extractSn b2"
  shows "GetconnByConnId
           (table (OnClose s err
             (fst (OnMessage_after fn None s op m2 (OnMessage_after fn None s op m1 (g, w))))))
           (extractSn b1) = Some (GwsConn s)"
  using assms
  by (simp add: OnMessage_after_def OnMessage_new_def OnClose_def GetconnByConnId_def Let_def)

definition echo_login_fn :: "unit fn" where
  "echo_login_fn coid msg w =
     (Ret (quote # ''connId'' @ [quote, CHR '':'', quote] @ msg @ [quote], True, None), w)"

lemma extractSn_echo:
  "extractSn (quote # ''connId'' @ [quote, CHR '':'', quote] @ [c] @ [quote]) = [c]" if "c \<noteq> quote"
  using that by (simp add: extractSn_def quoted_field_def quote_def)

theorem parallel_logins_leave_entry_witness:
  "GetconnByConnId
     (table (OnClose 1 None
       (fst (OnMessage_after echo_login_fn None 1 OpcodeText ''b''
         (OnMessage_after echo_login_fn None 1 OpcodeText ''a'' (gw_start, ()))))))
     ''a'' = Some (GwsConn 1)"
  using parallel_logins_leave_entry
    [of echo_login_fn "''a''" "()" "quote # ''connId'' @ [quote, CHR '':'', quote] @ ''a'' @ [quote]" True "()"
      "''b''" "quote # ''connId'' @ [quote, CHR '':'', quote] @ ''b'' @ [quote]" True "()"
      1 None OpcodeText gw_start]
    extractSn_echo [of "CHR ''a''"] extractSn_echo [of "CHR ''b''"]
  by (simp add: echo_login_fn_def quote_def)

section \<open>Types under parallel handlers\<close>

text \<open>
  Every callback at once: gws may run the messages of a socket in parallel, so a handler that has read its
  session waits among \<open>pending\<close> - socket, what it read, opcode and message - while others run.
\<close>

type_synonym pending = "(sock \<times> sval option \<times> opcode \<times> string) list"

inductive gw_par_step :: "'w fn \<Rightarrow> gw \<times> 'w \<times> pending \<Rightarrow> gw \<times> 'w \<times> pending \<Rightarrow> bool" for fn :: "'w fn" where
  par_connect: "gw_par_step fn (g, w, ps) (IotwsHandler connId up g, w, ps)"
| par_opened: "gw_par_step fn (g, w, ps) (OnOpen s g, w, ps)"
| par_read: "gw_par_step fn (g, w, ps) (g, w, (s, conn_id g s, op, msg) # ps)"
| par_handle: "(s, v, op, msg) \<in> set ps \<Longrightarrow> OnMessage_after fn v s op msg (g, w) = (g', w') \<Longrightarrow>
     gw_par_step fn (g, w, ps) (g', w', remove1 (s, v, op, msg) ps)"
| par_ping: "gw_par_step fn (g, w, ps) (OnPing s payload g, w, ps)"
| par_pong: "gw_par_step fn (g, w, ps) (OnPong s payload g, w, ps)"
| par_closed: "gw_par_step fn (g, w, ps) (OnClose s err g, w, ps)"
| par_shutdown: "gw_par_step fn (g, w, ps) (CloseAll vs g, w, ps)"

inductive gw_par_reachable :: "'w fn \<Rightarrow> 'w \<Rightarrow> gw \<times> 'w \<times> pending \<Rightarrow> bool" for fn :: "'w fn" and w0 :: 'w where
  par_init: "gw_par_reachable fn w0 (gw_start, w0, [])"
| par_next: "gw_par_reachable fn w0 x \<Longrightarrow> gw_par_step fn x y \<Longrightarrow> gw_par_reachable fn w0 y"

definition gw_typed :: "gw \<Rightarrow> bool" where
  "gw_typed g \<longleftrightarrow> (\<forall>s. conn_id g s \<noteq> Some SOther) \<and> (\<forall>k. soketMap (table g) k \<noteq> Some OtherConn)"

definition pending_typed :: "pending \<Rightarrow> bool" where
  "pending_typed ps \<longleftrightarrow> (\<forall>(s, v, op, msg)\<in>set ps. v \<noteq> Some SOther)"

lemma gw_typed_emit [simp]: "gw_typed (emit as g) = gw_typed g"
  by (simp add: gw_typed_def)

lemma gw_typed_closing: "gw_typed g \<Longrightarrow> gw_typed (OnClose s err g)" "gw_typed g \<Longrightarrow> gw_typed (ServerOnClose s err g)"
  by (auto simp: gw_typed_def OnClose_def ServerOnClose_def Let_def split: option.split sval.split)

lemma gw_typed_IotwsHandler: "gw_typed g \<Longrightarrow> gw_typed (IotwsHandler connId up g)"
  by (auto simp: gw_typed_def IotwsHandler_def Let_def split: option.split)

lemma gw_typed_CloseAll: "gw_typed g \<Longrightarrow> gw_typed (CloseAll vs g)"
  by (induction vs g rule: CloseAll.induct) simp_all

text \<open>A handler that read a string or nothing: its state, and the panics it logs.\<close>

definition read_id :: "sval option \<Rightarrow> string" where
  "read_id v = (case v of Some (SStr c) \<Rightarrow> c | _ \<Rightarrow> [])"

lemma handler_typed:
  assumes "gw_typed g" and "v \<noteq> Some SOther" and "OnMessage_after fn v s op msg (g, w) = (g', w')"
  shows "gw_typed g' \<and>
     (LogPanic p \<in> set (drop (length (out g)) (out g')) \<longleftrightarrow> fst (fn (read_id v) msg w) = Panic p)"
proof -
  consider (new) "v = None" | (known) c where "v = Some (SStr c)"
    using assms(2) by (cases v; cases "the v") auto
  then show ?thesis
  proof cases
    case new
    have t: "gw_typed ((session_store s ''connId'' (SStr k) g)\<lparr>table := Storage k (GwsConn s) (table g)\<rparr>)" for k
      using assms(1) by (auto simp: gw_typed_def)
    have c: "\<exists>as. out (ServerOnClose s e g) = out g @ as \<and> LogPanic p \<notin> set as" for e
      by (auto simp: ServerOnClose_def Let_def split: option.split sval.split)
    show ?thesis
    proof (cases fn "[] :: string" msg w rule: fn_cases)
      case (fails resp sync e w1)
      obtain as where "out (ServerOnClose s (Some e) g) = out g @ as" "LogPanic p \<notin> set as" using c by blast
      then show ?thesis
        using new fails assms(1,3) gw_typed_closing(2) [OF assms(1)]
        by (auto simp: OnMessage_after_def OnMessage_new_def read_id_def)
    qed (use new assms(1,3) t in \<open>auto simp: OnMessage_after_def OnMessage_new_def read_id_def recover_panic_def Let_def\<close>)
  next
    case known
    then show ?thesis
      using assms(1,3)
      by (cases fn c msg w rule: fn_cases)
        (auto simp: OnMessage_after_def OnMessage_known_def read_id_def recover_panic_def split: if_splits)
  qed
qed

lemma gw_par_step_typed:
  assumes "gw_par_step fn x y" and "gw_typed (fst x) \<and> pending_typed (snd (snd x))"
  shows "gw_typed (fst y) \<and> pending_typed (snd (snd y))"
  using assms
proof (induction rule: gw_par_step.induct)
  case (par_handle s v op msg ps g w g' w')
  then have "v \<noteq> Some SOther" by (auto simp: pending_typed_def)
  then have "gw_typed g'" using handler_typed [OF _ _ par_handle(2)] par_handle(3) by simp
  moreover have "pending_typed (remove1 (s, v, op, msg) ps)"
    using par_handle(3) set_remove1_subset by (fastforce simp: pending_typed_def)
  ultimately show ?case by simp
next
  case (par_read g w ps s op msg)
  then show ?case by (simp add: gw_typed_def pending_typed_def)
qed (auto simp: gw_typed_closing gw_typed_IotwsHandler gw_typed_CloseAll OnOpen_def OnPing_def OnPong_def)

lemma gw_par_typed:
  "gw_par_reachable fn w0 x \<Longrightarrow> gw_typed (fst x) \<and> pending_typed (snd (snd x))"
proof (induction rule: gw_par_reachable.induct)
  case par_init
  show ?case by (simp add: gw_typed_def gw_start_def pending_typed_def)
next
  case (par_next x y)
  then show ?case using gw_par_step_typed by blast
qed

text \<open>
  C13. The gateway's type assertions never fail: with the handlers interleaved in every way, also with
  stale reads of the session, every stored connection id is a string and every value of the table a
  socket, and a waiting handler logs a panic exactly when the business callback panics with it.
\<close>

theorem gateway_type_safe:
  assumes "gw_par_reachable fn w0 (g, w, ps)" and "(s, v, op, msg) \<in> set ps"
    and "OnMessage_after fn v s op msg (g, w) = (g', w')"
  shows "ran (\<lambda>t. conn_id g t) \<subseteq> {SStr i | i. True} \<and> ran (soketMap (table g)) \<subseteq> {GwsConn t | t. True} \<and>
     (LogPanic p \<in> set (drop (length (out g)) (out g')) \<longleftrightarrow> fst (fn (read_id v) msg w) = Panic p)"
proof -
  have t: "gw_typed g" "v \<noteq> Some SOther"
    using gw_par_typed [OF assms(1)] assms(2) by (auto simp: pending_typed_def)
  have "\<exists>i. x = SStr i" if "conn_id g u = Some x" for u x
    using t(1) that by (cases x) (auto simp: gw_typed_def)
  moreover have "\<exists>u. x = GwsConn u" if "soketMap (table g) k = Some x" for k x
    using t(1) that by (cases x) (auto simp: gw_typed_def)
  ultimately show ?thesis using handler_typed [OF t assms(3)] by (auto simp: ran_def)
qed

text \<open>Two handlers of one socket that both found no id: the second one's callback panics.\<close>

theorem gateway_type_safe_witness:
  "\<exists>g' w'. OnMessage_after (\<lambda>_ m w. (Panic ''boom'', w)) None 1 OpcodeText ''m'' (gw_start, ()) = (g', w') \<and>
     LogPanic ''boom'' \<in> set (out g')"
proof -
  let ?fn = "\<lambda>(_ :: string) (_ :: string) (w :: unit). (Panic ''boom'' :: (string \<times> bool \<times> go_error option) go, w)"
  have "gw_par_reachable ?fn () (gw_start, (), [(1, conn_id gw_start 1, OpcodeText, ''m'')])"
    by (rule par_next [OF par_init par_read])
  moreover have "conn_id gw_start 1 = None" by (simp add: gw_start_def)
  ultimately have r: "gw_par_reachable ?fn () (gw_start, (), [(1, None, OpcodeText, ''m'')])" by simp
  obtain g' w' where h: "OnMessage_after ?fn None 1 OpcodeText ''m'' (gw_start, ()) = (g', w')"
    by (metis surj_pair)
  from gateway_type_safe [OF r _ h, of "''boom''"] show ?thesis using h by (auto simp: gw_start_def)
qed

end
