(* ===== verification/GoJson.thy ===== *)
theory GoJson
  imports GoText
begin

text \<open>
  Go's \<open>encoding/json\<close> and \<open>unicode/utf8\<close>, as far as the program uses them: the quoting of strings, the
  syntax of a JSON text, and the decoding of an object into a struct of strings. A Go string is a list of
  bytes, which need not be UTF-8.

  The program calls it in \<open>app/iotlogbridge/cmd/main.go\<close>, \<open>pkg/log/iotlogbridge/logbridge.go\<close>,
  \<open>pkg/log/promtail/exchanger.go\<close> and \<open>app/iotdevice/cmd/internal/handler/iotdevicehandler.go\<close>.
\<close>

section \<open>UTF-8\<close>

definition byte :: "char \<Rightarrow> nat" where
  "byte c = of_char c"

definition is_cont :: "char \<Rightarrow> bool" where
  "is_cont c \<longleftrightarrow> 0x80 \<le> byte c \<and> byte c \<le> 0xBF"

text \<open>The range of the second byte after the first byte \<open>b\<close> of a rune of three or four bytes.\<close>

definition second_ok :: "nat \<Rightarrow> char \<Rightarrow> bool" where
  "second_ok b c \<longleftrightarrow>
     (if b = 0xE0 then 0xA0 else if b = 0xF0 then 0x90 else 0x80) \<le> byte c \<and>
     byte c \<le> (if b = 0xED then 0x9F else if b = 0xF4 then 0x8F else 0xBF)"

text \<open>\<open>utf8.DecodeRune\<close>: the length of the rune at the start, 0 where it answers \<open>RuneError\<close> with width 1.\<close>

definition rune_len :: "string \<Rightarrow> nat" where
  "rune_len s =
     (case s of
        [] \<Rightarrow> 0
      | c # cs \<Rightarrow>
          (let b = byte c in
           if b < 0x80 then 1
           else if 0xC2 \<le> b \<and> b \<le> 0xDF then
             (case cs of c1 # _ \<Rightarrow> if is_cont c1 then 2 else 0 | _ \<Rightarrow> 0)
           else if 0xE0 \<le> b \<and> b \<le> 0xEF then
             (case cs of c1 # c2 # _ \<Rightarrow> if second_ok b c1 \<and> is_cont c2 then 3 else 0 | _ \<Rightarrow> 0)
           else if 0xF0 \<le> b \<and> b \<le> 0xF4 then
             (case cs of c1 # c2 # c3 # _ \<Rightarrow> if second_ok b c1 \<and> is_cont c2 \<and> is_cont c3 then 4 else 0
              | _ \<Rightarrow> 0)
           else 0))"

text \<open>U+FFFD.\<close>

definition replacement :: string where
  "replacement = [CHR 0xEF, CHR 0xBF, CHR 0xBD]"

text \<open>What is left of a string that has been through UTF-8: each byte of no rune becomes U+FFFD.\<close>

fun to_valid :: "string \<Rightarrow> string" where
  "to_valid [] = []"
| "to_valid (c # cs) =
     (let n = rune_len (c # cs) in
      if n = 0 then replacement @ to_valid cs
      else take n (c # cs) @ to_valid (drop (n - 1) cs))"

text \<open>\<open>utf8.Valid\<close>.\<close>

fun utf8_valid :: "string \<Rightarrow> bool" where
  "utf8_valid [] = True"
| "utf8_valid (c # cs) =
     (let n = rune_len (c # cs) in n \<noteq> 0 \<and> utf8_valid (drop (n - 1) cs))"

declare to_valid.simps(2) [simp del] utf8_valid.simps(2) [simp del]

lemma to_valid_id: "utf8_valid s \<Longrightarrow> to_valid s = s"
proof (induction s rule: utf8_valid.induct)
  case (2 c cs)
  let ?n = "rune_len (c # cs)"
  have n: "?n \<noteq> 0" "utf8_valid (drop (?n - 1) cs)" using 2(2) by (simp_all add: utf8_valid.simps(2) Let_def)
  have "take ?n (c # cs) @ drop (?n - 1) cs = take ?n (c # cs) @ drop ?n (c # cs)"
    using n(1) by (cases ?n) simp_all
  then show ?case using 2(1) [OF refl] n by (simp add: to_valid.simps(2) Let_def)
qed simp

lemma utf8_valid_ascii: "(\<And>c. c \<in> set s \<Longrightarrow> byte c < 0x80) \<Longrightarrow> utf8_valid s"
  by (induction s) (simp_all add: utf8_valid.simps(2) rune_len_def Let_def)

text \<open>A rune is decided by its own bytes.\<close>

lemma rune_len_le: "rune_len s \<le> length s"
  by (auto simp: rune_len_def Let_def split: list.split)

lemma rune_len_cases:
  assumes "rune_len s \<noteq> 0"
  obtains (one) c r where "s = c # r" "byte c < 0x80" "rune_len s = 1"
    | (two) c c1 r where "s = c # c1 # r" "0xC2 \<le> byte c" "byte c \<le> 0xDF" "is_cont c1" "rune_len s = 2"
    | (three) c c1 c2 r where "s = c # c1 # c2 # r" "0xE0 \<le> byte c" "byte c \<le> 0xEF" "second_ok (byte c) c1"
        "is_cont c2" "rune_len s = 3"
    | (four) c c1 c2 c3 r where "s = c # c1 # c2 # c3 # r" "0xF0 \<le> byte c" "byte c \<le> 0xF4"
        "second_ok (byte c) c1" "is_cont c2" "is_cont c3" "rune_len s = 4"
proof (cases s)
  case Nil
  then show ?thesis using assms by (simp add: rune_len_def)
next
  case (Cons c r)
  show ?thesis
  proof (cases "byte c < 0x80")
    case True
    then show ?thesis using one [of c r] Cons by (simp add: rune_len_def)
  next
    case a: False
    show ?thesis
    proof (cases "0xC2 \<le> byte c \<and> byte c \<le> 0xDF")
      case True
      then show ?thesis
        using assms Cons a two by (cases r) (auto simp: rune_len_def Let_def split: if_split_asm)
    next
      case b: False
      show ?thesis
      proof (cases "0xE0 \<le> byte c \<and> byte c \<le> 0xEF")
        case True
        then show ?thesis
          using assms Cons a b three by (cases r; cases "tl r") (auto simp: rune_len_def Let_def split: if_split_asm)
      next
        case False
        then have "0xF0 \<le> byte c \<and> byte c \<le> 0xF4"
          using assms Cons a b by (simp add: rune_len_def Let_def split: if_split_asm)
        then show ?thesis
          using assms Cons a b False four
          by (cases r; cases "tl r"; cases "tl (tl r)") (auto simp: rune_len_def Let_def split: if_split_asm)
      qed
    qed
  qed
qed

lemma rune_len_take: "rune_len s \<noteq> 0 \<Longrightarrow> rune_len (take (rune_len s) s @ r) = rune_len s"
  by (cases s rule: rune_len_cases) (simp_all add: rune_len_def [of "_ # _"] Let_def)

lemma rune_len_one: "rune_len (c # cs) = 1 \<longleftrightarrow> byte c < 0x80"
  by (auto simp: rune_len_def Let_def split: list.split)

text \<open>\<open>utf8.EncodeRune\<close> of a code point that is no surrogate.\<close>

definition encode_rune :: "nat \<Rightarrow> string" where
  "encode_rune r =
     (if r < 0x80 then [char_of r]
      else if r < 0x800 then [char_of (0xC0 + r div 64), char_of (0x80 + r mod 64)]
      else if r < 0x10000 then
        [char_of (0xE0 + r div 4096), char_of (0x80 + r div 64 mod 64), char_of (0x80 + r mod 64)]
      else [char_of (0xF0 + r div 262144), char_of (0x80 + r div 4096 mod 64),
            char_of (0x80 + r div 64 mod 64), char_of (0x80 + r mod 64)])"

section \<open>Strings\<close>

definition backslash :: char where
  "backslash = CHR 0x5C"

definition hex_digit :: "nat \<Rightarrow> char" where
  "hex_digit n = (if n < 10 then char_of (48 + n) else char_of (87 + n))"

text \<open>\<open>appendString\<close>. \<open>html\<close> is \<open>escapeHTML\<close>: true in \<open>json.Marshal\<close>.\<close>

definition escape_byte :: "bool \<Rightarrow> char \<Rightarrow> string" where
  "escape_byte html c =
     (if c = quote \<or> c = backslash then [backslash, c]
      else if c = CHR 0x08 then [backslash, CHR ''b'']
      else if c = CHR 0x0C then [backslash, CHR ''f'']
      else if c = CHR 0x0A then [backslash, CHR ''n'']
      else if c = CHR 0x0D then [backslash, CHR ''r'']
      else if c = CHR 0x09 then [backslash, CHR ''t'']
      else if byte c < 0x20 \<or> (html \<and> c \<in> {CHR ''<'', CHR ''>'', CHR ''&''})
        then backslash # ''u00'' @ [hex_digit (byte c div 16), hex_digit (byte c mod 16)]
      else [c])"

fun json_chars :: "bool \<Rightarrow> string \<Rightarrow> string" where
  "json_chars html [] = []"
| "json_chars html (c # cs) =
     (if byte c < 0x80 then escape_byte html c @ json_chars html cs
      else
        (let n = rune_len (c # cs) in
         if n = 0 then backslash # ''ufffd'' @ json_chars html cs
         else if take n (c # cs) = encode_rune 0x2028 then backslash # ''u2028'' @ json_chars html (drop (n - 1) cs)
         else if take n (c # cs) = encode_rune 0x2029 then backslash # ''u2029'' @ json_chars html (drop (n - 1) cs)
         else take n (c # cs) @ json_chars html (drop (n - 1) cs)))"

declare json_chars.simps(2) [simp del]

definition json_quote :: "bool \<Rightarrow> string \<Rightarrow> string" where
  "json_quote html s = quote # json_chars html s @ [quote]"

definition hex_value :: "char \<Rightarrow> nat option" where
  "hex_value c =
     (let b = byte c in
      if 48 \<le> b \<and> b \<le> 57 then Some (b - 48)
      else if 97 \<le> b \<and> b \<le> 102 then Some (b - 87)
      else if 65 \<le> b \<and> b \<le> 70 then Some (b - 55)
      else None)"

definition hex4 :: "string \<Rightarrow> nat option" where
  "hex4 s =
     (case s of
        a # b # c # d # _ \<Rightarrow>
          (case (hex_value a, hex_value b, hex_value c, hex_value d) of
             (Some a, Some b, Some c, Some d) \<Rightarrow> Some (((a * 16 + b) * 16 + c) * 16 + d)
           | _ \<Rightarrow> None)
      | _ \<Rightarrow> None)"

definition is_surrogate :: "nat \<Rightarrow> bool" where
  "is_surrogate r \<longleftrightarrow> 0xD800 \<le> r \<and> r < 0xE000"

text \<open>The second half of a surrogate pair, \<open>\uXXXX\<close> again: \<open>utf16.DecodeRune\<close>, if it succeeds.\<close>

definition low_half :: "nat \<Rightarrow> string \<Rightarrow> nat option" where
  "low_half r s =
     (case s of
        a # b # cs \<Rightarrow>
          if a = backslash \<and> b = CHR ''u'' then
            (case hex4 cs of
               Some r1 \<Rightarrow>
                 if r < 0xDC00 \<and> 0xDC00 \<le> r1 \<and> r1 < 0xE000
                 then Some (0x10000 + (r - 0xD800) * 0x400 + (r1 - 0xDC00)) else None
             | None \<Rightarrow> None)
          else None
      | _ \<Rightarrow> None)"

definition simple_escape :: "char \<Rightarrow> char option" where
  "simple_escape c =
     (if c = quote \<or> c = backslash \<or> c = CHR ''/'' then Some c
      else if c = CHR ''b'' then Some (CHR 0x08)
      else if c = CHR ''f'' then Some (CHR 0x0C)
      else if c = CHR ''n'' then Some (CHR 0x0A)
      else if c = CHR ''r'' then Some (CHR 0x0D)
      else if c = CHR ''t'' then Some (CHR 0x09)
      else None)"

definition put :: "string \<Rightarrow> (string \<times> string) option \<Rightarrow> (string \<times> string) option" where
  "put t x = map_option (\<lambda>(v, r). (t @ v, r)) x"

text \<open>\<open>unquote\<close> of what follows the opening quote: the string, and what follows the closing one.\<close>

fun unquote :: "string \<Rightarrow> (string \<times> string) option" where
  "unquote [] = None"
| "unquote (c # cs) =
     (if c = quote then Some ([], cs)
      else if byte c < 0x20 then None
      else if c = backslash then
        (case cs of
           [] \<Rightarrow> None
         | e # es \<Rightarrow>
             if e = CHR ''u'' then
               (case hex4 es of
                  None \<Rightarrow> None
                | Some r \<Rightarrow>
                    if is_surrogate r then
                      (case low_half r (drop 4 es) of
                         Some r2 \<Rightarrow> put (encode_rune r2) (unquote (drop 10 es))
                       | None \<Rightarrow> put replacement (unquote (drop 4 es)))
                    else put (encode_rune r) (unquote (drop 4 es)))
             else
               (case simple_escape e of None \<Rightarrow> None | Some x \<Rightarrow> put [x] (unquote es)))
      else
        (let n = rune_len (c # cs) in
         if n = 0 then put replacement (unquote cs)
         else put (take n (c # cs)) (unquote (drop (n - 1) cs))))"

declare unquote.simps(2) [simp del]

lemma put_simps [simp]: "put t None = None" "put t (Some (v, r)) = Some (t @ v, r)"
  by (simp_all add: put_def)

lemma put_SomeE: "put t x = Some (v, r) \<Longrightarrow> (\<And>u. x = Some (u, r) \<Longrightarrow> v = t @ u \<Longrightarrow> thesis) \<Longrightarrow> thesis"
  by (auto simp: put_def)

lemma unquote_shorter: "unquote s = Some (v, r) \<Longrightarrow> length r < length s"
proof (induction s arbitrary: v r rule: length_induct)
  case (1 s)
  show ?case
  proof (cases s)
    case Nil
    then show ?thesis using 1 by simp
  next
    case (Cons c cs)
    have IH: "length r < Suc (length cs)" if "unquote t = Some (u, r)" "length t \<le> length cs" for t u r
    proof -
      have "length r < length t" using 1(1) that Cons by auto
      then show ?thesis using that(2) by simp
    qed
    show ?thesis
      using 1(2) Cons
      by (auto simp: unquote.simps(2) Let_def split: if_splits list.splits option.splits
          elim!: put_SomeE dest!: IH)
  qed
qed

section \<open>Strings survive the trip\<close>

lemma byte_lt: "byte c < 256"
  by (simp add: byte_def of_char_def)

lemma char_of_byte [simp]: "char_of (byte c) = c"
  by (simp add: byte_def)

lemma byte_quote: "byte quote = 0x22" "byte backslash = 0x5C"
  by (simp_all add: byte_def quote_def backslash_def)

lemma hex_value_digit: "n < 16 \<Longrightarrow> hex_value (hex_digit n) = Some n"
  by (auto simp: hex_value_def hex_digit_def byte_def)

lemma hex4_byte: "n < 256 \<Longrightarrow> hex4 (CHR ''0'' # CHR ''0'' # hex_digit (n div 16) # hex_digit (n mod 16) # r) = Some n"
proof -
  have "hex_value (CHR ''0'') = Some 0" by (simp add: hex_value_def byte_def)
  then show "n < 256 \<Longrightarrow> ?thesis" by (simp add: hex4_def hex_value_digit)
qed

lemma encode_rune_byte: "byte c < 0x80 \<Longrightarrow> encode_rune (byte c) = [c]"
  by (simp add: encode_rune_def)

lemma unquote_escape:
  assumes "byte c < 0x80"
  shows "unquote (escape_byte html c @ r) = put [c] (unquote r)"
proof -
  have u: "unquote (backslash # ''u00'' @ [hex_digit (byte c div 16), hex_digit (byte c mod 16)] @ r) = put [c] (unquote r)"
    using hex4_byte [OF byte_lt, of c r] assms encode_rune_byte [OF assms]
    by (simp add: unquote.simps(2) byte_quote is_surrogate_def) (simp add: quote_def backslash_def)
  have e: "unquote (backslash # e # r) = put [x] (unquote r)" if "e \<noteq> CHR ''u''" "simple_escape e = Some x" for e x
    using that by (simp add: unquote.simps(2) byte_quote) (simp add: quote_def backslash_def)
  have p: "unquote (c # r) = put [c] (unquote r)" if "c \<noteq> quote" "c \<noteq> backslash" "\<not> byte c < 0x20"
    using that assms by (simp add: unquote.simps(2) rune_len_def Let_def)
  show ?thesis
    using u p e
    by (simp add: escape_byte_def simple_escape_def quote_def backslash_def)
qed

lemma unquote_hex:
  assumes "hex4 [a, b, c, d] = Some n" and "\<not> is_surrogate n"
  shows "unquote (backslash # CHR ''u'' # a # b # c # d # r) = put (encode_rune n) (unquote r)"
proof -
  have "hex4 (a # b # c # d # r) = Some n" using assms(1) by (simp add: hex4_def)
  then show ?thesis
    using assms(2) by (simp add: unquote.simps(2) byte_quote) (simp add: quote_def backslash_def)
qed

lemma unquote_rune:
  assumes "rune_len s = n" and "n \<noteq> 0" and "n \<noteq> 1"
  shows "unquote (take n s @ r) = put (take n s) (unquote r)"
proof -
  obtain c cs where s: "s = c # cs" using assms by (cases s) (auto simp: rune_len_def)
  have c: "\<not> byte c < 0x80" using assms rune_len_one [of c cs] s by auto
  have n: "rune_len (take n s @ r) = n" using rune_len_take [of s r] assms by simp
  have t: "take n s = c # take (n - 1) cs" using assms(2) s by (cases n) simp_all
  have l: "length (take (n - 1) cs) = n - 1" using rune_len_le [of s] assms(1) s by simp
  have T: "take n (c # take (n - 1) cs @ r) = c # take (n - 1) cs"
    using l assms(2) by (cases n) simp_all
  have "c \<noteq> quote" "c \<noteq> backslash" using c byte_quote by auto
  then show ?thesis
    using c n l T assms(2) unfolding t by (simp add: unquote.simps(2) Let_def)
qed

lemma put_put: "put a (put b x) = put (a @ b) x"
  by (cases x) (auto simp: put_def)

lemma unquote_json_chars: "unquote (json_chars html s @ quote # r) = Some (to_valid s, r)"
proof (induction html s rule: json_chars.induct)
  case (1 html)
  show ?case by (simp add: unquote.simps(2))
next
  case (2 html c cs)
  let ?n = "rune_len (c # cs)"
  show ?case
  proof (cases "byte c < 0x80")
    case True
    then have "?n = 1" using rune_len_one by blast
    then show ?thesis
      using 2(1) True by (simp add: json_chars.simps(2) to_valid.simps(2) unquote_escape Let_def)
  next
    case False
    have lit: "hex4 ''fffd'' = Some 0xFFFD" "hex4 ''2028'' = Some 0x2028" "hex4 ''2029'' = Some 0x2029"
      by (simp_all add: hex4_def hex_value_def byte_def)
    have n1: "?n \<noteq> 1" using False rune_len_one by metis
    consider (bad) "?n = 0" | (ls) "?n \<noteq> 0" "take ?n (c # cs) = encode_rune 0x2028"
      | (ps) "?n \<noteq> 0" "take ?n (c # cs) \<noteq> encode_rune 0x2028" "take ?n (c # cs) = encode_rune 0x2029"
      | (plain) "?n \<noteq> 0" "take ?n (c # cs) \<noteq> encode_rune 0x2028" "take ?n (c # cs) \<noteq> encode_rune 0x2029"
      by blast
    then show ?thesis
    proof cases
      case bad
      have "encode_rune 0xFFFD = replacement" by (simp add: encode_rune_def replacement_def char_of_def bit_0)
      then show ?thesis
        using 2(2) [OF False refl bad] False bad unquote_hex [OF lit(1)]
        by (simp add: json_chars.simps(2) to_valid.simps(2) is_surrogate_def)
    next
      case ls
      then show ?thesis
        using 2(3) [OF False refl ls] False unquote_hex [OF lit(2)]
        by (simp add: json_chars.simps(2) to_valid.simps(2) is_surrogate_def Let_def)
    next
      case ps
      then show ?thesis
        using 2(4) [OF False refl ps] False unquote_hex [OF lit(3)]
        by (simp add: json_chars.simps(2) to_valid.simps(2) is_surrogate_def Let_def)
    next
      case plain
      then show ?thesis
        using 2(5) [OF False refl plain] False unquote_rune [OF refl plain(1) n1]
        by (simp add: json_chars.simps(2) to_valid.simps(2) Let_def)
    qed
  qed
qed

lemma unquote_json_quote: "unquote (tl (json_quote html s @ r)) = Some (to_valid s, r)"
  using unquote_json_chars by (simp add: json_quote_def)

text \<open>Characters that stand for themselves.\<close>

definition plain_char :: "bool \<Rightarrow> char \<Rightarrow> bool" where
  "plain_char html c \<longleftrightarrow> 0x20 \<le> byte c \<and> byte c < 0x80 \<and> c \<noteq> quote \<and> c \<noteq> backslash \<and>
     \<not> (html \<and> c \<in> {CHR ''<'', CHR ''>'', CHR ''&''})"

lemma escape_byte_plain:
  assumes "plain_char html c"
  shows "escape_byte html c = [c]"
proof -
  have "byte c \<noteq> byte d" if "byte d < 0x20" for d using assms that by (simp add: plain_char_def)
  note this [of "CHR 0x08"] this [of "CHR 0x0C"] this [of "CHR 0x0A"] this [of "CHR 0x0D"] this [of "CHR 0x09"]
  then have "c \<noteq> CHR 0x08" "c \<noteq> CHR 0x0C" "c \<noteq> CHR 0x0A" "c \<noteq> CHR 0x0D" "c \<noteq> CHR 0x09"
    by (auto simp: byte_def)
  then show ?thesis using assms unfolding plain_char_def escape_byte_def by simp
qed

lemma json_chars_plain: "list_all (plain_char html) s \<Longrightarrow> json_chars html s = s"
  by (induction s) (simp_all add: json_chars.simps(2) escape_byte_plain, simp add: plain_char_def)

lemma utf8_valid_to_valid: "utf8_valid (to_valid s)"
proof (induction s rule: to_valid.induct)
  case (2 c cs)
  let ?n = "rune_len (c # cs)"
  show ?case
  proof (cases "?n = 0")
    case True
    have "rune_len (replacement @ to_valid cs) = 3"
      by (simp add: rune_len_def replacement_def byte_def second_ok_def is_cont_def)
    then show ?thesis
      using 2(1) [OF refl True] True by (simp add: to_valid.simps(2) utf8_valid.simps(2) replacement_def Let_def)
  next
    case False
    let ?r = "to_valid (drop (?n - 1) cs)"
    obtain m where m: "?n = Suc m" using False by (cases ?n) auto
    have "rune_len (take ?n (c # cs) @ ?r) = ?n" by (rule rune_len_take [OF False])
    then have l: "rune_len (c # take m cs @ ?r) = Suc m" using m by simp
    have "m \<le> length cs" using rune_len_le [of "c # cs"] m by simp
    then have "drop m (take m cs @ ?r) = ?r" by simp
    then show ?thesis
      using 2(2) [OF refl False] m l by (simp add: to_valid.simps(2) utf8_valid.simps(2) Let_def)
  qed
qed simp

lemma to_valid_idem [simp]: "to_valid (to_valid s) = to_valid s"
  by (rule to_valid_id [OF utf8_valid_to_valid])

lemma to_valid_plain: "list_all (plain_char html) s \<Longrightarrow> to_valid s = s"
  by (rule to_valid_id, rule utf8_valid_ascii) (auto simp: list_all_iff plain_char_def)

lemma plain_no_quote: "list_all (plain_char html) s \<Longrightarrow> quote \<notin> set s"
  by (auto simp: list_all_iff plain_char_def)

section \<open>The syntax of a JSON text\<close>

text \<open>The members of an object come with the text of their value, as a \<open>json.RawMessage\<close> receives it.\<close>

datatype json =
    JNull | JBool bool | JNumber string | JString string | JArray "json list"
  | JObject "(string \<times> string \<times> json) list"

definition is_space :: "char \<Rightarrow> bool" where
  "is_space c \<longleftrightarrow> byte c \<in> {0x20, 0x09, 0x0A, 0x0D}"

definition skip_ws :: "string \<Rightarrow> string" where
  "skip_ws s = dropWhile is_space s"

definition is_digit :: "char \<Rightarrow> bool" where
  "is_digit c \<longleftrightarrow> 48 \<le> byte c \<and> byte c \<le> 57"

text \<open>The parts of a number: the digits, a fraction, an exponent; \<open>None\<close> where digits are missing.\<close>

definition digits :: "string \<Rightarrow> string option" where
  "digits s = (case s of c # cs \<Rightarrow> if is_digit c then Some (dropWhile is_digit cs) else None | [] \<Rightarrow> None)"

definition integer_part :: "string \<Rightarrow> string option" where
  "integer_part s = (case s of c # cs \<Rightarrow> if c = CHR ''0'' then Some cs else digits s | [] \<Rightarrow> None)"

definition fraction :: "string \<Rightarrow> string option" where
  "fraction s = (case s of c # cs \<Rightarrow> if c = CHR ''.'' then digits cs else Some s | [] \<Rightarrow> Some s)"

definition exponent :: "string \<Rightarrow> string option" where
  "exponent s =
     (case s of
        c # cs \<Rightarrow>
          if c = CHR ''e'' \<or> c = CHR ''E'' then
            (case cs of
               e # es \<Rightarrow> if e = CHR ''+'' \<or> e = CHR ''-'' then digits es else digits cs
             | [] \<Rightarrow> None)
          else Some s
      | [] \<Rightarrow> Some s)"

text \<open>The rest of the text after a number.\<close>

definition json_number :: "string \<Rightarrow> string option" where
  "json_number s =
     (case integer_part (case s of c # cs \<Rightarrow> if c = CHR ''-'' then cs else s | [] \<Rightarrow> s) of
        None \<Rightarrow> None
      | Some s1 \<Rightarrow> (case fraction s1 of None \<Rightarrow> None | Some s2 \<Rightarrow> exponent s2))"

text \<open>Literals and numbers: what begins with none of a quote, a brace and a bracket.\<close>

definition json_scalar :: "string \<Rightarrow> (json \<times> string) option" where
  "json_scalar s =
     (if prefix ''null'' s then Some (JNull, drop 4 s)
      else if prefix ''true'' s then Some (JBool True, drop 4 s)
      else if prefix ''false'' s then Some (JBool False, drop 5 s)
      else (case json_number s of None \<Rightarrow> None | Some r \<Rightarrow> Some (JNumber (take (length s - length r) s), r)))"

text \<open>Go refuses a text nested more deeply.\<close>

definition maxNestingDepth :: nat where
  "maxNestingDepth = 10000"

text \<open>
  A value at nesting depth \<open>d\<close> and the rest of the text. The comparisons of lengths make the recursion
  end; lemma \<open>json_shorter\<close> shows that they never fail.
\<close>

lemma skip_ws_length: "length (skip_ws s) \<le> length s"
  by (simp add: skip_ws_def length_dropWhile_le)

lemma skip_ws_Cons: "skip_ws s = c # cs \<Longrightarrow> length cs < length s"
  using skip_ws_length [of s] by simp

function (sequential) json_value :: "nat \<Rightarrow> string \<Rightarrow> (json \<times> string) option"
  and json_members :: "nat \<Rightarrow> string \<Rightarrow> ((string \<times> string \<times> json) list \<times> string) option"
  and json_elems :: "nat \<Rightarrow> string \<Rightarrow> (json list \<times> string) option" where
  "json_value d s =
     (case skip_ws s of
        [] \<Rightarrow> None
      | c # cs \<Rightarrow>
          if c = quote then (case unquote cs of None \<Rightarrow> None | Some (t, r) \<Rightarrow> Some (JString t, r))
          else if c = CHR ''{'' then
            (if maxNestingDepth \<le> d then None
             else
               (case skip_ws cs of
                  [] \<Rightarrow> None
                | c1 # r1 \<Rightarrow>
                    if c1 = CHR ''}'' then Some (JObject [], r1)
                    else (case json_members (Suc d) cs of None \<Rightarrow> None | Some (ms, r) \<Rightarrow> Some (JObject ms, r))))
          else if c = CHR ''['' then
            (if maxNestingDepth \<le> d then None
             else
               (case skip_ws cs of
                  [] \<Rightarrow> None
                | c1 # r1 \<Rightarrow>
                    if c1 = CHR '']'' then Some (JArray [], r1)
                    else (case json_elems (Suc d) cs of None \<Rightarrow> None | Some (vs, r) \<Rightarrow> Some (JArray vs, r))))
          else json_scalar (c # cs))"
| "json_members d s =
     (case skip_ws s of
        [] \<Rightarrow> None
      | c # cs \<Rightarrow>
          if c \<noteq> quote then None
          else
            (case unquote cs of
               None \<Rightarrow> None
             | Some (k, r1) \<Rightarrow>
                 (case skip_ws r1 of
                    [] \<Rightarrow> None
                  | c2 # r2 \<Rightarrow>
                      if c2 \<noteq> CHR '':'' then None
                      else
                        (case json_value d r2 of
                           None \<Rightarrow> None
                         | Some (v, r3) \<Rightarrow>
                             (let t = skip_ws r2; raw = take (length t - length r3) t in
                              case skip_ws r3 of
                                [] \<Rightarrow> None
                              | c4 # r4 \<Rightarrow>
                                  if c4 = CHR ''}'' then Some ([(k, raw, v)], r4)
                                  else if c4 = CHR '','' \<and> length r4 < length s then
                                    (case json_members d r4 of
                                       None \<Rightarrow> None
                                     | Some (ms, r) \<Rightarrow> Some ((k, raw, v) # ms, r))
                                  else None)))))"
| "json_elems d s =
     (case json_value d s of
        None \<Rightarrow> None
      | Some (v, r1) \<Rightarrow>
          (case skip_ws r1 of
             [] \<Rightarrow> None
           | c2 # r2 \<Rightarrow>
               if c2 = CHR '']'' then Some ([v], r2)
               else if c2 = CHR '','' \<and> length r2 < length s then
                 (case json_elems d r2 of None \<Rightarrow> None | Some (vs, r) \<Rightarrow> Some (v # vs, r))
               else None))"
  by pat_completeness auto
termination
  by (relation "measure (\<lambda>x. case x of Inl (d, s) \<Rightarrow> 2 * length s | Inr (Inl (d, s)) \<Rightarrow> 2 * length s
      | Inr (Inr (d, s)) \<Rightarrow> 2 * length s + 1)")
    (auto dest!: skip_ws_Cons unquote_shorter)

declare json_value.simps [simp del] json_members.simps [simp del] json_elems.simps [simp del]

lemma dropWhile_length: "length (dropWhile P s) \<le> length s"
  by (rule length_dropWhile_le)

lemma digits_shorter: "digits s = Some r \<Longrightarrow> length r < length s"
  using dropWhile_length [of is_digit "tl s"] by (auto simp: digits_def split: list.splits if_splits)

lemma integer_part_shorter: "integer_part s = Some r \<Longrightarrow> length r < length s"
  by (auto simp: integer_part_def split: list.splits if_splits dest: digits_shorter)

lemma fraction_length: "fraction s = Some r \<Longrightarrow> length r \<le> length s"
  using digits_shorter by (fastforce simp: fraction_def split: list.splits if_splits)

lemma exponent_length: "exponent s = Some r \<Longrightarrow> length r \<le> length s"
  using digits_shorter by (fastforce simp: exponent_def split: list.splits if_splits)

lemma json_number_shorter: "json_number s = Some r \<Longrightarrow> length r < length s"
  by (auto simp: json_number_def split: option.splits list.splits if_splits
      dest!: integer_part_shorter fraction_length exponent_length)

lemma json_scalar_shorter: "json_scalar s = Some (v, r) \<Longrightarrow> length r < length s"
  by (cases s) (auto simp: json_scalar_def split: if_splits option.splits dest!: json_number_shorter)

lemma json_shorter:
  "(\<forall>d v r. json_value d s = Some (v, r) \<longrightarrow> length r < length s) \<and>
   (\<forall>d ms r. json_members d s = Some (ms, r) \<longrightarrow> length r < length s) \<and>
   (\<forall>d vs r. json_elems d s = Some (vs, r) \<longrightarrow> length r < length s)"
proof (induction s rule: length_induct)
  case (1 s)
  have IH: "json_value d t = Some (v, r) \<Longrightarrow> length t < length s \<Longrightarrow> length r < length t"
    "json_members d t = Some (ms, r) \<Longrightarrow> length t < length s \<Longrightarrow> length r < length t"
    "json_elems d t = Some (vs, r) \<Longrightarrow> length t < length s \<Longrightarrow> length r < length t" for d t v ms vs r
    using 1 by blast+
  have v: "length r < length s" if val: "json_value d s = Some (v, r)" for d v r
  proof -
    obtain c cs where s: "skip_ws s = c # cs"
      using val by (cases "skip_ws s") (simp_all add: json_value.simps)
    have cs: "length cs < length s" by (rule skip_ws_Cons [OF s])
    show ?thesis
      using val s cs
      by (subst (asm) json_value.simps)
        (fastforce split: if_splits option.splits list.splits
          dest: unquote_shorter skip_ws_Cons json_scalar_shorter IH(2) [OF _ cs] IH(3) [OF _ cs])
  qed
  have m: "length r < length s" if "json_members d s = Some (ms, r)" for d ms r
    using that IH(1,2)
    by (subst (asm) json_members.simps)
      (fastforce simp: Let_def split: if_splits option.splits list.splits dest: unquote_shorter skip_ws_Cons)
  have e: "length r < length s" if "json_elems d s = Some (vs, r)" for d vs r
    using that v IH(3)
    by (subst (asm) json_elems.simps)
      (fastforce split: if_splits option.splits list.splits dest: skip_ws_Cons)
  show ?case using v m e by blast
qed

text \<open>The recursion without the comparisons.\<close>

lemma json_elems_eq:
  "json_elems d s =
     (case json_value d s of
        None \<Rightarrow> None
      | Some (v, r1) \<Rightarrow>
          (case skip_ws r1 of
             [] \<Rightarrow> None
           | c2 # r2 \<Rightarrow>
               if c2 = CHR '']'' then Some ([v], r2)
               else if c2 = CHR '','' then
                 (case json_elems d r2 of None \<Rightarrow> None | Some (vs, r) \<Rightarrow> Some (v # vs, r))
               else None))"
proof -
  have "length r2 < length s" if "json_value d s = Some (v, r1)" "skip_ws r1 = c2 # r2" for v r1 c2 r2
    using that json_shorter [of s] skip_ws_Cons [of r1 c2 r2] by fastforce
  then show ?thesis by (subst json_elems.simps) (auto split: option.split list.split)
qed

text \<open>What follows a key and its colon.\<close>

definition member_rest :: "nat \<Rightarrow> string \<Rightarrow> string \<Rightarrow> ((string \<times> string \<times> json) list \<times> string) option" where
  "member_rest d k r2 =
     (case json_value d r2 of
        None \<Rightarrow> None
      | Some (v, r3) \<Rightarrow>
          (let t = skip_ws r2; raw = take (length t - length r3) t in
           case skip_ws r3 of
             [] \<Rightarrow> None
           | c4 # r4 \<Rightarrow>
               if c4 = CHR ''}'' then Some ([(k, raw, v)], r4)
               else if c4 = CHR '','' then
                 (case json_members d r4 of None \<Rightarrow> None | Some (ms, r) \<Rightarrow> Some ((k, raw, v) # ms, r))
               else None))"

lemma json_members_at:
  assumes "skip_ws s = quote # cs" and "unquote cs = Some (k, r1)" and "skip_ws r1 = CHR '':'' # r2"
  shows "json_members d s = member_rest d k r2"
proof -
  have 2: "length r2 < length s"
    using skip_ws_Cons [OF assms(1)] unquote_shorter [OF assms(2)] skip_ws_Cons [OF assms(3)] by simp
  have 4: "length r4 < length s" if "json_value d r2 = Some (v, r3)" "skip_ws r3 = c4 # r4" for v r3 c4 r4
    using that 2 json_shorter [of r2] skip_ws_Cons [of r3 c4 r4] by fastforce
  show ?thesis
    using assms 4 by (subst json_members.simps) (auto simp: member_rest_def Let_def split: option.split list.split)
qed

section \<open>Values in and out\<close>

text \<open>A text that is read as a value, whatever follows it.\<close>

definition renders :: "nat \<Rightarrow> string \<Rightarrow> json \<Rightarrow> bool" where
  "renders d t v \<longleftrightarrow> t \<noteq> [] \<and> \<not> is_space (hd t) \<and> (\<forall>r. json_value d (t @ r) = Some (v, r))"

text \<open>Objects and arrays as \<open>json.Marshal\<close> writes them, of the texts of their parts.\<close>

definition json_object :: "bool \<Rightarrow> (string \<times> string) list \<Rightarrow> string" where
  "json_object html kts =
     ''{'' @ join_with '','' (map (\<lambda>(k, t). json_quote html k @ '':'' @ t) kts) @ ''}''"

definition json_array :: "string list \<Rightarrow> string" where
  "json_array ts = ''['' @ join_with '','' ts @ '']''"

lemma skip_ws_nonspace: "\<not> is_space c \<Longrightarrow> skip_ws (c # s) = c # s"
  by (simp add: skip_ws_def)

lemma punctuation [simp]:
  "\<not> is_space quote" "\<not> is_space (CHR ''{'')" "\<not> is_space (CHR ''}'')" "\<not> is_space (CHR ''['')"
  "\<not> is_space (CHR '']'')" "\<not> is_space (CHR '','')" "\<not> is_space (CHR '':'')"
  by (simp_all add: is_space_def byte_def quote_def)

lemma quote_neq [simp]:
  "quote \<noteq> CHR ''{''" "quote \<noteq> CHR ''}''" "quote \<noteq> CHR ''[''" "quote \<noteq> CHR '']''" "quote \<noteq> CHR '',''"
  "CHR ''{'' \<noteq> quote" "CHR ''}'' \<noteq> quote" "CHR ''['' \<noteq> quote" "CHR '']'' \<noteq> quote" "CHR '','' \<noteq> quote"
  by (simp_all add: quote_def)

lemma renders_skip: "renders d t v \<Longrightarrow> skip_ws (t @ r) = t @ r"
  by (cases t) (simp_all add: renders_def skip_ws_nonspace)

lemma renders_string: "renders d (json_quote html s) (JString (to_valid s))"
proof -
  have "json_value d (json_quote html s @ r) = Some (JString (to_valid s), r)" for r
    using unquote_json_chars [of html s r]
    by (subst json_value.simps) (simp add: json_quote_def skip_ws_nonspace)
  then show ?thesis by (simp add: renders_def json_quote_def)
qed

lemma json_members_quote:
  "json_members d (json_quote html k @ CHR '':'' # r) = member_rest d (to_valid k) r"
  by (rule json_members_at [where cs = "json_chars html k @ quote # CHR '':'' # r" and ?r1.0 = "CHR '':'' # r"])
    (simp_all add: json_quote_def skip_ws_nonspace unquote_json_chars)

lemma member_rest_renders:
  assumes "renders d t v"
  shows "member_rest d k (t @ CHR ''}'' # r) = Some ([(k, t, v)], r)"
    and "member_rest d k (t @ CHR '','' # r) =
      (case json_members d r of None \<Rightarrow> None | Some (ms, r') \<Rightarrow> Some ((k, t, v) # ms, r'))"
  using assms renders_skip [OF assms] unfolding renders_def
  by (simp_all add: member_rest_def Let_def skip_ws_nonspace split: option.split)

text \<open>Keys, texts and values of the members.\<close>

lemma json_members_join:
  assumes "ms \<noteq> []" and "\<And>k t v. (k, t, v) \<in> set ms \<Longrightarrow> renders d t v"
  shows "json_members d (join_with '','' (map (\<lambda>(k, t, v). json_quote html k @ '':'' @ t) ms) @ CHR ''}'' # r) =
    Some (map (\<lambda>(k, t, v). (to_valid k, t, v)) ms, r)"
  using assms
proof (induction ms)
  case (Cons m ms)
  obtain k t v where m: "m = (k, t, v)" by (cases m)
  have t: "renders d t v" by (rule Cons.prems(2) [of k]) (simp add: m)
  show ?case
  proof (cases ms)
    case Nil
    then show ?thesis using m member_rest_renders(1) [OF t] by (simp add: json_members_quote)
  next
    case (Cons m' ms')
    have "json_members d (join_with '','' (map (\<lambda>(k, t, v). json_quote html k @ '':'' @ t) ms) @ CHR ''}'' # r) =
        Some (map (\<lambda>(k, t, v). (to_valid k, t, v)) ms, r)"
    proof (rule Cons.IH)
      show "ms \<noteq> []" using Cons by simp
    qed (metis Cons.prems(2) list.set_intros(2))
    then show ?thesis
      using m Cons member_rest_renders(2) [OF t] by (simp add: json_members_quote)
  qed
qed simp

lemma renders_object:
  assumes "d < maxNestingDepth" and "\<And>k t v. (k, t, v) \<in> set ms \<Longrightarrow> renders (Suc d) t v"
  shows "renders d (json_object html (map (\<lambda>(k, t, v). (k, t)) ms)) (JObject (map (\<lambda>(k, t, v). (to_valid k, t, v)) ms))"
proof -
  let ?body = "join_with '','' (map (\<lambda>(k, t, v). json_quote html k @ '':'' @ t) ms)"
  have o: "json_object html (map (\<lambda>(k, t, v). (k, t)) ms) = CHR ''{'' # ?body @ ''}''"
    by (simp add: json_object_def comp_def case_prod_unfold)
  have "json_value d (CHR ''{'' # ?body @ CHR ''}'' # r) = Some (JObject (map (\<lambda>(k, t, v). (to_valid k, t, v)) ms), r)" for r
  proof (cases ms)
    case Nil
    then show ?thesis using assms(1) by (subst json_value.simps) (simp add: skip_ws_nonspace)
  next
    case (Cons m ms')
    obtain k t v where m: "m = (k, t, v)" by (cases m)
    have "?body @ CHR ''}'' # r = quote # tl (?body @ CHR ''}'' # r)"
      using Cons m by (cases ms') (simp_all add: json_quote_def)
    then have s: "skip_ws (?body @ CHR ''}'' # r) = quote # tl (?body @ CHR ''}'' # r)"
      by (metis punctuation(1) skip_ws_nonspace)
    have "json_members (Suc d) (?body @ CHR ''}'' # r) = Some (map (\<lambda>(k, t, v). (to_valid k, t, v)) ms, r)"
      by (rule json_members_join) (use Cons assms(2) in auto)
    then show ?thesis
      using assms(1) s by (subst json_value.simps) (simp add: skip_ws_nonspace)
  qed
  then show ?thesis unfolding renders_def o by simp
qed

lemma json_elems_join:
  assumes "tvs \<noteq> []" and "\<And>t v. (t, v) \<in> set tvs \<Longrightarrow> renders d t v"
  shows "json_elems d (join_with '','' (map fst tvs) @ CHR '']'' # r) = Some (map snd tvs, r)"
  using assms
proof (induction tvs)
  case (Cons tv tvs)
  obtain t v where tv: "tv = (t, v)" by (cases tv)
  have t: "renders d t v" by (rule Cons.prems(2)) (simp add: tv)
  then have tr: "json_value d (t @ r) = Some (v, r)" for r by (simp add: renders_def)
  show ?case
  proof (cases tvs)
    case Nil
    then show ?thesis using tv tr by (subst json_elems_eq) (simp add: skip_ws_nonspace)
  next
    case (Cons tv' tvs')
    have "json_elems d (join_with '','' (map fst tvs) @ CHR '']'' # r) = Some (map snd tvs, r)"
    proof (rule Cons.IH)
      show "tvs \<noteq> []" using Cons by simp
    qed (metis Cons.prems(2) list.set_intros(2))
    then show ?thesis using tv tr Cons by (subst json_elems_eq) (simp add: skip_ws_nonspace)
  qed
qed simp

lemma renders_array:
  assumes "d < maxNestingDepth" and "\<And>t v. (t, v) \<in> set tvs \<Longrightarrow> renders (Suc d) t v"
    and "\<And>t v. (t, v) \<in> set tvs \<Longrightarrow> hd t \<noteq> CHR '']''"
  shows "renders d (json_array (map fst tvs)) (JArray (map snd tvs))"
proof -
  let ?body = "join_with '','' (map fst tvs)"
  have "json_value d (CHR ''['' # ?body @ CHR '']'' # r) = Some (JArray (map snd tvs), r)" for r
  proof (cases tvs)
    case Nil
    then show ?thesis using assms(1) by (subst json_value.simps) (simp add: skip_ws_nonspace)
  next
    case (Cons tv tvs')
    obtain t v where tv: "tv = (t, v)" by (cases tv)
    have t: "renders (Suc d) t v" "hd t \<noteq> CHR '']''" using Cons tv assms(2,3) by auto
    then obtain c cs where c: "t = c # cs" "\<not> is_space c" "c \<noteq> CHR '']''"
      by (cases t) (auto simp: renders_def)
    have s: "\<exists>q. skip_ws (?body @ CHR '']'' # r) = c # q"
      using Cons tv c by (cases tvs') (simp_all add: skip_ws_nonspace)
    have "json_elems (Suc d) (?body @ CHR '']'' # r) = Some (map snd tvs, r)"
      by (rule json_elems_join) (use Cons assms(2) in auto)
    then show ?thesis
      using assms(1) s c(3) by (subst json_value.simps) (auto simp: skip_ws_nonspace)
  qed
  then show ?thesis unfolding renders_def json_array_def by simp
qed

section \<open>Decoding into a struct\<close>

text \<open>
  A struct of strings and raw messages. A key is looked up exactly, then without regard to case;
  the long s and the Kelvin sign fold to ASCII letters.
\<close>

datatype field_kind = FString | FRaw | FInt

text \<open>\<open>strconv.ParseInt(s, 10, 64)\<close>, on what a JSON number can be.\<close>

definition parse_int64 :: "string \<Rightarrow> int option" where
  "parse_int64 s =
     (let (neg, ds) = (case s of c # cs \<Rightarrow> if c = CHR ''-'' then (True, cs) else (False, s) | [] \<Rightarrow> (False, [])) in
      if ds = [] then None
      else (case parse_digits 0 ds of
              None \<Rightarrow> None
            | Some n \<Rightarrow> (let i = (if neg then - int n else int n) in if fits_i64 i then Some i else None)))"

fun fold_name :: "string \<Rightarrow> string" where
  "fold_name [] = []"
| "fold_name (c # cs) =
     (if 97 \<le> byte c \<and> byte c \<le> 122 then char_of (byte c - 32) # fold_name cs
      else if take 2 (c # cs) = [CHR 0xC5, CHR 0xBF] then CHR ''S'' # fold_name (drop 1 cs)
      else if take 3 (c # cs) = [CHR 0xE2, CHR 0x84, CHR 0xAA] then CHR ''K'' # fold_name (drop 2 cs)
      else c # fold_name cs)"

definition find_field :: "(string \<times> field_kind) list \<Rightarrow> string \<Rightarrow> (string \<times> field_kind) option" where
  "find_field fields key =
     (case map_of fields key of
        Some k \<Rightarrow> Some (key, k)
      | None \<Rightarrow> find (\<lambda>f. fold_name (fst f) = fold_name key) fields)"

datatype json_error = JsonSyntax | JsonType

text \<open>A \<open>null\<close> leaves a field as it is; a type error is remembered and the rest still decoded.\<close>

definition set_member ::
  "(string \<times> field_kind) list \<Rightarrow> string \<times> string \<times> json \<Rightarrow> (string \<Rightarrow> string) \<times> bool \<Rightarrow> (string \<Rightarrow> string) \<times> bool" where
  "set_member fields m st =
     (case m of (key, raw, v) \<Rightarrow>
       (case find_field fields key of
          None \<Rightarrow> st
        | Some (name, FRaw) \<Rightarrow> ((fst st)(name := raw), snd st)
        | Some (name, FString) \<Rightarrow>
            (case v of
               JString t \<Rightarrow> ((fst st)(name := t), snd st)
             | JNull \<Rightarrow> st
             | _ \<Rightarrow> (fst st, False))
        | Some (name, FInt) \<Rightarrow>
            (case v of
               JNumber t \<Rightarrow> if parse_int64 t = None then (fst st, False) else ((fst st)(name := t), snd st)
             | JNull \<Rightarrow> st
             | _ \<Rightarrow> (fst st, False))))"

definition decode_struct :: "(string \<times> field_kind) list \<Rightarrow> json \<Rightarrow> json_error + (string \<Rightarrow> string)" where
  "decode_struct fields v =
     (case v of
        JObject ms \<Rightarrow>
          (let (values, ok) = fold (set_member fields) ms (\<lambda>_. [], True) in if ok then Inr values else Inl JsonType)
      | JNull \<Rightarrow> Inr (\<lambda>_. [])
      | _ \<Rightarrow> Inl JsonType)"

text \<open>\<open>json.Unmarshal\<close> into a zero struct: the whole text is one value.\<close>

definition json_Unmarshal :: "(string \<times> field_kind) list \<Rightarrow> string \<Rightarrow> json_error + (string \<Rightarrow> string)" where
  "json_Unmarshal fields s =
     (case json_value 0 s of
        None \<Rightarrow> Inl JsonSyntax
      | Some (v, r) \<Rightarrow> if skip_ws r = [] then decode_struct fields v else Inl JsonSyntax)"

text \<open>\<open>json.NewDecoder(r).Decode\<close>: the first value of the text.\<close>

definition json_Decode :: "(string \<times> field_kind) list \<Rightarrow> string \<Rightarrow> json_error + (string \<Rightarrow> string)" where
  "json_Decode fields s =
     (case json_value 0 s of None \<Rightarrow> Inl JsonSyntax | Some (v, r) \<Rightarrow> decode_struct fields v)"

lemma json_Unmarshal_renders: "renders 0 t v \<Longrightarrow> json_Unmarshal fields t = decode_struct fields v"
  using spec [of "\<lambda>r. json_value 0 (t @ r) = Some (v, r)" "[]"]
  by (simp add: renders_def json_Unmarshal_def skip_ws_def)

lemma json_Decode_renders: "renders 0 t v \<Longrightarrow> json_Decode fields (t @ r) = decode_struct fields v"
  by (simp add: renders_def json_Decode_def)

text \<open>A struct of strings, as \<open>json.Marshal\<close> writes it: the names of the fields with their values.\<close>

definition marshal_strings :: "bool \<Rightarrow> (string \<times> string) list \<Rightarrow> string" where
  "marshal_strings html kvs = json_object html (map (\<lambda>(k, v). (k, json_quote html v)) kvs)"

lemma renders_strings:
  assumes "d < maxNestingDepth"
  shows "renders d (marshal_strings html kvs)
     (JObject (map (\<lambda>(k, v). (to_valid k, json_quote html v, JString (to_valid v))) kvs))"
proof -
  have "renders d (json_object html (map (\<lambda>(k, t, v). (k, t)) (map (\<lambda>(k, v). (k, json_quote html v, JString (to_valid v))) kvs)))
      (JObject (map (\<lambda>(k, t, v). (to_valid k, t, v)) (map (\<lambda>(k, v). (k, json_quote html v, JString (to_valid v))) kvs)))"
    by (rule renders_object [OF assms]) (auto simp: renders_string)
  then show ?thesis by (simp add: marshal_strings_def comp_def case_prod_unfold)
qed

lemma renders_null: "renders d ''null'' JNull"
  by (simp add: renders_def json_value.simps skip_ws_def json_scalar_def)
    (simp add: is_space_def byte_def quote_def)

end
