(* ===== verification/WsLogic.thy ===== *)
theory WsLogic
  imports Gateway GoJson
begin

text \<open>
  The logic of a WebSocket node around the gateway (\<open>src/app/iotws/cmd/internal/logic\<close>,
  \<open>.../logic/cron\<close>, \<open>.../handler\<close>, \<open>.../config\<close>): the notice, ping and push entries, the two cron jobs
  that keep Redis in step with the connection table, and the task that moves connections away.

  Parameters: \<open>push\<close> is the device client, \<open>exec\<close> runs a Redis pipeline and gives one status per command
  and its own error. Redis' nil reply is a \<open>LibError NilReply\<close>.
\<close>

section \<open>Notice, ping and push\<close>

text \<open>The UTF-8 bytes of the error text "device not connected".\<close>

definition not_connected_text :: string where
  "not_connected_text = map char_of
     [0xE8, 0xAE, 0xBE, 0xE5, 0xA4, 0x87, 0xE6, 0x9C, 0xAA, 0xE8, 0xBF, 0x9E, 0xE6, 0x8E, 0xA5 :: nat]"

record ws_request =
  wq_ConnId :: string

definition IotPing :: "ws_request \<Rightarrow> gw \<Rightarrow> go_error option" where
  "IotPing req g =
     (case GetconnByConnId (table g) (wq_ConnId req) of
        None \<Rightarrow> Some (TextError not_connected_text)
      | Some _ \<Rightarrow> None)"

text \<open>\<open>IotNotice\<close>: \<open>write\<close> is the error of \<open>WriteMessage\<close> on a socket.\<close>

definition IotNotice :: "(sock \<Rightarrow> string \<Rightarrow> go_error option) \<Rightarrow> string \<Rightarrow> string \<Rightarrow> gw \<Rightarrow> go_error option \<times> gw" where
  "IotNotice write i d g =
     (case GetconnByConnId (table g) i of
        None \<Rightarrow> (Some (TextError not_connected_text), g)
      | Some (GwsConn s) \<Rightarrow> (write s d, emit [WriteMessage s OpcodeText d] g)
      | Some OtherConn \<Rightarrow> (None, g))"

text \<open>The HTTP handlers around the two: a request that does not parse never reaches the logic.\<close>

datatype http_out = ErrorCtx go_error | Ok

definition IotNoticeHandler ::
  "(sock \<Rightarrow> string \<Rightarrow> go_error option) \<Rightarrow> go_error + (string \<times> string) \<Rightarrow> gw \<Rightarrow> http_out \<times> gw" where
  "IotNoticeHandler write parsed g =
     (case parsed of
        Inl err \<Rightarrow> (ErrorCtx err, g)
      | Inr (i, d) \<Rightarrow>
          (case IotNotice write i d g of
             (Some err, g') \<Rightarrow> (ErrorCtx err, g')
           | (None, g') \<Rightarrow> (Ok, g')))"

definition IotPingHandler :: "go_error + ws_request \<Rightarrow> gw \<Rightarrow> http_out" where
  "IotPingHandler parsed g =
     (case parsed of
        Inl err \<Rightarrow> ErrorCtx err
      | Inr req \<Rightarrow> (case IotPing req g of Some err \<Rightarrow> ErrorCtx err | None \<Rightarrow> Ok))"

definition Iotws :: "'w fn \<Rightarrow> 'w fn" where
  "Iotws push connId message w =
     (case push connId message w of
        (Panic p, w') \<Rightarrow> (Panic p, w')
      | (Ret (resp, shouldRespond, Some err), w') \<Rightarrow> (Ret ([], shouldRespond, Some err), w')
      | (Ret (resp, shouldRespond, None), w') \<Rightarrow> (Ret (resp, shouldRespond, None), w'))"

definition GetHealthyInstances :: "(string \<rightharpoonup> string list) \<Rightarrow> string \<Rightarrow> string list" where
  "GetHealthyInstances DeviceServerMap serviceName =
     (case DeviceServerMap serviceName of None \<Rightarrow> [] | Some l \<Rightarrow> l)"

text \<open>The target of the RPC client that \<open>NewServiceContext\<close> settles on.\<close>

definition rpc_target :: "bool \<Rightarrow> string \<Rightarrow> string \<Rightarrow> (string \<Rightarrow> string) \<Rightarrow> string" where
  "rpc_target has_registry model target BuildConfigUrl =
     (if has_registry \<and> model = ''nacos''
      then (if target = [] then BuildConfigUrl ''iotdevice.grpc'' else target)
      else if model = ''instances'' then ''instances://iotdevice.grpc''
      else target)"

text \<open>
  A notice reaches a device exactly through the socket the table holds for its id: the only call made
  is one text frame with the data on that socket, its error is the answer, and an id the table does not
  know is answered with an error without any call.
\<close>

theorem IotNotice_delivers:
  "let (err, g') = IotNotice write i d g in
     table g' = table g \<and> sessions g' = sessions g \<and>
     (case soketMap (table g) i of
        Some (GwsConn s) \<Rightarrow> out g' = out g @ [WriteMessage s OpcodeText d] \<and> err = write s d
      | Some OtherConn \<Rightarrow> g' = g \<and> err = None
      | None \<Rightarrow> g' = g \<and> err = Some (TextError not_connected_text))"
  by (auto simp: IotNotice_def GetconnByConnId_def split: option.splits conn_val.splits)

section \<open>The cron jobs\<close>

text \<open>A Redis command: key, value, time to live.\<close>

type_synonym redis_cmd = "string \<times> string \<times> duration"

fun is_nil_reply :: "go_error \<Rightarrow> bool" where
  "is_nil_reply (LibError NilReply _) = True"
| "is_nil_reply _ = False"

text \<open>The five-second report of the counter, a \<open>SET XX\<close>.\<close>

definition iotsync_cmd :: "string \<Rightarrow> gw \<Rightarrow> redis_cmd" where
  "iotsync_cmd name g =
     (GetWsBalancedPublishCache name, itoa (GetNumber (table g)), 5 * Second)"

definition set_cmds :: "string \<Rightarrow> string list \<Rightarrow> redis_cmd list" where
  "set_cmds service connectionIds = map (\<lambda>i. (GetCacheConn i, service, ConnTime)) connectionIds"

text \<open>The statuses walked with the ids: successes and failures, in order.\<close>

fun split_status :: "(string \<times> go_error option) list \<Rightarrow> string list \<times> string list" where
  "split_status [] = ([], [])"
| "split_status ((i, e) # xs) =
     (let (succ, failed) = split_status xs in
      case e of
        None \<Rightarrow> (i # succ, failed)
      | Some err \<Rightarrow> if is_nil_reply err then (succ, i # failed) else (succ, i # failed))"

definition setIfExistsBatchResult ::
  "(redis_cmd list \<Rightarrow> 'r \<Rightarrow> (go_error option list \<times> go_error option) \<times> 'r) \<Rightarrow> string list \<Rightarrow> string \<Rightarrow> 'r
     \<Rightarrow> (go_error + string list \<times> string list) \<times> 'r" where
  "setIfExistsBatchResult exec connectionIds service r =
     (let ((statuses, err), r') = exec (set_cmds service connectionIds) r in
      case err of
        Some e \<Rightarrow> if is_nil_reply e then (Inr (split_status (zip connectionIds statuses)), r')
                  else (Inl e, r')
      | None \<Rightarrow> (Inr (split_status (zip connectionIds statuses)), r'))"

fun close_failed :: "string list \<Rightarrow> gw \<Rightarrow> gw" where
  "close_failed [] g = g"
| "close_failed (i # is) g =
     (case GetconnByConnId (table g) i of
        None \<Rightarrow> close_failed is g
      | Some (GwsConn s) \<Rightarrow> emit [NetConnClose s] g
      | Some OtherConn \<Rightarrow> close_failed is (g\<lparr>table := Del i (table g)\<rparr>))"

text \<open>\<open>connectionIds\<close> is the order \<open>Range\<close> visits the table's keys in.\<close>

definition conn_Iotsync ::
  "(redis_cmd list \<Rightarrow> 'r \<Rightarrow> (go_error option list \<times> go_error option) \<times> 'r) \<Rightarrow> string list \<Rightarrow> string \<Rightarrow>
     gw \<times> 'r \<Rightarrow> gw \<times> 'r" where
  "conn_Iotsync exec connectionIds service gr =
     (let (res, r') = setIfExistsBatchResult exec connectionIds service (snd gr) in
      case res of
        Inl _ \<Rightarrow> (fst gr, r')
      | Inr (_, failed) \<Rightarrow> (close_failed failed (fst gr), r'))"

lemma split_status_eq:
  "split_status xs = (map fst (filter (\<lambda>x. snd x = None) xs), map fst (filter (\<lambda>x. snd x \<noteq> None) xs))"
  by (induction xs) (auto simp: Let_def split: option.splits)

text \<open>In a table of sockets only, the first id the table still knows decides.\<close>

lemma close_failed_gws:
  assumes "\<And>k v. soketMap (table g) k = Some v \<Longrightarrow> \<exists>s. v = GwsConn s"
  shows "close_failed is g =
     (case first_some (soketMap (table g)) is of
        Some (GwsConn s) \<Rightarrow> emit [NetConnClose s] g
      | _ \<Rightarrow> g)"
proof (induction "is")
  case Nil
  then show ?case by simp
next
  case (Cons i "is")
  show ?case
  proof (cases "soketMap (table g) i")
    case None
    then show ?thesis using Cons by (simp add: GetconnByConnId_def)
  next
    case (Some v)
    then obtain s where "v = GwsConn s" using assms by blast
    then show ?thesis using Some by (simp add: GetconnByConnId_def)
  qed
qed

text \<open>
  The five-minute check closes at most one socket, however many ids have lost their Redis entry: in
  every state the gateway reaches, it keeps the table and, when the pipeline ran, closes exactly the
  socket of the first failed id the table knows - the loop returns there, so the others stay.
\<close>

theorem conn_Iotsync_closes_one:
  assumes "gw_reachable fn w0 (g, w)"
    and "conn_Iotsync exec connectionIds service (g, r) = (g', r')"
    and "exec (set_cmds service connectionIds) r = ((statuses, err), r1)"
  shows "table g' = table g \<and>
     (if err = None \<or> (\<exists>e. err = Some e \<and> is_nil_reply e)
      then out g' = out g @
        (case first_some (soketMap (table g))
             (map fst (filter (\<lambda>x. snd x \<noteq> None) (zip connectionIds statuses))) of
           Some (GwsConn s) \<Rightarrow> [NetConnClose s]
         | _ \<Rightarrow> [])
      else out g' = out g)"
proof -
  have gws: "\<And>k v. soketMap (table g) k = Some v \<Longrightarrow> \<exists>s. v = GwsConn s"
    using gw_inv_def gw_reachable_inv [OF assms(1)] gw_invD by fastforce
  let ?failed = "map fst (filter (\<lambda>x. snd x \<noteq> None) (zip connectionIds statuses))"
  have "g' = (if err = None \<or> (\<exists>e. err = Some e \<and> is_nil_reply e) then close_failed ?failed g else g)"
    using assms(2,3)
    by (cases err) (auto simp: conn_Iotsync_def setIfExistsBatchResult_def split_status_eq
        split: if_splits)
  then show ?thesis
    by (simp add: close_failed_gws [OF gws] split: option.split conn_val.split)
qed

definition two_conns :: gw where
  "two_conns = IotwsHandler ''d2'' (Some 2) (IotwsHandler ''d1'' (Some 1) gw_start)"

lemma two_conns_reachable: "gw_reachable fn w0 (two_conns, w0)"
  unfolding two_conns_def
  by (rule gw_reachable.gw_next [OF one_connection], rule gw_step.connect)
    (simp add: unregistered_def IotwsHandler_def gw_start_def Let_def)

definition all_missing :: "redis_cmd list \<Rightarrow> unit \<Rightarrow> (go_error option list \<times> go_error option) \<times> unit" where
  "all_missing cmds r =
     ((map (\<lambda>_. Some (LibError NilReply ''redis: nil'')) cmds, Some (LibError NilReply ''redis: nil'')), ())"

text \<open>Both devices have lost their entry; only the first one's socket is closed.\<close>

theorem conn_Iotsync_closes_one_witness:
  "\<exists>g'. conn_Iotsync all_missing [''d1'', ''d2''] ''ws'' (two_conns, ()) = (g', ()) \<and>
     table g' = table two_conns \<and> out g' = out two_conns @ [NetConnClose 1] \<and>
     soketMap (table g') ''d2'' = Some (GwsConn 2)"
proof -
  have r: "gw_reachable (\<lambda>_ _ w. (Ret ([], False, None), w)) () (two_conns, ())"
    by (rule two_conns_reachable)
  have t: "soketMap (table two_conns) ''d1'' = Some (GwsConn 1)"
    "soketMap (table two_conns) ''d2'' = Some (GwsConn 2)"
    by (simp_all add: two_conns_def IotwsHandler_def Let_def)
  obtain g' where e: "conn_Iotsync all_missing [''d1'', ''d2''] ''ws'' (two_conns, ()) = (g', ())"
    by (cases "conn_Iotsync all_missing [''d1'', ''d2''] ''ws'' (two_conns, ())") simp
  have x: "all_missing (set_cmds ''ws'' [''d1'', ''d2'']) () =
      (([Some (LibError NilReply ''redis: nil''), Some (LibError NilReply ''redis: nil'')],
        Some (LibError NilReply ''redis: nil'')), ())"
    by (simp add: all_missing_def set_cmds_def)
  from conn_Iotsync_closes_one [OF r e x] t e show ?thesis by simp
qed

section \<open>Moving connections away\<close>

text \<open>
  Doubles. A \<open>float64\<close> that comes from an \<open>int64\<close>, or from the difference of two such, is an integer with
  at most 53 significant bits: \<open>f64\<close> rounds to the nearest one, ties to even. \<open>x / x\<close> is 1, or NaN for 0.
\<close>

fun bit_len :: "nat \<Rightarrow> nat" where
  "bit_len n = (if n = 0 then 0 else Suc (bit_len (n div 2)))"

declare bit_len.simps [simp del]

definition round_even :: "nat \<Rightarrow> nat \<Rightarrow> nat" where
  "round_even n s =
     (let q = n div 2 ^ s; r = n mod 2 ^ s; half = 2 ^ (s - 1) in
      (if r > half \<or> (r = half \<and> odd q) then q + 1 else q) * 2 ^ s)"

definition f64 :: "int \<Rightarrow> int" where
  "f64 x =
     (let n = nat \<bar>x\<bar> in
      if n < 2 ^ 53 then x else sgn x * int (round_even n (bit_len n - 53)))"

definition f64_sub :: "int \<Rightarrow> int \<Rightarrow> int" where
  "f64_sub a b = f64 (a - b)"

lemma f64_exact: "\<bar>x\<bar> < 2 ^ 53 \<Longrightarrow> f64 x = x"
  by (simp add: f64_def nat_less_iff)

text \<open>\<open>percentage < 0.1\<close> for \<open>n - m / m\<close>: the quotient is 1, or NaN, which is not less than anything.\<close>

definition percentage_small :: "int \<Rightarrow> int \<Rightarrow> bool" where
  "percentage_small n m \<longleftrightarrow> f64 m \<noteq> 0 \<and> f64_sub (f64 n) 1 < 1"

text \<open>
  The generated types of the node's messages (\<open>.../types/types.go\<close>); the field \<open>Data\<close> of any type is kept as
  the JSON text it is marshalled to.
\<close>

record ws_balanced =
  wb_Targeted :: string

record ws_response =
  wr_Cmd :: string
  wr_Data :: string

definition ws_balanced_json :: "ws_balanced \<Rightarrow> string" where
  "ws_balanced_json b = marshal_strings True [(''targeted'', wb_Targeted b)]"

definition ws_response_json :: "ws_response \<Rightarrow> string" where
  "ws_response_json r = json_object True [(''cmd'', json_quote True (wr_Cmd r)), (''data'', wr_Data r)]"

definition balanced_message :: "string \<Rightarrow> string" where
  "balanced_message target =
     ws_response_json \<lparr>wr_Cmd = ''balanced'', wr_Data = ws_balanced_json \<lparr>wb_Targeted = target\<rparr>\<rparr>"

datatype task_call = TaskWrite sock string | SetLastat string

text \<open>
  The loop over the sockets: \<open>k\<close> is \<open>severNumber\<close>, \<open>amounts\<close> the amounts still to move. A nil or foreign
  slot is not written to but counts.
\<close>

fun move_loop ::
  "string list \<Rightarrow> conn_val option list \<Rightarrow> nat \<Rightarrow> int list \<Rightarrow> task_call list \<Rightarrow> unit go \<times> task_call list" where
  "move_loop messages [] k amounts calls = (Ret (), calls)"
| "move_loop messages (c # cs) k amounts calls =
     (if length amounts \<le> k then (Panic ''index out of range'', calls)
      else if amounts ! k > 0 then
        (case c of
           Some (GwsConn s) \<Rightarrow>
             if length messages \<le> k then (Panic ''index out of range'', calls)
             else (let amounts' = amounts[k := amounts ! k - 1] in
                   move_loop messages cs (if amounts' ! k = 0 then Suc k else k) amounts'
                     (calls @ [TaskWrite s (messages ! k)]))
         | _ \<Rightarrow>
             (let amounts' = amounts[k := amounts ! k - 1] in
              move_loop messages cs (if amounts' ! k = 0 then Suc k else k) amounts' calls))
      else move_loop messages cs (if amounts ! k = 0 then Suc k else k) amounts calls)"

text \<open>
  \<open>ProcessTask\<close>: \<open>parsed\<close> is the decoded payload, \<open>vs\<close> the visiting order of the table's values, \<open>set_err\<close>
  the error of the final \<open>SET\<close> and \<open>unix\<close> the clock. The sum is an \<open>int64\<close>.
\<close>

definition ProcessTask ::
  "go_error option \<Rightarrow> int \<Rightarrow> go_error + WsBalancedPublish \<Rightarrow> conn_val list \<Rightarrow>
     conn_val connection \<Rightarrow> go_error option go \<times> task_call list" where
  "ProcessTask set_err unix parsed vs c =
     (case parsed of
        Inl err \<Rightarrow> (Ret (Some err), [])
      | Inr pub \<Rightarrow>
          if f64_sub (f64 (GetNumber c)) (f64 (Meanws pub)) < 20 then (Ret None, [])
          else if percentage_small (GetNumber c) (Meanws pub) then (Ret None, [])
          else
            (case GetConnByCount vs (sint (word_of_int (sum_list (ReceiveWsserverAmount pub)) :: i64)) of
               Panic p \<Rightarrow> (Panic p, [])
             | Ret (conns, found) \<Rightarrow>
                 if \<not> found then (Ret None, [])
                 else
                   (case move_loop (map balanced_message (ReceiveWsserver pub)) conns 0
                           (ReceiveWsserverAmount pub) [] of
                      (Panic p, calls) \<Rightarrow> (Panic p, calls)
                    | (Ret _, calls) \<Rightarrow> (Ret set_err, calls @ [SetLastat (itoa unix)]))))"

text \<open>The messages one after another, each as often as its amount says; and the writes to the sockets.\<close>

definition targets :: "string list \<Rightarrow> int list \<Rightarrow> string list" where
  "targets messages amounts = concat (map2 (\<lambda>m a. replicate (nat a) m) messages amounts)"

fun writes :: "conn_val option list \<Rightarrow> string list \<Rightarrow> task_call list" where
  "writes (Some (GwsConn s) # cs) (m # ms) = TaskWrite s m # writes cs ms"
| "writes (c # cs) (m # ms) = writes cs ms"
| "writes _ _ = []"

lemma targets_drop:
  assumes "k < length amounts" and "length messages = length amounts" and "amounts ! k > 0"
    and "a' = amounts ! k - 1"
  shows "targets (drop k messages) (drop k amounts) =
     messages ! k # (if a' = 0 then targets (drop (Suc k) messages) (drop (Suc k) amounts)
       else targets (drop k messages) (drop k (amounts[k := a'])))"
proof -
  have "nat (amounts ! k) = Suc (nat a')" using assms(3,4) by simp
  moreover have "drop k (amounts[k := a']) = a' # drop (Suc k) amounts"
    using assms(1) by (simp add: drop_update_swap Cons_nth_drop_Suc [symmetric])
  moreover have "drop k messages = messages ! k # drop (Suc k) messages"
    "drop k amounts = amounts ! k # drop (Suc k) amounts"
    using assms(1,2) by (simp_all add: Cons_nth_drop_Suc)
  ultimately show ?thesis by (simp add: targets_def)
qed

lemma move_loop_writes:
  assumes "length messages = length amounts"
    and "\<And>j. k \<le> j \<Longrightarrow> j < length amounts \<Longrightarrow> amounts ! j > 0"
    and "int (length cs) = sum_list (drop k amounts)"
    and "Some OtherConn \<notin> set cs"
  shows "move_loop messages cs k amounts calls =
     (Ret (), calls @ writes cs (targets (drop k messages) (drop k amounts)))"
  using assms
proof (induction cs arbitrary: k amounts calls)
  case Nil
  then show ?case by simp
next
  case (Cons c cs)
  have k: "k < length amounts"
  proof (rule ccontr)
    assume "\<not> k < length amounts"
    then show False using Cons.prems(3) by simp
  qed
  have pos: "amounts ! k > 0" using Cons.prems(2) k by simp
  let ?a = "amounts ! k - 1" let ?as = "amounts[k := amounts ! k - 1]"
  let ?k = "if ?a = 0 then Suc k else k"
  have dk: "drop k amounts = amounts ! k # drop (Suc k) amounts"
    using k by (simp add: Cons_nth_drop_Suc)
  have dk': "drop k ?as = ?a # drop (Suc k) amounts"
    using k by (simp add: drop_update_swap Cons_nth_drop_Suc [symmetric])
  have ds: "drop (Suc k) ?as = drop (Suc k) amounts" by simp
  have IH: "move_loop messages cs ?k ?as calls' =
      (Ret (), calls' @ writes cs (targets (drop ?k messages) (drop ?k ?as)))" for calls'
  proof (rule Cons.IH)
    show "length messages = length ?as" using Cons.prems(1) by simp
    show "?as ! j > 0" if "?k \<le> j" "j < length ?as" for j
      using that Cons.prems(2) [of j] pos k by (auto simp: nth_list_update split: if_splits)
    show "int (length cs) = sum_list (drop ?k ?as)"
      using Cons.prems(3) dk dk' ds by (auto split: if_splits)
    show "Some OtherConn \<notin> set cs" using Cons.prems(4) by auto
  qed
  have T: "targets (drop k messages) (drop k amounts) =
      messages ! k # targets (drop ?k messages) (drop ?k ?as)"
    using targets_drop [OF k Cons.prems(1) pos refl] ds by simp
  have upd: "?as ! k = ?a" using k by simp
  show ?case
  proof (cases c)
    case None
    then show ?thesis using k pos IH [of calls] T upd by (simp add: Let_def)
  next
    case (Some v)
    with Cons.prems(4) obtain s where v: "v = GwsConn s" by (cases v) auto
    show ?thesis
      using Some v k pos IH [of "calls @ [TaskWrite s (messages ! k)]"] T upd Cons.prems(1)
      by (simp add: Let_def)
  qed
qed

lemma writes_map_GwsConn:
  "writes (map (Some \<circ> GwsConn) socks @ replicate n None) ms = map2 TaskWrite socks ms"
proof (induction socks arbitrary: ms)
  case Nil
  have "writes (replicate n None) ms = []"
  proof (induction n arbitrary: ms)
    case 0
    then show ?case by simp
  next
    case (Suc n)
    then show ?case by (cases ms) simp_all
  qed
  then show ?case by simp
next
  case (Cons s socks)
  then show ?case by (cases ms) simp_all
qed

lemma ProcessTask_run:
  assumes "f64_sub (f64 (GetNumber c)) (f64 (Meanws pub)) \<ge> 20"
    and "\<not> percentage_small (GetNumber c) (Meanws pub)"
    and "length (ReceiveWsserver pub) = length (ReceiveWsserverAmount pub)"
    and "list_all (\<lambda>a. 0 < a) (ReceiveWsserverAmount pub)"
    and "sum_list (ReceiveWsserverAmount pub) < 2 ^ 63"
  shows "ProcessTask set_err unix (Inr pub) (map GwsConn socks) c =
     (Ret set_err,
      map2 TaskWrite (take (nat (sum_list (ReceiveWsserverAmount pub)) - 1) socks)
        (tl (targets (map balanced_message (ReceiveWsserver pub))
               (ReceiveWsserverAmount pub))) @
      [SetLastat (itoa unix)])"
proof -
  let ?as = "ReceiveWsserverAmount pub" let ?A = "sum_list (ReceiveWsserverAmount pub)"
  let ?ms = "map balanced_message (ReceiveWsserver pub)"
  have A0: "0 \<le> ?A" using assms(4) by (intro sum_list_nonneg) (auto simp: list_all_iff)
  then have wrap: "sint (word_of_int ?A :: i64) = ?A"
    using assms(5) by (intro sint_of_fitting) (simp add: fits_i64_def)
  let ?conns = "if ?A = 0 then []
      else None # map Some (take (nat ?A - 1) (map GwsConn socks)) @ replicate (nat ?A - 1 - length socks) None"
  have conns: "GetConnByCount (map GwsConn socks) ?A = Ret (?conns, True)"
    using A0 by (simp add: GetConnByCount_def GetConnByCount_fills)
  have "move_loop ?ms ?conns 0 ?as [] = (Ret (), [] @ writes ?conns (targets (drop 0 ?ms) (drop 0 ?as)))"
    by (rule move_loop_writes) (use assms(3,4) A0 in \<open>auto simp: list_all_length dest: in_set_takeD\<close>)
  moreover have "writes ?conns (targets ?ms ?as) =
      map2 TaskWrite (take (nat ?A - 1) socks) (tl (targets ?ms ?as))"
  proof (cases "?A = 0")
    case True
    then have "nat ?A - 1 = 0" by simp
    then show ?thesis using True by simp
  next
    case False
    have "map Some (take (nat ?A - 1) (map GwsConn socks)) = map (Some \<circ> GwsConn) (take (nat ?A - 1) socks)"
      by (simp add: take_map)
    then have "?conns = None # (map (Some \<circ> GwsConn) (take (nat ?A - 1) socks) @
        replicate (nat ?A - 1 - length socks) None)"
      using False by simp
    then show ?thesis
      by (cases "targets ?ms ?as") (simp_all only: writes.simps writes_map_GwsConn list.sel, simp)
  qed
  ultimately show ?thesis
    using assms(1,2) conns wrap by (simp add: ProcessTask_def)
qed


definition crowded :: "conn_val connection" where
  "crowded = NewConnection\<lparr>count := 40\<rparr>"


text \<open>
  Up to \<open>2 ^ 52\<close> connections the doubles are exact: a node less than 20 connections above the mean
  ignores the message, and the second guard, meant as a percentage, never holds back a node the first one
  lets through: only the quotient is divided, so it compares the number of connections minus one with 0.1.
\<close>

theorem ProcessTask_guard:
  assumes "0 < Meanws pub" and "Meanws pub < 2 ^ 52" and "\<bar>GetNumber c\<bar> < 2 ^ 52"
  shows "if GetNumber c - Meanws pub < 20
     then ProcessTask set_err unix (Inr pub) vs c = (Ret None, [])
     else \<not> percentage_small (GetNumber c) (Meanws pub)"
  using assms by (simp add: ProcessTask_def percentage_small_def f64_sub_def f64_exact)

theorem ProcessTask_guard_witness:
  "ProcessTask None 7 (Inr \<lparr>Meanws = 30, ReceiveWsserver = [''b''], ReceiveWsserverAmount = [2]\<rparr>)
     [GwsConn 1] crowded = (Ret None, [])"
proof -
  have n: "GetNumber crowded = 40" by (simp add: crowded_def GetNumber_def)
  show ?thesis
    using ProcessTask_guard [where c = crowded and set_err = None and unix = 7
        and vs = "[GwsConn 1]"
        and pub = "\<lparr>Meanws = 30, ReceiveWsserver = [''b''], ReceiveWsserverAmount = [2]\<rparr>"]
    by (simp add: n)
qed

end
