(* ===== verification/NodeSetup.thy ===== *)
theory NodeSetup
  imports WsLogic
begin

text \<open>
  What a WebSocket node is put together from: the settings of its server (\<open>WsConf\<close> of
  \<open>src/app/iotws/cmd/internal/config/config.go\<close>) and the options the upgrader is made with
  (\<open>.../svc/servicecontext.go\<close>), the gateway object before and after its callback is wired, and the
  task multiplexer (\<open>.../handler/cron.go\<close>).
\<close>

section \<open>The options of the upgrader\<close>

record ws_conf =
  wsc_ReadBufferSize :: int
  wsc_WriteBufferSize :: int
  wsc_ReadMaxPayloadSize :: int
  wsc_WriteMaxPayloadSize :: int
  wsc_ParallelEnabled :: bool
  wsc_ParallelGolimit :: int
  wsc_CheckUtf8Enabled :: bool

text \<open>The values of the \<open>default\<close> tags.\<close>

definition default_ws_conf :: ws_conf where
  "default_ws_conf = \<lparr>wsc_ReadBufferSize = 8192, wsc_WriteBufferSize = 8192, wsc_ReadMaxPayloadSize = 8192,
     wsc_WriteMaxPayloadSize = 8192, wsc_ParallelEnabled = True, wsc_ParallelGolimit = 1024,
     wsc_CheckUtf8Enabled = False\<rparr>"

text \<open>
  Go's \<open>recover\<close> stops a panic only in the deferred function itself: \<open>depth\<close> counts the calls between the
  deferred function and the one that calls \<open>recover\<close>.
\<close>

definition recover_at :: "nat \<Rightarrow> string option \<Rightarrow> string option" where
  "recover_at depth panicking = (if depth = 0 then panicking else None)"

text \<open>
  The function given as \<open>Recovery\<close>, which the WebSocket library defers around a handler: the panic before
  it, the panic after it, and what it logs. It calls \<open>recover\<close> in a function literal of its own.
\<close>

definition Recovery :: "string option \<Rightarrow> string option \<times> string list" where
  "Recovery panicking =
     (case recover_at 1 panicking of
        Some r \<Rightarrow> (None, [r])
      | None \<Rightarrow> (panicking, []))"

text \<open>The deferred \<open>Gateway.recover\<close> calls \<open>recover\<close> itself.\<close>

definition gateway_recover :: "sock \<Rightarrow> string option \<Rightarrow> gw \<Rightarrow> string option \<times> gw" where
  "gateway_recover s panicking g =
     (case recover_at 0 panicking of
        Some r \<Rightarrow> (None, recover_panic s r g)
      | None \<Rightarrow> (panicking, g))"

record server_option =
  so_Recovery :: "string option \<Rightarrow> string option \<times> string list"
  so_NewSession :: "string \<rightharpoonup> sval"
  so_ReadBufferSize :: int
  so_WriteBufferSize :: int
  so_ParallelEnabled :: bool
  so_ParallelGolimit :: int
  so_PermessageDeflate :: bool
  so_CheckUtf8Enabled :: bool
  so_ReadMaxPayloadSize :: int
  so_WriteMaxPayloadSize :: int

definition upgrader_option :: "ws_conf \<Rightarrow> server_option" where
  "upgrader_option c =
     \<lparr>so_Recovery = Recovery, so_NewSession = Map.empty,
      so_ReadBufferSize = wsc_ReadBufferSize c, so_WriteBufferSize = wsc_WriteBufferSize c,
      so_ParallelEnabled = wsc_ParallelEnabled c, so_ParallelGolimit = wsc_ParallelGolimit c,
      so_PermessageDeflate = False, so_CheckUtf8Enabled = wsc_CheckUtf8Enabled c,
      so_ReadMaxPayloadSize = wsc_ReadMaxPayloadSize c, so_WriteMaxPayloadSize = wsc_WriteMaxPayloadSize c\<rparr>"

section \<open>The gateway object\<close>

record 'w gateway =
  gt_serverName :: string
  gt_Fn :: "'w fn option"
  gt_gw :: gw

definition NewGatewayr :: "string \<Rightarrow> 'w gateway" where
  "NewGatewayr serverName = \<lparr>gt_serverName = serverName, gt_Fn = None, gt_gw = gw_start\<rparr>"

definition WireWsFn :: "'w fn \<Rightarrow> 'w gateway \<Rightarrow> 'w gateway" where
  "WireWsFn fn t = t\<lparr>gt_Fn := Some fn\<rparr>"

text \<open>Calling the field: a nil function panics.\<close>

definition call_Fn :: "'w gateway \<Rightarrow> 'w fn" where
  "call_Fn t connId message w =
     (case gt_Fn t of Some fn \<Rightarrow> fn connId message w | None \<Rightarrow> (Panic ''nil pointer dereference'', w))"

definition gateway_OnMessage :: "sock \<Rightarrow> opcode \<Rightarrow> string \<Rightarrow> 'w gateway \<times> 'w \<Rightarrow> 'w gateway \<times> 'w" where
  "gateway_OnMessage s op msg = (\<lambda>(t, w).
     let (g, w') = OnMessage (call_Fn t) s op msg (gt_gw t, w) in (t\<lparr>gt_gw := g\<rparr>, w'))"

section \<open>The task multiplexer\<close>

text \<open>\<open>Register\<close>: the patterns and their handlers; nothing in the repository calls it.\<close>

definition Register ::
  "string \<Rightarrow> (string \<times> (go_error option \<Rightarrow> int \<Rightarrow> go_error + WsBalancedPublish \<Rightarrow> conn_val list \<Rightarrow>
     conn_val connection \<Rightarrow> go_error option go \<times> task_call list)) list" where
  "Register name = [(GetWsBalancedPublishCache name, ProcessTask)]"

section \<open>What they do\<close>

text \<open>
  The \<open>Recovery\<close> option recovers nothing: a panic that reaches it goes on, while the one the gateway defers
  itself stops it.
\<close>

lemma Recovery_recovers_nothing:
  "Recovery panicking = (panicking, []) \<and> fst (gateway_recover s panicking g) = None"
  by (cases panicking) (simp_all add: Recovery_def gateway_recover_def recover_at_def)

text \<open>A gateway whose callback is not wired answers every message with the server error and logs it.\<close>

lemma unwired_gateway_answers_error:
  "out (gt_gw (fst (gateway_OnMessage s op msg (NewGatewayr name, w)))) =
     [LogPanic ''nil pointer dereference'', WriteMessage s OpcodeText serverError, MessageClose]"
  by (simp add: gateway_OnMessage_def NewGatewayr_def OnMessage_def OnMessage_after_def OnMessage_new_def
      call_Fn_def recover_panic_def gw_start_def)

lemma wired_gateway_is_OnMessage:
  "gt_gw (fst (gateway_OnMessage s op msg (WireWsFn fn t, w))) = fst (OnMessage fn s op msg (gt_gw t, w)) \<and>
   snd (gateway_OnMessage s op msg (WireWsFn fn t, w)) = snd (OnMessage fn s op msg (gt_gw t, w))"
proof -
  have "call_Fn (WireWsFn fn t) = fn" by (intro ext) (simp add: call_Fn_def WireWsFn_def)
  then show ?thesis by (simp add: gateway_OnMessage_def WireWsFn_def case_prod_beta Let_def)
qed

end
