(* ===== verification/Balance.thy ===== *)
theory Balance
  imports WsLogic
begin

text \<open>
  The balancing job (\<open>src/app/iotcron/cmd/internal/logic/iotwsBalancedlogic.go\<close>, \<open>routes.go\<close>): which
  nodes are too full, which can take connections, and who sends how many where.

  A Go map is an association list in the order one \<open>range\<close> visits it. The loops over \<open>receiveWsserver\<close>
  inside the loop over the full nodes may each use another order, so the order is a function of the full
  node. Connection counts are taken as integers that do not overflow; division truncates towards zero.
\<close>

section \<open>The plan\<close>

definition receivers :: "int \<Rightarrow> int \<Rightarrow> (string \<times> int) list \<Rightarrow> string \<rightharpoonup> int" where
  "receivers meanws offset servers =
     map_of (List.map_filter (\<lambda>(n, t). if t < meanws - offset then Some (n, meanws - t) else None) servers)"

definition disconnects :: "int \<Rightarrow> int \<Rightarrow> (string \<times> int) list \<Rightarrow> string \<rightharpoonup> int" where
  "disconnects meanws offset servers =
     map_of (List.map_filter (\<lambda>(n, t). if t > meanws + offset then Some (n, t - meanws) else None) servers)"

text \<open>
  The inner loop for one full node: the receivers in visiting order, the connections it has to give (\<open>surplus\<close>) and
  what the receivers still take. The receivers whose need is met are set to 0; after the branch for a
  receiver that can take everything, \<open>surplus\<close> is left as it is.
\<close>

fun allocate :: "string list \<Rightarrow> int \<Rightarrow> (string \<Rightarrow> int) \<Rightarrow> string list \<times> int list \<times> (string \<Rightarrow> int)" where
  "allocate [] surplus recv = ([], [], recv)"
| "allocate (r # rs) surplus recv =
     (if recv r = 0 then allocate rs surplus recv
      else if recv r < surplus then
        (let (ns, as, recv') = allocate rs (surplus - recv r) (recv(r := 0)) in (r # ns, recv r # as, recv'))
      else
        (let (ns, as, recv') = allocate rs surplus (recv(r := recv r - surplus)) in (r # ns, surplus # as, recv')))"

text \<open>The outer loop: one plan per full node, the receivers' rest carried along.\<close>

fun plan_all ::
  "(string \<Rightarrow> string list) \<Rightarrow> (string \<times> int) list \<Rightarrow> (string \<Rightarrow> int) \<Rightarrow>
     (string \<times> string list \<times> int list) list \<times> (string \<Rightarrow> int)" where
  "plan_all order [] recv = ([], recv)"
| "plan_all order ((n, surplus) # ds) recv =
     (let (ns, as, recv1) = allocate (order n) surplus recv;
          (plans, recv2) = plan_all order ds recv1
      in ((n, ns, as) # plans, recv2))"

text \<open>
  \<open>IotwsBalanced\<close>: the messages it publishes, each with its channel. \<open>dis_order\<close> is the order the full
  nodes are visited in, \<open>recv_order n\<close> the order of the receivers while \<open>n\<close> is planned, \<open>pub_order\<close> the
  order the plans are published in.
\<close>

definition IotwsBalanced ::
  "(string \<times> int) list \<Rightarrow> int \<Rightarrow> string list \<Rightarrow> (string \<Rightarrow> string list) \<Rightarrow> string list
     \<Rightarrow> (string \<times> WsBalancedPublish) list go" where
  "IotwsBalanced servers totalws dis_order recv_order pub_order =
     (if servers = [] then Panic ''integer divide by zero''
      else
        (let meanws = totalws sdiv int (length servers) in
         if meanws sdiv 5 > 20 then
           (let offset = meanws sdiv 5;
                recv = receivers meanws offset servers;
                dis = disconnects meanws offset servers;
                (plans, _) = plan_all recv_order (map (\<lambda>n. (n, the (dis n))) dis_order)
                               (\<lambda>n. case recv n of None \<Rightarrow> 0 | Some a \<Rightarrow> a)
            in Ret (map (\<lambda>n. (GetWsBalancedPublishCache n,
                      (case the (map_of plans n) of
                         (ns, as) \<Rightarrow> \<lparr>Meanws = meanws, ReceiveWsserver = ns, ReceiveWsserverAmount = as\<rparr>)))
                    pub_order))
         else Ret []))"

section \<open>One full node\<close>

lemma allocate_shape:
  assumes "allocate rs surplus recv = (ns, as, recv')"
  shows "length ns = length as \<and> set ns \<subseteq> set rs \<and> (distinct rs \<longrightarrow> distinct ns) \<and>
     (\<forall>r. r \<notin> set rs \<longrightarrow> recv' r = recv r)"
  using assms
proof (induction rs arbitrary: surplus recv ns as)
  case Nil
  then show ?case by simp
next
  case (Cons r rs)
  consider "recv r = 0" | "recv r \<noteq> 0" "recv r < surplus" | "recv r \<noteq> 0" "\<not> recv r < surplus" by blast
  then show ?case
  proof cases
    case 1
    then show ?thesis using Cons.prems Cons.IH [of surplus recv ns as] by auto
  next
    case 2
    obtain ns1 as1 where A: "allocate rs (surplus - recv r) (recv(r := 0)) = (ns1, as1, recv')"
      and "ns = r # ns1" "as = recv r # as1"
      using Cons.prems 2 by (auto simp: Let_def split: prod.splits)
    with Cons.IH [OF A] show ?thesis by auto
  next
    case 3
    obtain ns1 as1 where A: "allocate rs surplus (recv(r := recv r - surplus)) = (ns1, as1, recv')"
      and "ns = r # ns1" "as = surplus # as1"
      using Cons.prems 3 by (auto simp: Let_def split: prod.splits)
    with Cons.IH [OF A] show ?thesis by auto
  qed
qed

text \<open>What a receiver is given by one plan.\<close>

definition given :: "string \<Rightarrow> string list \<Rightarrow> int list \<Rightarrow> int" where
  "given r ns as = sum_list (map snd (filter (\<lambda>x. fst x = r) (zip ns as)))"

lemma given_simps [simp]:
  "given r [] [] = 0" "given r (n # ns) (a # as) = (if n = r then a else 0) + given r ns as"
  by (simp_all add: given_def)

lemma allocate_conserves:
  assumes "allocate rs surplus recv = (ns, as, recv')" and "distinct rs" and "0 < surplus"
    and "\<forall>r. 0 \<le> recv r"
  shows "(\<forall>r. 0 \<le> recv' r \<and> recv r = recv' r + given r ns as) \<and> list_all (\<lambda>a. 0 < a \<and> a \<le> surplus) as"
  using assms
proof (induction rs arbitrary: surplus recv ns as)
  case Nil
  then show ?case by simp
next
  case (Cons r rs)
  have outside: "given r ns1 as1 = 0" if "allocate rs t f = (ns1, as1, f')" for t f ns1 as1 f'
  proof -
    have "r \<notin> set ns1" using allocate_shape [OF that] Cons.prems(2) by auto
    then have "filter (\<lambda>x. fst x = r) (zip ns1 as1) = []"
      by (auto simp: filter_empty_conv dest: set_zip_leftD)
    then show ?thesis by (simp add: given_def)
  qed
  have pos: "0 \<le> recv r" using Cons.prems(4) by simp
  consider "recv r = 0" | "recv r \<noteq> 0" "recv r < surplus" | "recv r \<noteq> 0" "\<not> recv r < surplus" by blast
  then show ?case
  proof cases
    case 1
    then have A: "allocate rs surplus recv = (ns, as, recv')" using Cons.prems(1) by simp
    have "distinct rs" using Cons.prems(2) by simp
    from Cons.IH [OF A this Cons.prems(3,4)] show ?thesis .
  next
    case 2
    obtain ns1 as1 where A: "allocate rs (surplus - recv r) (recv(r := 0)) = (ns1, as1, recv')"
      and e: "ns = r # ns1" "as = recv r # as1"
      using Cons.prems 2 by (auto simp: Let_def split: prod.splits)
    have H: "(\<forall>q. 0 \<le> recv' q \<and> (recv(r := 0)) q = recv' q + given q ns1 as1) \<and>
        list_all (\<lambda>a. 0 < a \<and> a \<le> surplus - recv r) as1"
      by (rule Cons.IH [OF A]) (use 2 Cons.prems in auto)
    have "recv q = recv' q + given q ns as" for q
      using spec [OF conjunct1 [OF H], of q] outside [OF A] by (cases "q = r") (simp_all add: e)
    moreover have "0 \<le> recv' q" for q using H by blast
    moreover have "list_all (\<lambda>a. 0 < a \<and> a \<le> surplus) as1"
      by (rule list.pred_mono_strong [OF conjunct2 [OF H]]) (use pos in simp)
    then have "list_all (\<lambda>a. 0 < a \<and> a \<le> surplus) as"
      using 2 pos unfolding e list.pred_inject(2) by linarith
    ultimately show ?thesis by blast
  next
    case 3
    obtain ns1 as1 where A: "allocate rs surplus (recv(r := recv r - surplus)) = (ns1, as1, recv')"
      and e: "ns = r # ns1" "as = surplus # as1"
      using Cons.prems 3 by (auto simp: Let_def split: prod.splits)
    have H: "(\<forall>q. 0 \<le> recv' q \<and> (recv(r := recv r - surplus)) q = recv' q + given q ns1 as1) \<and>
        list_all (\<lambda>a. 0 < a \<and> a \<le> surplus) as1"
      by (rule Cons.IH [OF A]) (use 3 Cons.prems in auto)
    have "recv q = recv' q + given q ns as" for q
      using spec [OF conjunct1 [OF H], of q] outside [OF A] by (cases "q = r") (simp_all add: e)
    moreover have "0 \<le> recv' q" for q using H by blast
    moreover have "list_all (\<lambda>a. 0 < a \<and> a \<le> surplus) as"
      using Cons.prems(3) conjunct2 [OF H] unfolding e by simp
    ultimately show ?thesis by blast
  qed
qed

text \<open>When every receiver could take everything, each is asked to.\<close>

lemma allocate_repeats:
  "distinct rs \<Longrightarrow> 0 < surplus \<Longrightarrow> (\<And>r. r \<in> set rs \<Longrightarrow> surplus \<le> recv r) \<Longrightarrow>
     fst (snd (allocate rs surplus recv)) = replicate (length rs) surplus"
proof (induction rs arbitrary: recv)
  case Nil
  then show ?case by simp
next
  case (Cons r rs)
  have "fst (snd (allocate rs surplus (recv(r := recv r - surplus)))) = replicate (length rs) surplus"
    by (rule Cons.IH) (use Cons.prems in auto)
  moreover have "recv r \<noteq> 0" "\<not> recv r < surplus" using Cons.prems(2) Cons.prems(3) [of r] by auto
  ultimately show ?case by (cases "allocate rs surplus (recv(r := recv r - surplus))") simp
qed

section \<open>All full nodes\<close>

definition plan_ok :: "string list \<Rightarrow> int \<Rightarrow> string list \<Rightarrow> int list \<Rightarrow> bool" where
  "plan_ok rs surplus ns as \<longleftrightarrow>
     length ns = length as \<and> set ns \<subseteq> set rs \<and> distinct ns \<and> list_all (\<lambda>a. 0 < a \<and> a \<le> surplus) as"

text \<open>What a receiver is given by several plans.\<close>

definition given_all :: "string \<Rightarrow> (string \<times> string list \<times> int list) list \<Rightarrow> int" where
  "given_all r plans = sum_list (map (\<lambda>(n, ns, as). given r ns as) plans)"

lemma given_all_simps [simp]:
  "given_all r [] = 0" "given_all r ((n, ns, as) # plans) = given r ns as + given_all r plans"
  by (simp_all add: given_all_def)

lemma plan_all_spec:
  assumes "plan_all order ds recv = (plans, recv')"
    and "\<And>n. distinct (order n)" and "\<And>n t. (n, t) \<in> set ds \<Longrightarrow> 0 < t" and "\<forall>r. 0 \<le> recv r"
  shows "map fst plans = map fst ds \<and>
    list_all2 (\<lambda>(n, ns, as) (m, t). plan_ok (order n) t ns as) plans ds \<and>
    (\<forall>r. 0 \<le> recv' r \<and> recv r = recv' r + given_all r plans)"
  using assms(1,3,4)
proof (induction ds arbitrary: recv plans)
  case Nil
  then show ?case by simp
next
  case (Cons d ds)
  obtain n t where d: "d = (n, t)" by (cases d)
  obtain ns as recv1 where A: "allocate (order n) t recv = (ns, as, recv1)"
    by (cases "allocate (order n) t recv")
  obtain plans1 recv2 where P: "plan_all order ds recv1 = (plans1, recv2)"
    by (cases "plan_all order ds recv1")
  have e: "plans = (n, ns, as) # plans1" "recv' = recv2"
    using Cons.prems(1) A P d by simp_all
  have t: "0 < t" using Cons.prems(2) [of n t] d by simp
  note one = allocate_conserves [OF A assms(2) t Cons.prems(3)]
  have "\<forall>r. 0 \<le> recv1 r" using one by blast
  from Cons.IH [OF P [folded e(2)] _ this] Cons.prems(2)
  have IH: "map fst plans1 = map fst ds"
    "list_all2 (\<lambda>(n, ns, as) (m, t). plan_ok (order n) t ns as) plans1 ds"
    "\<forall>r. 0 \<le> recv' r \<and> recv1 r = recv' r + given_all r plans1"
    by auto
  have "plan_ok (order n) t ns as"
    using allocate_shape [OF A] assms(2) one by (simp add: plan_ok_def)
  moreover have "recv r = recv' r + given_all r plans" for r
    using spec [OF conjunct1 [OF one], of r] spec [OF IH(3), of r] e by simp
  moreover have "0 \<le> recv' r" for r using IH(3) by blast
  ultimately show ?case using IH(1,2) e d by simp
qed

definition mean_of :: "(string \<times> int) list \<Rightarrow> int \<Rightarrow> int" where
  "mean_of servers totalws = totalws sdiv int (length servers)"

abbreviation recv_of :: "(string \<times> int) list \<Rightarrow> int \<Rightarrow> string \<rightharpoonup> int" where
  "recv_of servers m \<equiv> receivers m (m sdiv 5) servers"

abbreviation dis_of :: "(string \<times> int) list \<Rightarrow> int \<Rightarrow> string \<rightharpoonup> int" where
  "dis_of servers m \<equiv> disconnects m (m sdiv 5) servers"

lemma map_of_filtered:
  assumes "distinct (map fst xs)"
  shows "map_of (List.map_filter (\<lambda>(n, t). if P t then Some (n, f t) else None) xs) k =
     (case map_of xs k of Some t \<Rightarrow> if P t then Some (f t) else None | None \<Rightarrow> None)"
  using assms
proof (induction xs)
  case Nil
  then show ?case by (simp add: map_filter_simps)
next
  case (Cons x xs)
  obtain n t where x: "x = (n, t)" by (cases x)
  have "map_of xs n = None" using Cons.prems x by (simp add: map_of_eq_None_iff)
  then show ?case using Cons x by (auto simp: map_filter_simps split: option.split)
qed

lemma receivers_lookup:
  "distinct (map fst servers) \<Longrightarrow> receivers m d servers k =
     (case map_of servers k of Some t \<Rightarrow> if t < m - d then Some (m - t) else None | None \<Rightarrow> None)"
  unfolding receivers_def by (rule map_of_filtered)

lemma disconnects_lookup:
  "distinct (map fst servers) \<Longrightarrow> disconnects m d servers k =
     (case map_of servers k of Some t \<Rightarrow> if t > m + d then Some (t - m) else None | None \<Rightarrow> None)"
  unfolding disconnects_def by (rule map_of_filtered)

text \<open>A visit of the nodes: the orders a run of the job may see.\<close>

definition orders_ok ::
  "(string \<times> int) list \<Rightarrow> int \<Rightarrow> string list \<Rightarrow> (string \<Rightarrow> string list) \<Rightarrow> string list \<Rightarrow> bool" where
  "orders_ok servers m dis_order recv_order pub_order \<longleftrightarrow>
     distinct (map fst servers) \<and> visits dis_order (dis_of servers m) \<and>
     (\<forall>n. visits (recv_order n) (recv_of servers m)) \<and> visits pub_order (dis_of servers m)"

definition need :: "(string \<times> int) list \<Rightarrow> int \<Rightarrow> string \<Rightarrow> int" where
  "need servers m r = (case recv_of servers m r of None \<Rightarrow> 0 | Some a \<Rightarrow> a)"

definition as_message :: "int \<Rightarrow> (string \<times> string list \<times> int list) list \<Rightarrow> string \<Rightarrow> string \<times> WsBalancedPublish" where
  "as_message m plans n =
     (GetWsBalancedPublishCache n,
      (case the (map_of plans n) of
         (ns, as) \<Rightarrow> \<lparr>Meanws = m, ReceiveWsserver = ns, ReceiveWsserverAmount = as\<rparr>))"

definition given_msgs :: "string \<Rightarrow> (string \<times> WsBalancedPublish) list \<Rightarrow> int" where
  "given_msgs r msgs =
     sum_list (map (\<lambda>(c, pub). given r (ReceiveWsserver pub) (ReceiveWsserverAmount pub)) msgs)"

definition pub_ok :: "(string \<times> int) list \<Rightarrow> int \<Rightarrow> WsBalancedPublish \<Rightarrow> bool" where
  "pub_ok servers m pub \<longleftrightarrow>
     Meanws pub = m \<and> length (ReceiveWsserver pub) = length (ReceiveWsserverAmount pub) \<and>
     distinct (ReceiveWsserver pub) \<and> set (ReceiveWsserver pub) \<subseteq> dom (recv_of servers m) \<and>
     list_all (\<lambda>a. 0 < a) (ReceiveWsserverAmount pub)"

lemma IotwsBalanced_run:
  assumes "servers \<noteq> []" and "mean_of servers totalws sdiv 5 > 20"
  shows "IotwsBalanced servers totalws dis_order recv_order pub_order =
     Ret (map (as_message (mean_of servers totalws)
       (fst (plan_all recv_order (map (\<lambda>n. (n, the (dis_of servers (mean_of servers totalws) n))) dis_order)
          (need servers (mean_of servers totalws))))) pub_order)"
  using assms
  unfolding IotwsBalanced_def mean_of_def need_def [abs_def] as_message_def [abs_def] Let_def
  by (simp add: case_prod_beta)

lemma plans_of_orders:
  assumes "m sdiv 5 > 20" and "orders_ok servers m dis_order recv_order pub_order"
    and "plan_all recv_order (map (\<lambda>n. (n, the (dis_of servers m n))) dis_order) (need servers m)
           = (plans, rest)"
  shows "map fst plans = dis_order"
    and "\<And>n ns as. (n, ns, as) \<in> set plans \<Longrightarrow>
          plan_ok (recv_order n) (the (dis_of servers m n)) ns as"
    and "\<And>r. 0 \<le> rest r \<and> need servers m r = rest r + given_all r plans"
proof -
  have dist: "distinct (map fst servers)" using assms(2) by (simp add: orders_ok_def)
  have off: "0 < m sdiv 5" using assms(1) by simp
  have pos: "0 < t" if nt: "(n, t) \<in> set (map (\<lambda>n. (n, the (dis_of servers m n))) dis_order)" for n t
  proof -
    have "n \<in> dom (dis_of servers m)" "t = the (dis_of servers m n)"
      using nt assms(2) by (auto simp: orders_ok_def visits_def)
    then show ?thesis
      using off by (auto simp: disconnects_lookup [OF dist] split: option.splits if_splits)
  qed
  have needs: "\<forall>r. 0 \<le> need servers m r"
    using off by (auto simp: need_def receivers_lookup [OF dist] split: option.splits)
  have ord: "\<And>n. distinct (recv_order n)" using assms(2) by (simp add: orders_ok_def visits_def)
  have S: "map fst plans = map fst (map (\<lambda>n. (n, the (dis_of servers m n))) dis_order) \<and>
      list_all2 (\<lambda>(n, ns, as) (m', t). plan_ok (recv_order n) t ns as) plans
        (map (\<lambda>n. (n, the (dis_of servers m n))) dis_order) \<and>
      (\<forall>r. 0 \<le> rest r \<and> need servers m r = rest r + given_all r plans)"
    by (rule plan_all_spec [OF assms(3)]) (use ord pos needs in blast)+
  show f: "map fst plans = dis_order" using S by (simp add: comp_def)
  show "0 \<le> rest r \<and> need servers m r = rest r + given_all r plans" for r using S by blast
  have L: "list_all2 (\<lambda>(n, ns, as) (m', t). plan_ok (recv_order n) t ns as) plans
      (map (\<lambda>n. (n, the (dis_of servers m n))) dis_order)" using S by blast
  show "plan_ok (recv_order n) (the (dis_of servers m n)) ns as" if mem: "(n, ns, as) \<in> set plans" for n ns as
  proof -
    obtain i where i: "i < length plans" "plans ! i = (n, ns, as)"
      using mem by (auto simp: in_set_conv_nth)
    then have "dis_order ! i = n" using f by (metis fst_conv nth_map)
    moreover have "i < length dis_order" using i f by (metis length_map)
    ultimately show ?thesis using list_all2_nthD [OF L i(1)] i by simp
  qed
qed

lemma plans_message:
  assumes "map fst plans = dis_order" and "distinct dis_order" and "n \<in> set dis_order"
  shows "\<exists>ns as. (n, ns, as) \<in> set plans \<and> as_message m plans n =
     (GetWsBalancedPublishCache n, \<lparr>Meanws = m, ReceiveWsserver = ns, ReceiveWsserverAmount = as\<rparr>)"
proof -
  have "n \<in> fst ` set plans" using assms(1,3) by (metis list.set_map)
  then obtain ns as where p: "(n, ns, as) \<in> set plans" by auto
  moreover have "map_of plans n = Some (ns, as)"
    using p assms(1,2) by (intro map_of_is_SomeI) auto
  ultimately show ?thesis by (auto simp: as_message_def)
qed

lemma given_msgs_all:
  assumes "map fst plans = dis_order" and "distinct dis_order" and "distinct pub_order"
    and "set pub_order = set dis_order"
  shows "given_msgs r (map (as_message m plans) pub_order) = given_all r plans"
proof -
  let ?g = "\<lambda>n. case the (map_of plans n) of (ns, as) \<Rightarrow> given r ns as"
  have "given_msgs r (map (as_message m plans) pub_order) = sum_list (map ?g pub_order)"
    by (simp add: given_msgs_def as_message_def comp_def split: prod.split) (rule arg_cong [of _ _ sum_list], simp split: prod.split)
  also have "\<dots> = sum_list (map ?g dis_order)"
    using assms(2-4) by (simp add: sum_list_distinct_conv_sum_set)
  also have "\<dots> = sum_list (map (\<lambda>(n, ns, as). given r ns as) plans)"
  proof -
    have "?g (fst p) = (\<lambda>(n, ns, as). given r ns as) p" if "p \<in> set plans" for p
    proof -
      obtain n ns as where p: "p = (n, ns, as)" by (cases p)
      have "map_of plans n = Some (ns, as)"
        by (rule map_of_is_SomeI) (use that assms(1,2) p in simp_all)
      then show ?thesis using p by simp
    qed
    then have "map (?g \<circ> fst) plans = map (\<lambda>(n, ns, as). given r ns as) plans" by (intro map_cong) auto
    then show ?thesis using assms(1) by (metis map_map)
  qed
  finally show ?thesis by (simp add: given_all_def)
qed

section \<open>What the job publishes\<close>

lemma IotwsBalanced_messages:
  assumes "servers \<noteq> []" and "mean_of servers totalws sdiv 5 > 20"
    and "orders_ok servers (mean_of servers totalws) dis_order recv_order pub_order"
    and "IotwsBalanced servers totalws dis_order recv_order pub_order = Ret msgs"
  shows "map fst msgs = map GetWsBalancedPublishCache pub_order \<and>
     list_all (\<lambda>(c, pub). pub_ok servers (mean_of servers totalws) pub) msgs \<and>
     (\<forall>r. given_msgs r msgs \<le> need servers (mean_of servers totalws) r)"
proof -
  let ?m = "mean_of servers totalws"
  obtain plans rest where P: "plan_all recv_order
      (map (\<lambda>n. (n, the (dis_of servers ?m n))) dis_order) (need servers ?m) = (plans, rest)"
    by fastforce
  have msgs: "msgs = map (as_message ?m plans) pub_order"
    using assms(4) P by (simp add: IotwsBalanced_run [OF assms(1,2)])
  note S = plans_of_orders [OF assms(2,3) P]
  have ord: "distinct dis_order" "distinct pub_order" "set pub_order = set dis_order"
    and recv: "\<And>n. set (recv_order n) = dom (recv_of servers ?m)"
    using assms(3) by (auto simp: orders_ok_def visits_def)
  have "pub_ok servers ?m (snd (as_message ?m plans n))" if n: "n \<in> set pub_order" for n
  proof -
    obtain ns as where p: "(n, ns, as) \<in> set plans" "as_message ?m plans n =
        (GetWsBalancedPublishCache n, \<lparr>Meanws = ?m, ReceiveWsserver = ns, ReceiveWsserverAmount = as\<rparr>)"
      using plans_message [OF S(1) ord(1)] n ord(3) by blast
    then show ?thesis using S(2) [OF p(1)] recv by (auto simp: plan_ok_def pub_ok_def list_all_iff)
  qed
  moreover have "given_msgs r msgs \<le> need servers ?m r" for r
    using S(3) [of r] given_msgs_all [OF S(1) ord] unfolding msgs by simp
  ultimately show ?thesis
    unfolding msgs by (auto simp: list_all_iff as_message_def)
qed

text \<open>
  C30. The plan never asks a node to take more connections than it lacks to the mean, summed over all
  messages, whatever orders the maps are visited in; every message carries the mean, names each receiver
  once, only nodes below the mean by more than a fifth, each with a positive amount.
\<close>

theorem IotwsBalanced_never_overfills:
  assumes "servers \<noteq> []" and "mean_of servers totalws sdiv 5 > 20"
    and "orders_ok servers (mean_of servers totalws) dis_order recv_order pub_order"
    and "IotwsBalanced servers totalws dis_order recv_order pub_order = Ret msgs"
  shows "map fst msgs = map GetWsBalancedPublishCache pub_order \<and>
     list_all (\<lambda>(c, pub). pub_ok servers (mean_of servers totalws) pub) msgs \<and>
     (\<forall>r. given_msgs r msgs \<le> need servers (mean_of servers totalws) r)"
  by (rule IotwsBalanced_messages [OF assms])

definition four_nodes :: "(string \<times> int) list" where
  "four_nodes = [(''a'', 400), (''b'', 400), (''c'', 0), (''d'', 0)]"

lemma four_nodes_mean: "mean_of four_nodes 800 = 200" "mean_of four_nodes 800 sdiv 5 = 40"
  by (simp_all add: mean_of_def four_nodes_def)

lemma four_nodes_maps:
  "receivers 200 40 four_nodes = [''c'' \<mapsto> 200, ''d'' \<mapsto> 200]"
  "disconnects 200 40 four_nodes = [''a'' \<mapsto> 200, ''b'' \<mapsto> 200]"
  by (auto simp: receivers_def disconnects_def four_nodes_def map_filter_simps)

lemma four_nodes_orders: "orders_ok four_nodes 200 [''a'', ''b''] (\<lambda>_. [''c'', ''d'']) [''a'', ''b'']"
  by (auto simp: orders_ok_def four_nodes_maps visits_def) (simp add: four_nodes_def)

lemma four_nodes_result:
  "IotwsBalanced four_nodes 800 [''a'', ''b''] (\<lambda>_. [''c'', ''d'']) [''a'', ''b''] =
   Ret [(GetWsBalancedPublishCache ''a'',
           \<lparr>Meanws = 200, ReceiveWsserver = [''c'', ''d''], ReceiveWsserverAmount = [200, 200]\<rparr>),
        (GetWsBalancedPublishCache ''b'',
           \<lparr>Meanws = 200, ReceiveWsserver = [], ReceiveWsserverAmount = []\<rparr>)]"
  by code_simp

theorem IotwsBalanced_never_overfills_witness:
  "\<exists>msgs. IotwsBalanced four_nodes 800 [''a'', ''b''] (\<lambda>_. [''c'', ''d'']) [''a'', ''b''] = Ret msgs \<and>
     length msgs = 2 \<and> given_msgs ''c'' msgs \<le> 200"
proof -
  have "four_nodes \<noteq> []" by (simp add: four_nodes_def)
  from IotwsBalanced_never_overfills [OF this _ _ four_nodes_result] four_nodes_orders
  have "given_msgs ''c'' [(GetWsBalancedPublishCache ''a'',
           \<lparr>Meanws = 200, ReceiveWsserver = [''c'', ''d''], ReceiveWsserverAmount = [200, 200]\<rparr>),
        (GetWsBalancedPublishCache ''b'',
           \<lparr>Meanws = 200, ReceiveWsserver = [], ReceiveWsserverAmount = []\<rparr>)] \<le> need four_nodes 200 ''c''"
    by (simp add: four_nodes_mean)
  then show ?thesis using four_nodes_result by (simp add: need_def four_nodes_maps)
qed

text \<open>
  The plan gives the same surplus away more than once: the node planned first, when each of the \<open>k\<close>
  receivers could take its whole surplus, is told to move the whole surplus to every one of them, \<open>k\<close>
  times what it has above the mean.
\<close>

theorem IotwsBalanced_repeats_surplus:
  assumes "servers \<noteq> []" and "mean_of servers totalws sdiv 5 > 20"
    and "orders_ok servers (mean_of servers totalws) (n # dis_order) recv_order (n # pub_order)"
    and "dis_of servers (mean_of servers totalws) n = Some surplus"
    and "\<And>r. r \<in> set (recv_order n) \<Longrightarrow> surplus \<le> need servers (mean_of servers totalws) r"
    and "IotwsBalanced servers totalws (n # dis_order) recv_order (n # pub_order) = Ret msgs"
  shows "ReceiveWsserverAmount (snd (hd msgs)) = replicate (length (recv_order n)) surplus \<and>
     sum_list (ReceiveWsserverAmount (snd (hd msgs))) = int (length (recv_order n)) * surplus"
proof -
  let ?m = "mean_of servers totalws"
  have dist: "distinct (map fst servers)" using assms(3) by (simp add: orders_ok_def)
  have pos: "0 < surplus"
    using assms(2,4) by (auto simp: disconnects_lookup [OF dist] split: option.splits if_splits)
  obtain ns as r1 where A: "allocate (recv_order n) surplus (need servers ?m) = (ns, as, r1)"
    by (cases "allocate (recv_order n) surplus (need servers ?m)")
  have "distinct (recv_order n)" using assms(3) by (simp add: orders_ok_def visits_def)
  then have as: "as = replicate (length (recv_order n)) surplus"
    using allocate_repeats [of "recv_order n" surplus "need servers ?m"] pos assms(5) A by simp
  have "snd (hd msgs) = \<lparr>Meanws = ?m, ReceiveWsserver = ns, ReceiveWsserverAmount = as\<rparr>"
    using assms(6) A assms(4)
    by (auto simp: IotwsBalanced_run [OF assms(1,2)] as_message_def split: prod.split)
  then show ?thesis using as by (simp add: sum_list_replicate)
qed

text \<open>Node "a" is 200 above the mean and is told to move 400 connections, all it has.\<close>

theorem IotwsBalanced_repeats_surplus_witness:
  "\<exists>msgs. IotwsBalanced four_nodes 800 [''a'', ''b''] (\<lambda>_. [''c'', ''d'']) [''a'', ''b''] = Ret msgs \<and>
     sum_list (ReceiveWsserverAmount (snd (hd msgs))) = 2 * 200"
proof -
  have ne: "four_nodes \<noteq> []" by (simp add: four_nodes_def)
  have "sum_list (ReceiveWsserverAmount (snd (hd
     [(GetWsBalancedPublishCache ''a'',
           \<lparr>Meanws = 200, ReceiveWsserver = [''c'', ''d''], ReceiveWsserverAmount = [200, 200]\<rparr>),
        (GetWsBalancedPublishCache ''b'',
           \<lparr>Meanws = 200, ReceiveWsserver = [], ReceiveWsserverAmount = []\<rparr>)]))) =
     int (length [''c'', ''d'']) * 200"
    by (rule conjunct2 [OF IotwsBalanced_repeats_surplus [OF ne _ _ _ _ four_nodes_result]])
      (use four_nodes_orders in \<open>auto simp: four_nodes_mean four_nodes_maps need_def\<close>)
  then show ?thesis using four_nodes_result by simp
qed



section \<open>The job itself\<close>

text \<open>
  \<open>TryBalance\<close>: \<open>lastat\<close> is the time of the last move as Redis has it (seconds), \<open>now\<close> the clock in
  nanoseconds, \<open>keys\<close> and \<open>getdel\<close> the two commands' answers. The result is the commands issued, the map and
  its total - which the code drops: it never calls \<open>IotwsBalanced\<close>. A counter that cannot be read is
  entered as 0.
\<close>

datatype bal_cmd = CmdGet string | CmdKeys string | CmdGetDel string

fun collect ::
  "(string \<Rightarrow> go_error + int) \<Rightarrow> string list \<Rightarrow> (string \<rightharpoonup> int) \<Rightarrow> int \<Rightarrow> bal_cmd list \<times> (string \<rightharpoonup> int) \<times> int" where
  "collect getdel [] m totalws = ([], m, totalws)"
| "collect getdel (k # ks) m totalws =
     (let (v, added) = (case getdel k of Inl err \<Rightarrow> (0, 0) | Inr n \<Rightarrow> (n, n));
          (cmds, m', total') = collect getdel ks (m(k \<mapsto> v)) (totalws + added)
      in (CmdGetDel k # cmds, m', total'))"

definition TryBalance ::
  "go_error + int \<Rightarrow> int \<Rightarrow> (string \<Rightarrow> go_error + string list) \<Rightarrow> (string \<Rightarrow> go_error + int)
     \<Rightarrow> bal_cmd list \<times> (string \<rightharpoonup> int) \<times> int" where
  "TryBalance lastat now keys getdel =
     (case lastat of
        Inl err \<Rightarrow> ([CmdGet GetCacheWsBalancedLastat], Map.empty, 0)
      | Inr timeUnix \<Rightarrow>
          if timeUnix * Second + Minute * 5 > now then ([CmdGet GetCacheWsBalancedLastat], Map.empty, 0)
          else
            (let pattern = GetWsBalancedPublishCache [] in
             case keys pattern of
               Inl err \<Rightarrow> ([CmdGet GetCacheWsBalancedLastat, CmdKeys pattern], Map.empty, 0)
             | Inr ks \<Rightarrow>
                 (let (cmds, m, totalws) = collect getdel ks Map.empty 0
                  in ([CmdGet GetCacheWsBalancedLastat, CmdKeys pattern] @ cmds, m, totalws))))"

lemma collect_cmds: "fst (collect getdel ks m totalws) = map CmdGetDel ks"
  by (induction ks arbitrary: m totalws) (simp_all add: Let_def case_prod_beta)

text \<open>
  The job reads no node's counter: its \<open>KEYS\<close> pattern is the bare prefix, and a pattern without a
  wild card matches only the key that is equal to it, so no command it issues names a node's key.
\<close>

theorem TryBalance_reads_no_node:
  assumes "\<And>ks. keys (GetWsBalancedPublishCache []) = Inr ks \<Longrightarrow> set ks \<subseteq> {GetWsBalancedPublishCache []}"
    and "name \<noteq> []"
  shows "CmdGetDel (GetWsBalancedPublishCache name) \<notin> set (fst (TryBalance lastat now keys getdel))"
proof
  assume "CmdGetDel (GetWsBalancedPublishCache name) \<in> set (fst (TryBalance lastat now keys getdel))"
  then obtain ks where k: "keys (GetWsBalancedPublishCache []) = Inr ks"
    and m: "CmdGetDel (GetWsBalancedPublishCache name) \<in> set (fst (collect getdel ks Map.empty 0))"
    by (auto simp: TryBalance_def Let_def split: sum.splits if_splits prod.splits)
  then show False using assms(1) [OF k] assms(2) by (auto simp: collect_cmds)
qed

theorem TryBalance_reads_no_node_witness:
  "CmdGetDel (GetWsBalancedPublishCache ''ws1'') \<notin>
     set (fst (TryBalance (Inr 0) (10 * Minute) (\<lambda>p. Inr [p]) (\<lambda>_. Inr 5)))"
  by (rule TryBalance_reads_no_node) simp_all

end
