(* ===== verification/DeviceHttp.thy ===== *)
theory DeviceHttp
  imports GoError
begin

text \<open>
  The HTTP transport to the device service (\<open>src/pkg/devicecli/httpc/httpClient.go\<close>): the round-robin
  balancer and the failover loop over the instances.

  The network is a parameter: \<open>client_do\<close> takes a request and the world and says which response and which
  error came back and how many bytes of the body were read; \<open>new_request\<close> is the error of building a
  request for a URL. The request body is one \<open>bytes.Buffer\<close> shared by all attempts, so what an attempt
  reads is gone for the next one.
\<close>

section \<open>Round robin\<close>

definition Pick :: "string list \<Rightarrow> i64 \<Rightarrow> string go \<times> i64" where
  "Pick instances counter =
     (if instances = [] then (Ret [], counter)
      else (let idx = sint counter smod int (length instances)
            in (go_index instances idx, counter + 1)))"

lemma Pick_nonneg:
  assumes "instances \<noteq> []" and "0 \<le> sint counter"
  shows "Pick instances counter =
     (Ret (instances ! nat (sint counter mod int (length instances))), counter + 1)"
proof -
  have "sint counter smod int (length instances) = sint counter mod int (length instances)"
    using assms(2) by (simp add: signed_modulo_int_def signed_divide_int_def sgn_if minus_div_mult_eq_mod)
  moreover have "sint counter mod int (length instances) < int (length instances)"
    using assms(1) by (intro pos_mod_bound) simp
  ultimately show ?thesis
    using assms by (simp add: Pick_def go_index_def Let_def)
qed

text \<open>\<open>n\<close> picks in a row, while the counter stays an \<open>int64\<close> that has not wrapped.\<close>

fun picks :: "nat \<Rightarrow> string list \<Rightarrow> i64 \<Rightarrow> string go list" where
  "picks 0 instances counter = []"
| "picks (Suc n) instances counter =
     (let (r, counter') = Pick instances counter in r # picks n instances counter')"

lemma sint_inc: "0 \<le> x \<Longrightarrow> x + 1 < 2 ^ 63 \<Longrightarrow> sint (w :: i64) = x \<Longrightarrow> sint (w + 1) = x + 1"
proof -
  assume x: "0 \<le> x" "x + 1 < 2 ^ 63" and w: "sint w = x"
  have "w = word_of_int x" using w [symmetric] by simp
  then have "w + 1 = word_of_int (x + 1)" by simp
  moreover have "fits_i64 (x + 1)" using x by (simp add: fits_i64_def)
  ultimately show ?thesis using sint_of_fitting by metis
qed

lemma picks_nth:
  assumes "instances \<noteq> []" and "sint counter = int c" and "int c + int n < 2 ^ 63"
  shows "picks n instances counter =
     map (\<lambda>i. Ret (instances ! ((c + i) mod length instances))) [0..<n]"
  using assms(2,3)
proof (induction n arbitrary: counter c)
  case 0
  then show ?case by simp
next
  case (Suc n)
  have P: "Pick instances counter = (Ret (instances ! (c mod length instances)), counter + 1)"
    using Pick_nonneg [OF assms(1), of counter] Suc.prems by (simp add: nat_mod_distrib)
  have "sint (counter + 1) = int (Suc c)"
    using sint_inc [of "int c" counter] Suc.prems by simp
  then have "picks n instances (counter + 1) =
      map (\<lambda>i. Ret (instances ! ((Suc c + i) mod length instances))) [0..<n]"
    using Suc.prems by (intro Suc.IH) simp_all
  then show ?case
    using P by (simp add: Let_def upt_conv_Cons map_Suc_upt [symmetric] del: upt_Suc)
qed

section \<open>Requests\<close>

record http_req =
  url :: string
  headers :: "string \<rightharpoonup> string"
  body :: string

record http_resp =
  StatusCode :: int
  resp_body :: string
  read_error :: "go_error option"

text \<open>
  What one call of \<open>client.Do\<close> gives: the response if any, the error if any, and the number of bytes of
  the request body the transport read.
\<close>

record do_outcome =
  do_resp :: "http_resp option"
  do_err :: "go_error option"
  consumed :: nat

record http_cli =
  serviceName :: string
  counter :: i64

definition retryCount :: nat where "retryCount = 3"
definition defaultDeviceServiceName :: string where "defaultDeviceServiceName = ''iotdevice_api''"

text \<open>The limits of the HTTP client; times are in nanoseconds.\<close>

record http_limits =
  hl_Timeout :: int
  hl_MaxIdleConns :: int
  hl_MaxIdleConnsPerHost :: int
  hl_MaxConnsPerHost :: int
  hl_IdleConnTimeout :: int
  hl_retryInterval :: int

definition http_client_limits :: http_limits where
  "http_client_limits = \<lparr>hl_Timeout = 3 * 1000000000, hl_MaxIdleConns = 100, hl_MaxIdleConnsPerHost = 100,
     hl_MaxConnsPerHost = 200, hl_IdleConnTimeout = 90 * 1000000000, hl_retryInterval = 1000000000\<rparr>"

text \<open>
  The constructor: the client, and the look-up of the instances, which is \<open>lookup\<close> at a fixed name.
\<close>

definition http_NewDeviceCli :: "string \<Rightarrow> (string \<Rightarrow> string list) \<Rightarrow> http_cli \<times> string list" where
  "http_NewDeviceCli service lookup = (\<lparr>serviceName = service, counter = 0\<rparr>, lookup defaultDeviceServiceName)"

definition http_Information :: "http_cli \<Rightarrow> string" where
  "http_Information d = ''deviceHttpCli''"

definition http_Close :: "http_cli \<Rightarrow> go_error option" where
  "http_Close d = None"

text \<open>The two error texts of the source, as UTF-8 bytes.\<close>

definition err_no_instance :: go_error where
  "err_no_instance = TextError (map char_of
     [0xE6, 0x97, 0xA0, 0xE5, 0x8F, 0xAF, 0xE7, 0x94, 0xA8, 0xE6, 0x9C, 0x8D, 0xE5, 0x8A, 0xA1,
      0xE5, 0xAE, 0x9E, 0xE4, 0xBE, 0x8B :: nat])"

definition err_all_failed :: go_error where
  "err_all_failed = TextError (map char_of
     [0xE6, 0x89, 0x80, 0xE6, 0x9C, 0x89, 0xE5, 0xAE, 0x9E, 0xE4, 0xBE, 0x8B, 0xE8, 0xAF, 0xB7,
      0xE6, 0xB1, 0x82, 0xE5, 0x9D, 0x87, 0xE5, 0xA4, 0xB1, 0xE8, 0xB4, 0xA5 :: nat])"

definition request_headers :: "string \<Rightarrow> string \<Rightarrow> string \<rightharpoonup> string" where
  "request_headers service connId =
     [''Content-Type'' \<mapsto> ''application/json'', ''ServiceName'' \<mapsto> service, ''ConnId'' \<mapsto> connId]"

section \<open>The failover loop\<close>

text \<open>
  The loop's state: the instances already tried, the rest of the buffer, the counter, the world and the
  requests sent so far. \<open>k\<close> is the number of rounds left.
\<close>

record 'w http_loop =
  tried :: "string set"
  buf :: string
  cnt :: i64
  world :: 'w
  sent :: "http_req list"

definition succeeded :: "do_outcome \<Rightarrow> http_resp option" where
  "succeeded oc =
     (case (do_err oc, do_resp oc) of
        (None, Some r) \<Rightarrow> if StatusCode r < 500 then Some r else None
      | _ \<Rightarrow> None)"

text \<open>\<open>fmt.Sprintf("http://%s%s", addr, path)\<close>.\<close>

definition instance_url :: "string \<Rightarrow> string \<Rightarrow> string" where
  "instance_url addr path = ''http://'' @ addr @ path"

text \<open>One round of the loop: it returns, or goes on with a next state.\<close>

datatype 'w round = Return "(go_error + http_resp) go" "'w http_loop" | Continue "'w http_loop"

definition http_round ::
  "(string \<Rightarrow> go_error option) \<Rightarrow> (http_req \<Rightarrow> 'w \<Rightarrow> do_outcome \<times> 'w) \<Rightarrow> string list \<Rightarrow> string
     \<Rightarrow> (string \<rightharpoonup> string) \<Rightarrow> 'w http_loop \<Rightarrow> 'w round" where
  "http_round new_request client_do instances path hdrs st =
     (case Pick instances (cnt st) of
        (Panic p, c) \<Rightarrow> Return (Panic p) (st\<lparr>cnt := c\<rparr>)
      | (Ret addr, c) \<Rightarrow>
          if addr \<in> tried st then Continue (st\<lparr>cnt := c\<rparr>)
          else
            (let st1 = st\<lparr>cnt := c, tried := insert addr (tried st)\<rparr>;
                 u = instance_url addr path in
             (case new_request u of
                Some err \<Rightarrow> Continue st1
              | None \<Rightarrow>
                  (let req = \<lparr>url = u, headers = hdrs, body = buf st1\<rparr>;
                       (res, w') = client_do req (world st1);
                       st2 = st1\<lparr>world := w', sent := sent st1 @ [req],
                                 buf := drop (consumed res) (buf st1)\<rparr> in
                   (case succeeded res of
                      Some resp \<Rightarrow> Return (Ret (Inr resp)) st2
                    | None \<Rightarrow> Continue st2)))))"

fun http_do_loop ::
  "(string \<Rightarrow> go_error option) \<Rightarrow> (http_req \<Rightarrow> 'w \<Rightarrow> do_outcome \<times> 'w) \<Rightarrow> string list \<Rightarrow> string
     \<Rightarrow> (string \<rightharpoonup> string) \<Rightarrow> nat \<Rightarrow> 'w http_loop \<Rightarrow> (go_error + http_resp) go \<times> 'w http_loop" where
  "http_do_loop new_request client_do instances path hdrs 0 st = (Ret (Inl err_all_failed), st)"
| "http_do_loop new_request client_do instances path hdrs (Suc k) st =
     (case http_round new_request client_do instances path hdrs st of
        Return r st' \<Rightarrow> (r, st')
      | Continue st' \<Rightarrow> http_do_loop new_request client_do instances path hdrs k st')"

definition http_do ::
  "(string \<Rightarrow> go_error option) \<Rightarrow> (http_req \<Rightarrow> 'w \<Rightarrow> do_outcome \<times> 'w) \<Rightarrow> string list \<Rightarrow> http_cli
     \<Rightarrow> string \<Rightarrow> string \<Rightarrow> string \<Rightarrow> 'w \<Rightarrow> (go_error + http_resp) go \<times> 'w http_loop" where
  "http_do new_request client_do instances d path connId message w =
     (let st = \<lparr>tried = {}, buf = message, cnt = counter d, world = w, sent = []\<rparr> in
      if instances = [] then (Ret (Inl err_no_instance), st)
      else http_do_loop new_request client_do instances path
             (request_headers (serviceName d) connId) retryCount st)"

text \<open>
  \<open>Push\<close>: response bytes, \<open>shouldRespond\<close> (always true) and error. A panic of the balancer goes through.
\<close>

definition http_Push ::
  "(string \<Rightarrow> go_error option) \<Rightarrow> (http_req \<Rightarrow> 'w \<Rightarrow> do_outcome \<times> 'w) \<Rightarrow> string list \<Rightarrow> http_cli
     \<Rightarrow> string \<Rightarrow> string \<Rightarrow> 'w \<Rightarrow> (string \<times> bool \<times> go_error option) go \<times> 'w http_loop" where
  "http_Push new_request client_do instances d connId message w =
     (case http_do new_request client_do instances d ''/device/connect'' connId message w of
        (Panic p, st) \<Rightarrow> (Panic p, st)
      | (Ret (Inl err), st) \<Rightarrow> (Ret ([], True, Some err), st)
      | (Ret (Inr resp), st) \<Rightarrow> (Ret (resp_body resp, True, read_error resp), st))"

section \<open>The loop's invariants\<close>

text \<open>The state after an attempt on \<open>addr\<close>, and the cases of one round.\<close>

abbreviation attempt_req :: "string \<Rightarrow> (string \<rightharpoonup> string) \<Rightarrow> string \<Rightarrow> 'w http_loop \<Rightarrow> http_req" where
  "attempt_req path hdrs addr st \<equiv> \<lparr>url = instance_url addr path, headers = hdrs, body = buf st\<rparr>"

definition after_attempt ::
  "string \<Rightarrow> (string \<rightharpoonup> string) \<Rightarrow> string \<Rightarrow> i64 \<Rightarrow> do_outcome \<Rightarrow> 'w \<Rightarrow> 'w http_loop \<Rightarrow> 'w http_loop" where
  "after_attempt path hdrs addr c res w' st =
     st\<lparr>cnt := c, tried := insert addr (tried st), world := w',
        sent := sent st @ [attempt_req path hdrs addr st], buf := drop (consumed res) (buf st)\<rparr>"

lemma Pick_mem: "instances \<noteq> [] \<Longrightarrow> Pick instances c = (Ret a, c') \<Longrightarrow> a \<in> set instances"
  by (auto simp: Pick_def go_index_def Let_def split: if_splits)

lemma http_round_cases:
  assumes "instances \<noteq> []"
  obtains (panics) p c where "http_round nr cd instances path hdrs st = Return (Panic p) (st\<lparr>cnt := c\<rparr>)"
  | (skips) c T where "http_round nr cd instances path hdrs st = Continue (st\<lparr>cnt := c, tried := T\<rparr>)"
      "tried st \<subseteq> T" "T \<subseteq> tried st \<union> set instances"
  | (attempts) addr c res w' where "addr \<in> set instances" "addr \<notin> tried st"
      "cd (attempt_req path hdrs addr st) (world st) = (res, w')"
      "http_round nr cd instances path hdrs st =
         (case succeeded res of
            Some resp \<Rightarrow> Return (Ret (Inr resp)) (after_attempt path hdrs addr c res w' st)
          | None \<Rightarrow> Continue (after_attempt path hdrs addr c res w' st))"
proof -
  obtain a c where P: "Pick instances (cnt st) = (a, c)" by (cases "Pick instances (cnt st)")
  show ?thesis
  proof (cases a)
    case (Panic p)
    then show ?thesis using P panics by (simp add: http_round_def)
  next
    case (Ret addr)
    have mem: "addr \<in> set instances" using Pick_mem [OF assms] P Ret by blast
    consider "addr \<in> tried st" | "addr \<notin> tried st" "nr (instance_url addr path) \<noteq> None"
      | "addr \<notin> tried st" "nr (instance_url addr path) = None" by blast
    then show ?thesis
    proof cases
      case 1
      then show ?thesis using P Ret skips [where c = c and T = "tried st"] by (simp add: http_round_def)
    next
      case 2
      then show ?thesis using P Ret mem skips [where c = c and T = "insert addr (tried st)"]
        by (fastforce simp: http_round_def Let_def)
    next
      case 3
      obtain res w' where D: "cd (attempt_req path hdrs addr st) (world st) = (res, w')"
        by (cases "cd (attempt_req path hdrs addr st) (world st)")
      then show ?thesis using P Ret 3 attempts [OF mem 3(1) D, where c = c]
        by (simp add: http_round_def after_attempt_def Let_def split: option.split)
    qed
  qed
qed

text \<open>
  Where the sent requests went: to distinct instances among those tried, each at the given path, with the
  given headers, and each with a body that is what the attempts before it left.
\<close>

definition sent_ok :: "string list \<Rightarrow> string \<Rightarrow> (string \<rightharpoonup> string) \<Rightarrow> string \<Rightarrow> 'w http_loop \<Rightarrow> bool" where
  "sent_ok instances path hdrs message st \<longleftrightarrow>
     (\<exists>addrs. map url (sent st) = map (\<lambda>a. instance_url a path) addrs \<and> distinct addrs \<and>
        set addrs \<subseteq> tried st) \<and>
     tried st \<subseteq> set instances \<and>
     list_all (\<lambda>r. headers r = hdrs \<and> suffix (body r) message) (sent st) \<and> suffix (buf st) message"

lemma suffix_drop_trans: "suffix s t \<Longrightarrow> suffix (drop n s) t"
  using suffix_drop suffix_order.trans by blast

lemma sent_ok_attempt:
  assumes "sent_ok instances path hdrs message st" and "addr \<in> set instances" and "addr \<notin> tried st"
  shows "sent_ok instances path hdrs message (after_attempt path hdrs addr c res w' st)"
proof -
  obtain addrs where "map url (sent st) = map (\<lambda>a. instance_url a path) addrs" "distinct addrs"
    "set addrs \<subseteq> tried st"
    using assms(1) by (auto simp: sent_ok_def)
  then have "\<exists>as. map url (sent st @ [attempt_req path hdrs addr st]) =
      map (\<lambda>a. instance_url a path) as \<and> distinct as \<and> set as \<subseteq> insert addr (tried st)"
    using assms(3) by (intro exI [of _ "addrs @ [addr]"]) auto
  then show ?thesis
    using assms(1,2) by (simp add: sent_ok_def after_attempt_def suffix_drop_trans)
qed

lemma sent_ok_skip:
  "sent_ok instances path hdrs message st \<Longrightarrow> tried st \<subseteq> T \<Longrightarrow> T \<subseteq> tried st \<union> set instances \<Longrightarrow>
     sent_ok instances path hdrs message (st\<lparr>cnt := c, tried := T\<rparr>)"
  by (fastforce simp: sent_ok_def)

lemma length_sent_attempt [simp]:
  "length (sent (after_attempt path hdrs addr c res w' st)) = Suc (length (sent st))"
  by (simp add: after_attempt_def)

lemma http_do_loop_sent:
  assumes "http_do_loop nr cd instances path hdrs k st = (r, st')"
    and "sent_ok instances path hdrs message st" and ne: "instances \<noteq> []"
  shows "sent_ok instances path hdrs message st' \<and> length (sent st') \<le> length (sent st) + k"
  using assms(1,2)
proof (induction k arbitrary: st)
  case 0
  then show ?case by simp
next
  case (Suc k)
  show ?case
  proof (cases nr cd path hdrs st rule: http_round_cases [OF ne])
    case (1 p c)
    then show ?thesis using Suc.prems by (auto simp: sent_ok_def)
  next
    case (2 c T)
    then show ?thesis using Suc.IH Suc.prems(1) sent_ok_skip [OF Suc.prems(2), where T = T and c = c] by fastforce
  next
    case (3 addr c res w')
    then have "sent_ok instances path hdrs message (after_attempt path hdrs addr c res w' st)"
      using sent_ok_attempt [OF Suc.prems(2)] by blast
    with 3 Suc.IH Suc.prems(1) show ?thesis
      by (cases "succeeded res") fastforce+
  qed
qed

lemma succeeded_SomeD:
  "succeeded res = Some r \<Longrightarrow> do_resp res = Some r \<and> do_err res = None \<and> StatusCode r < 500"
  by (auto simp: succeeded_def split: option.splits if_splits)

lemma http_do_loop_result:
  assumes "http_do_loop nr cd instances path hdrs k st = (Ret (Inr resp), st')" and ne: "instances \<noteq> []"
  shows "StatusCode resp < 500 \<and> sent st' \<noteq> [] \<and>
     (\<exists>w res w'. cd (last (sent st')) w = (res, w') \<and> do_resp res = Some resp \<and> do_err res = None)"
  using assms(1)
proof (induction k arbitrary: st)
  case 0
  then show ?case by simp
next
  case (Suc k)
  show ?case
  proof (cases nr cd path hdrs st rule: http_round_cases [OF ne])
    case (1 p c)
    then show ?thesis using Suc.prems by simp
  next
    case (2 c T)
    then show ?thesis using Suc by simp
  next
    case (3 addr c res w')
    show ?thesis
    proof (cases "succeeded res")
      case None
      then show ?thesis using 3 Suc by simp
    next
      case (Some rs)
      then have "rs = resp" and st': "st' = after_attempt path hdrs addr c res w' st"
        using 3 Suc.prems by simp_all
      then have "do_resp res = Some resp \<and> do_err res = None \<and> StatusCode resp < 500"
        using succeeded_SomeD [OF Some] by simp
      moreover have "last (sent st') = attempt_req path hdrs addr st" and "sent st' \<noteq> []"
        unfolding st' by (simp_all add: after_attempt_def)
      ultimately show ?thesis using 3(3) by metis
    qed
  qed
qed

lemma http_do_loop_all_failed:
  assumes "http_do_loop nr cd instances path hdrs k st = (Ret (Inl e), st')" and ne: "instances \<noteq> []"
  shows "e = err_all_failed"
  using assms(1)
proof (induction k arbitrary: st)
  case 0
  then show ?case by simp
next
  case (Suc k)
  show ?case
  proof (cases nr cd path hdrs st rule: http_round_cases [OF ne])
    case (3 addr c res w')
    then show ?thesis using Suc by (cases "succeeded res") simp_all
  qed (use Suc in simp_all)
qed

section \<open>What the transport guarantees\<close>

text \<open>
  C36. Failover: whatever the network does, one \<open>Push\<close> sends at most three requests, to pairwise different
  instances of the list, all to \<open>/device/connect\<close> with the caller's connection id, each with a body that
  is a rest of the message; and it answers that a response is to be written back.
\<close>

theorem http_Push_attempts:
  assumes "instances \<noteq> []"
    and "http_Push new_request client_do instances d connId message w = (Ret (resp, respond, err), st)"
  shows "length (sent st) \<le> 3 \<and> respond \<and>
     (\<exists>addrs. map url (sent st) = map (\<lambda>a. instance_url a ''/device/connect'') addrs \<and>
        distinct addrs \<and> set addrs \<subseteq> set instances) \<and>
     list_all (\<lambda>r. headers r ''ConnId'' = Some connId \<and> suffix (body r) message) (sent st)"
proof -
  let ?st0 = "\<lparr>tried = {}, buf = message, cnt = counter d, world = w, sent = []\<rparr>"
  let ?hdrs = "request_headers (serviceName d) connId"
  obtain r where "http_do_loop new_request client_do instances ''/device/connect'' ?hdrs retryCount ?st0 = (r, st)"
    using assms by (auto simp: http_Push_def http_do_def Let_def split: prod.splits go.splits sum.splits)
  from http_do_loop_sent [OF this, of message] assms(1)
  have "sent_ok instances ''/device/connect'' ?hdrs message st" and "length (sent st) \<le> 3"
    by (auto simp: sent_ok_def retryCount_def)
  moreover have respond
    using assms(2) by (auto simp: http_Push_def split: prod.splits go.splits sum.splits)
  ultimately show ?thesis
    by (fastforce simp: sent_ok_def list_all_iff request_headers_def)
qed

text \<open>A network whose every instance reads the whole body and answers with the given status.\<close>

definition status_net :: "int \<Rightarrow> http_req \<Rightarrow> unit \<Rightarrow> do_outcome \<times> unit" where
  "status_net code req w =
     (\<lparr>do_resp = Some \<lparr>StatusCode = code, resp_body = ''ok'', read_error = None\<rparr>, do_err = None,
       consumed = length (body req)\<rparr>, w)"

lemma pick_two:
  "Pick [''a'', ''b''] 0 = (Ret ''a'', 1)" "Pick [''a'', ''b''] 1 = (Ret ''b'', 2)"
  "Pick [''a'', ''b''] 2 = (Ret ''a'', 3)"
  by (simp_all add: Pick_nonneg)

lemma retryCount_Suc: "retryCount = Suc (Suc (Suc 0))"
  by (simp add: retryCount_def)

lemmas http_eval = http_Push_def http_do_def http_round_def instance_url_def retryCount_Suc
  succeeded_def pick_two status_net_def

theorem http_Push_attempts_witness:
  "\<exists>st. http_Push (\<lambda>_. None) (status_net 200) [''a'', ''b''] \<lparr>serviceName = ''ws'', counter = 0\<rparr>
          ''d1'' ''msg'' () = (Ret (''ok'', True, None), st) \<and> length (sent st) \<le> 3"
proof -
  obtain st where r: "http_Push (\<lambda>_. None) (status_net 200) [''a'', ''b'']
      \<lparr>serviceName = ''ws'', counter = 0\<rparr> ''d1'' ''msg'' () = (Ret (''ok'', True, None), st)"
    by (simp add: http_eval)
  from http_Push_attempts [OF _ r] show ?thesis using r by auto
qed

text \<open>A transport that reads the whole body of every request.\<close>

definition reads_all :: "(http_req \<Rightarrow> 'w \<Rightarrow> do_outcome \<times> 'w) \<Rightarrow> bool" where
  "reads_all client_do \<longleftrightarrow> (\<forall>req w. length (body req) \<le> consumed (fst (client_do req w)))"

lemma http_do_loop_once:
  assumes all: "reads_all cd" and ne: "instances \<noteq> []"
    and "http_do_loop nr cd instances path hdrs k st = (r, st')"
    and "list_all (\<lambda>q. body q = []) (tl (sent st)) \<and> (sent st = [] \<or> buf st = [])"
  shows "list_all (\<lambda>q. body q = []) (tl (sent st'))"
  using assms(3,4)
proof (induction k arbitrary: st)
  case 0
  then show ?case by simp
next
  case (Suc k)
  show ?case
  proof (cases nr cd path hdrs st rule: http_round_cases [OF ne])
    case (1 p c)
    then show ?thesis using Suc.prems by auto
  next
    case (2 c T)
    then show ?thesis using Suc.IH Suc.prems by simp
  next
    case (3 addr c res w')
    let ?st = "after_attempt path hdrs addr c res w' st"
    have "length (buf st) \<le> consumed res"
      using all 3(3) by (auto simp: reads_all_def) (metis fst_conv http_req.select_convs(3))
    then have "list_all (\<lambda>q. body q = []) (tl (sent ?st)) \<and> (sent ?st = [] \<or> buf ?st = [])"
      using Suc.prems(2) by (cases "sent st") (simp_all add: after_attempt_def)
    with 3 Suc.IH Suc.prems(1) show ?thesis by (cases "succeeded res") auto
  qed
qed

text \<open>
  The message reaches an instance only once: if every attempt reads the whole buffer, all requests
  after the first carry an empty body, so a failover after a 5xx answer delivers nothing.
\<close>

theorem http_failover_sends_empty_body:
  assumes "reads_all client_do"
    and "http_Push new_request client_do instances d connId message w = (res, st)"
  shows "list_all (\<lambda>q. body q = []) (tl (sent st))"
proof -
  have "\<exists>r. http_do new_request client_do instances d ''/device/connect'' connId message w = (r, st)"
    using assms(2) by (auto simp: http_Push_def split: prod.splits go.splits sum.splits)
  then show ?thesis
    using http_do_loop_once [OF assms(1), of instances]
    by (cases "instances = []") (fastforce simp: http_do_def Let_def)+
qed

theorem http_failover_sends_empty_body_witness:
  "\<exists>st. http_Push (\<lambda>_. None) (status_net 503) [''a'', ''b''] \<lparr>serviceName = ''ws'', counter = 0\<rparr>
          ''d1'' ''msg'' () = (Ret ([], True, Some err_all_failed), st) \<and>
        map url (sent st) = [''http://a/device/connect'', ''http://b/device/connect''] \<and>
        list_all (\<lambda>q. body q = []) (tl (sent st))"
proof -
  have all: "reads_all (status_net 503)" by (simp add: reads_all_def status_net_def)
  let ?p = "http_Push (\<lambda>_. None) (status_net 503) [''a'', ''b''] \<lparr>serviceName = ''ws'', counter = 0\<rparr> ''d1'' ''msg'' ()"
  have "fst ?p = Ret ([], True, Some err_all_failed)" by (simp add: http_eval)
  then have r: "?p = (Ret ([], True, Some err_all_failed), snd ?p)" by (metis prod.collapse)
  have u: "map url (sent (snd ?p)) = [''http://a/device/connect'', ''http://b/device/connect'']"
    by (simp add: http_eval)
  show ?thesis
    by (intro exI [of _ "snd ?p"] conjI) (rule r u http_failover_sends_empty_body [OF all r])+
qed

text \<open>
  Round robin: while its counter has not passed the largest \<open>int64\<close>, as many consecutive picks as
  there are instances return every instance exactly once, in list order from the counter's position.
\<close>

theorem round_robin_fair:
  assumes "instances \<noteq> []" and "sint ctr = int c" and "int c + int (length instances) < 2 ^ 63"
  shows "picks (length instances) instances ctr =
     map Ret (rotate (c mod length instances) instances)"
proof -
  have "picks (length instances) instances ctr =
      map (\<lambda>i. Ret (instances ! ((c + i) mod length instances))) [0..<length instances]"
    using picks_nth [OF assms] .
  also have "\<dots> = map Ret (rotate (c mod length instances) instances)"
    by (rule nth_equalityI) (auto simp: nth_rotate mod_simps)
  finally show ?thesis .
qed

theorem round_robin_fair_witness:
  "picks (length [''a'', ''b'', ''c'']) [''a'', ''b'', ''c''] 4 = [Ret ''b'', Ret ''c'', Ret ''a'']"
proof -
  have "(4 :: nat) mod length [''a'', ''b'', ''c''] = 1" by simp
  then show ?thesis using round_robin_fair [of "[''a'', ''b'', ''c'']" 4 4] by simp
qed

end
