(* ===== verification/Proto.thy ===== *)
theory Proto
  imports Prelude
begin

text \<open>
  The messages of the gRPC service (\<open>src/pkg/devicecli/grpc/pb/iotdevice.pb.go\<close>): the Go structs
  without the protobuf bookkeeping fields, and their nil-safe getters. A pointer is an option. The
  \<open>structpb.Struct\<close> of the field \<open>Data\<close> is opaque; it is kept as the bytes it was read from.
\<close>

record DeviceConnectReq =
  Cmd :: string
  Sn :: string
  ConnId :: string
  Data :: string
  ServiceName :: string

record DeviceConnectResp =
  Message :: string

definition empty_req :: DeviceConnectReq where
  "empty_req = \<lparr>Cmd = [], Sn = [], ConnId = [], Data = [], ServiceName = []\<rparr>"

definition GetCmd :: "DeviceConnectReq option \<Rightarrow> string" where
  "GetCmd x = (case x of Some r \<Rightarrow> Cmd r | None \<Rightarrow> [])"

definition GetSn :: "DeviceConnectReq option \<Rightarrow> string" where
  "GetSn x = (case x of Some r \<Rightarrow> Sn r | None \<Rightarrow> [])"

definition GetConnId :: "DeviceConnectReq option \<Rightarrow> string" where
  "GetConnId x = (case x of Some r \<Rightarrow> ConnId r | None \<Rightarrow> [])"

definition GetServiceName :: "DeviceConnectReq option \<Rightarrow> string" where
  "GetServiceName x = (case x of Some r \<Rightarrow> ServiceName r | None \<Rightarrow> [])"

text \<open>A nil pointer as data is the empty text.\<close>

definition GetData :: "DeviceConnectReq option \<Rightarrow> string" where
  "GetData x = (case x of Some r \<Rightarrow> Data r | None \<Rightarrow> [])"

definition GetMessage :: "DeviceConnectResp option \<Rightarrow> string" where
  "GetMessage x = (case x of Some r \<Rightarrow> Message r | None \<Rightarrow> [])"

lemmas getters [simp] = GetCmd_def GetSn_def GetConnId_def GetServiceName_def

end
