(* ===== verification/DeviceGrpc.thy ===== *)
theory DeviceGrpc
  imports GoError Proto
begin

text \<open>
  The gRPC transport (\<open>src/pkg/devicecli/grpc/grpcClient.go\<close>): one call, then up to three more while
  the error is retryable.

  Parameters: \<open>unmarshal\<close> is \<open>protojson.Unmarshal\<close>, \<open>connect\<close> is \<open>client.DeviceConnect\<close> over the world,
  \<open>wait\<close> is the select between the context (\<open>Some\<close> its error) and the one-second timer (\<open>None\<close>). A gRPC
  status error is a \<open>LibError\<close> with the status' code. The response of a successful call is dropped by the
  code, so \<open>connect\<close> gives only the error.
\<close>

text \<open>\<open>status.FromError\<close> and \<open>Code\<close>: the code when the error is (or wraps) a status.\<close>

fun status_code :: "go_error \<Rightarrow> int option" where
  "status_code (LibError (GrpcStatus c) _) = Some c"
| "status_code (WrapError _ e) = status_code e"
| "status_code _ = None"

definition code_DeadlineExceeded :: int where "code_DeadlineExceeded = 4"
definition code_Aborted :: int where "code_Aborted = 10"
definition code_Unavailable :: int where "code_Unavailable = 14"

definition isRetryable :: "go_error \<Rightarrow> bool" where
  "isRetryable err =
     (case status_code err of
        None \<Rightarrow> False
      | Some c \<Rightarrow> c \<in> {code_Unavailable, code_DeadlineExceeded, code_Aborted})"

definition defaultRetryCount :: nat where "defaultRetryCount = 3"

text \<open>
  The client; its constructor, where \<open>dial\<close> is the error \<open>zrpc.MustNewClient\<close> ends the process with; closing it
  does nothing.
\<close>

record grpc_cli =
  grpc_serviceName :: string
  grpc_retryCount :: nat

definition grpc_NewDeviceCli :: "string \<Rightarrow> go_error option \<Rightarrow> go_error + grpc_cli" where
  "grpc_NewDeviceCli service dial =
     (case dial of
        Some err \<Rightarrow> Inl err
      | None \<Rightarrow> Inr \<lparr>grpc_serviceName = service, grpc_retryCount = defaultRetryCount\<rparr>)"

definition grpc_Information :: "grpc_cli \<Rightarrow> string" where
  "grpc_Information d = ''device grpc client, serviceName: '' @ grpc_serviceName d"

definition grpc_Close :: "grpc_cli \<Rightarrow> go_error option" where
  "grpc_Close d = None"

type_synonym push_result = "string \<times> bool \<times> go_error option"

text \<open>
  The retry loop with \<open>k\<close> rounds left; \<open>err\<close> is the error so far. The second component counts the calls
  of \<open>DeviceConnect\<close> the loop makes.
\<close>

fun grpc_retry ::
  "(DeviceConnectReq \<Rightarrow> 'w \<Rightarrow> go_error option \<times> 'w) \<Rightarrow> ('w \<Rightarrow> go_error option \<times> 'w) \<Rightarrow>
     DeviceConnectReq \<Rightarrow> nat \<Rightarrow> go_error \<Rightarrow> 'w \<Rightarrow> push_result \<times> nat \<times> 'w" where
  "grpc_retry connect wait req 0 err w = (([], True, Some err), 0, w)"
| "grpc_retry connect wait req (Suc k) err w =
     (case wait w of
        (Some ctx_err, w1) \<Rightarrow> (([], True, Some ctx_err), 0, w1)
      | (None, w1) \<Rightarrow>
          (case connect req w1 of
             (None, w2) \<Rightarrow> (([], True, None), 1, w2)
           | (Some err', w2) \<Rightarrow>
               if \<not> isRetryable err' then (([], True, Some err'), 1, w2)
               else (let (res, n, w3) = grpc_retry connect wait req k err' w2 in (res, Suc n, w3))))"

definition grpc_Push ::
  "(string \<Rightarrow> go_error + DeviceConnectReq) \<Rightarrow> (DeviceConnectReq \<Rightarrow> 'w \<Rightarrow> go_error option \<times> 'w) \<Rightarrow>
     ('w \<Rightarrow> go_error option \<times> 'w) \<Rightarrow> string \<Rightarrow> string \<Rightarrow> string \<Rightarrow> 'w \<Rightarrow> push_result \<times> nat \<times> 'w" where
  "grpc_Push unmarshal connect wait service connId message w =
     (case unmarshal message of
        Inl err \<Rightarrow> (([], True, Some err), 0, w)
      | Inr m \<Rightarrow>
          (let req = m\<lparr>ConnId := connId, ServiceName := service\<rparr> in
           (case connect req w of
              (None, w1) \<Rightarrow> (([], True, None), 1, w1)
            | (Some err, w1) \<Rightarrow>
                if \<not> isRetryable err then (([], True, Some err), 1, w1)
                else (let (res, n, w2) = grpc_retry connect wait req defaultRetryCount err w1
                      in (res, Suc n, w2)))))"

lemma grpc_retry_result:
  assumes "grpc_retry connect wait req k err w = ((resp, respond, e), n, w')"
  shows "resp = [] \<and> respond \<and> n \<le> k"
  using assms
  by (induction k arbitrary: err w n w')
    (force split: prod.splits option.splits if_splits)+

text \<open>
  When the loop gives up with a retryable error, it made all its calls and none succeeded; a context
  that is never done and calls that always fail retryably lead there.
\<close>

lemma grpc_retry_exhausts:
  assumes "\<And>w. fst (wait w) = None" and "\<And>w. \<exists>e. fst (connect req w) = Some e \<and> isRetryable e"
    and "grpc_retry connect wait req k err w = (res, n, w')"
  shows "n = k \<and> (k \<noteq> 0 \<longrightarrow> (\<exists>e. snd (snd res) = Some e \<and> isRetryable e))"
  using assms(3)
proof (induction k arbitrary: err w n res w')
  case 0
  then show ?case by simp
next
  case (Suc k)
  obtain w1 where W: "wait w = (None, w1)" using assms(1) [of w] by (cases "wait w") simp
  obtain e w2 where C: "connect req w1 = (Some e, w2)" and e: "isRetryable e"
    using assms(2) [of w1] by (cases "connect req w1") auto
  obtain res' n' w3 where R: "grpc_retry connect wait req k e w2 = (res', n', w3)"
    by (cases "grpc_retry connect wait req k e w2")
  have "res = res'" "n = Suc n'" using Suc.prems W C e R by simp_all
  moreover have "k = 0 \<Longrightarrow> snd (snd res') = Some e" using R by auto
  ultimately show ?case using Suc.IH [OF R] e by (cases k) auto
qed

text \<open>
  C38. Retry policy: a message that does not parse makes no call; otherwise the first call is made, a
  success or a non-retryable error is the answer at once, and in every case there are at most four calls
  and the response bytes are empty, so the device's answer never reaches the caller.
\<close>

theorem grpc_Push_policy:
  assumes "grpc_Push unmarshal connect wait service connId message w = ((resp, respond, err), n, w')"
  shows "resp = [] \<and> respond \<and> n \<le> 4 \<and>
     (case unmarshal message of
        Inl e \<Rightarrow> n = 0 \<and> err = Some e
      | Inr m \<Rightarrow>
          n \<noteq> 0 \<and>
          (case fst (connect (m\<lparr>ConnId := connId, ServiceName := service\<rparr>) w) of
             None \<Rightarrow> n = 1 \<and> err = None
           | Some e \<Rightarrow> isRetryable e \<or> n = 1 \<and> err = Some e))"
proof (cases "unmarshal message")
  case (Inl e)
  then show ?thesis using assms by (auto simp: grpc_Push_def)
next
  case (Inr m)
  let ?req = "m\<lparr>ConnId := connId, ServiceName := service\<rparr>"
  obtain e1 w1 where C: "connect ?req w = (e1, w1)" by (cases "connect ?req w")
  obtain resp' respond' err' n' w2 where
    R: "grpc_retry connect wait ?req defaultRetryCount (the e1) w1 = ((resp', respond', err'), n', w2)"
    by (metis prod.collapse)
  show ?thesis
    using assms Inr C R grpc_retry_result [OF R]
    by (auto simp: grpc_Push_def defaultRetryCount_def Let_def split: option.splits if_splits)
qed

definition busy_grpc :: "DeviceConnectReq \<Rightarrow> nat \<Rightarrow> go_error option \<times> nat" where
  "busy_grpc req w = (Some (LibError (GrpcStatus 14) ''unavailable''), Suc w)"

text \<open>A service that stays unavailable: four calls, the last error.\<close>

theorem grpc_Push_policy_witness:
  "\<exists>n w'. grpc_Push (\<lambda>_. Inr empty_req) busy_grpc (\<lambda>w. (None, w)) ''ws'' ''d1'' ''m'' 0 =
      (([], True, Some (LibError (GrpcStatus 14) ''unavailable'')), n, w') \<and> n = 4 \<and> n \<le> 4"
proof -
  have r: "grpc_Push (\<lambda>_. Inr empty_req) busy_grpc (\<lambda>w. (None, w)) ''ws'' ''d1'' ''m'' 0 =
      (([], True, Some (LibError (GrpcStatus 14) ''unavailable'')), 4, 4)"
    by (simp add: grpc_Push_def busy_grpc_def isRetryable_def code_Unavailable_def
        defaultRetryCount_def numeral_3_eq_3 Let_def)
  from grpc_Push_policy [OF r] show ?thesis using r by simp
qed

end
