(* ===== verification/DeviceNats.thy ===== *)
theory DeviceNats
  imports DeviceGrpc
begin

text \<open>
  The message-queue transport (\<open>src/pkg/devicecli/mq/mqClient.go\<close>): publish, up to four times.

  Parameters: \<open>publish\<close> is the queue's \<open>Publish\<close> over the world, \<open>ctx_done\<close> the non-blocking look at the
  context (\<open>Some\<close> its error), \<open>wait\<close> the select between the context and the one-second timer.
\<close>

record qmsg =
  msg_uuid :: string
  msg_payload :: string
  msg_metadata :: "string \<rightharpoonup> string"

record nats_cli =
  has_conn :: bool
  nats_serviceName :: string
  subject :: string
  nats_retryCount :: nat

definition mq_defaultRetryCount :: nat where "mq_defaultRetryCount = 3"

text \<open>\<open>NewDeviceCli\<close>: \<open>broker\<close> is the error of \<open>queue.NewBrokerFromConfig\<close>, \<open>subj\<close> the configured subject.\<close>

definition mq_NewDeviceCli :: "string \<Rightarrow> string \<Rightarrow> go_error option \<Rightarrow> go_error + nats_cli" where
  "mq_NewDeviceCli service subj broker =
     (case broker of
        Some err \<Rightarrow> Inl err
      | None \<Rightarrow> Inr \<lparr>has_conn = True, nats_serviceName = service, subject = subj,
                     nats_retryCount = mq_defaultRetryCount\<rparr>)"

definition nats_Information :: "nats_cli \<Rightarrow> string" where
  "nats_Information d = nats_serviceName d"

text \<open>\<open>Close\<close>: \<open>close\<close> closes the queue, its error is dropped.\<close>

definition mq_Close :: "('w \<Rightarrow> go_error option \<times> 'w) \<Rightarrow> nats_cli \<Rightarrow> 'w \<Rightarrow> 'w" where
  "mq_Close close d w = (if \<not> has_conn d then w else snd (close w))"

definition push_msg :: "string \<Rightarrow> string \<Rightarrow> string \<Rightarrow> string \<Rightarrow> qmsg" where
  "push_msg uuid service connId message =
     \<lparr>msg_uuid = uuid, msg_payload = message,
      msg_metadata = [''ServiceName'' \<mapsto> service, ''ConnId'' \<mapsto> connId]\<rparr>"

text \<open>The loop with \<open>k\<close> rounds left and the last publish error; the number counts publishes.\<close>

fun nats_loop ::
  "(qmsg \<Rightarrow> 'w \<Rightarrow> go_error option \<times> 'w) \<Rightarrow> ('w \<Rightarrow> go_error option \<times> 'w) \<Rightarrow>
     ('w \<Rightarrow> go_error option \<times> 'w) \<Rightarrow> qmsg \<Rightarrow> nat \<Rightarrow> go_error option \<Rightarrow> 'w \<Rightarrow> push_result \<times> nat \<times> 'w" where
  "nats_loop publish ctx_done wait m 0 err w = (([], False, err), 0, w)"
| "nats_loop publish ctx_done wait m (Suc k) err w =
     (case ctx_done w of
        (Some e, w1) \<Rightarrow> (([], False, Some e), 0, w1)
      | (None, w1) \<Rightarrow>
          (case publish m w1 of
             (None, w2) \<Rightarrow> (([], False, None), 1, w2)
           | (Some e, w2) \<Rightarrow>
               (case wait w2 of
                  (Some ctx_err, w3) \<Rightarrow> (([], False, Some ctx_err), 1, w3)
                | (None, w3) \<Rightarrow>
                    (let (res, n, w4) = nats_loop publish ctx_done wait m k (Some e) w3
                     in (res, Suc n, w4)))))"

definition nats_Push ::
  "go_error \<Rightarrow> (string \<Rightarrow> qmsg \<Rightarrow> 'w \<Rightarrow> go_error option \<times> 'w) \<Rightarrow> ('w \<Rightarrow> go_error option \<times> 'w) \<Rightarrow>
     ('w \<Rightarrow> go_error option \<times> 'w) \<Rightarrow> string \<Rightarrow> nats_cli \<Rightarrow> string \<Rightarrow> string \<Rightarrow> 'w
     \<Rightarrow> push_result \<times> nat \<times> 'w" where
  "nats_Push ErrNatsNotConnected publish ctx_done wait uuid d connId message w =
     (if \<not> has_conn d then (([], False, Some ErrNatsNotConnected), 0, w)
      else nats_loop (publish (subject d)) ctx_done wait
             (push_msg uuid (nats_serviceName d) connId message) (Suc (nats_retryCount d)) None w)"

lemma nats_loop_result:
  assumes "nats_loop publish ctx_done wait m k err w = ((resp, respond, e), n, w')"
  shows "resp = [] \<and> \<not> respond \<and> n \<le> k \<and> (e = None \<longrightarrow> n \<noteq> 0 \<or> (k = 0 \<and> err = None))"
  using assms
proof (induction k arbitrary: err w n w')
  case 0
  then show ?case by simp
next
  case (Suc k)
  obtain c w1 where C: "ctx_done w = (c, w1)" by (cases "ctx_done w")
  obtain p w2 where P: "publish m w1 = (p, w2)" by (cases "publish m w1")
  obtain t w3 where T: "wait w2 = (t, w3)" by (cases "wait w2")
  obtain res n' w4 where L: "nats_loop publish ctx_done wait m k p w3 = (res, n', w4)"
    by (cases "nats_loop publish ctx_done wait m k p w3")
  show ?case
    using Suc.prems C P T L Suc.IH [of p w3 n' w4]
    by (cases c; cases p; cases t) (auto simp: Let_def)
qed

text \<open>A publish that succeeds ends the loop with no error.\<close>

lemma nats_loop_first_success:
  assumes "fst (ctx_done w) = None" and "fst (publish m (snd (ctx_done w))) = None"
  shows "fst (nats_loop publish ctx_done wait m (Suc k) err w) = ([], False, None)"
  using assms by (cases "ctx_done w"; cases "publish m (snd (ctx_done w))") auto

lemma nats_loop_all_fail:
  assumes "\<And>w. fst (ctx_done w) = None" "\<And>w. fst (wait w) = None"
    and "\<And>w. fst (publish m w) \<noteq> None"
    and "nats_loop publish ctx_done wait m k err w = (res, n, w')"
  shows "n = k \<and> (k \<noteq> 0 \<longrightarrow> snd (snd res) \<noteq> None)"
  using assms(4)
proof (induction k arbitrary: err w n res w')
  case 0
  then show ?case by simp
next
  case (Suc k)
  obtain w1 where C: "ctx_done w = (None, w1)" using assms(1) [of w] by (cases "ctx_done w") simp
  obtain p w2 where P: "publish m w1 = (Some p, w2)"
    using assms(3) [of w1] by (cases "publish m w1") auto
  obtain w3 where T: "wait w2 = (None, w3)" using assms(2) [of w2] by (cases "wait w2") simp
  obtain res' n' w4 where L: "nats_loop publish ctx_done wait m k (Some p) w3 = (res', n', w4)"
    by (cases "nats_loop publish ctx_done wait m k (Some p) w3")
  then have "res = res'" "n = Suc n'" using Suc.prems C P T by simp_all
  then show ?case using Suc.IH [OF L] L by (cases k) auto
qed

text \<open>
  Fire and forget: \<open>Push\<close> over the queue never asks for a response, returns no bytes, publishes at
  most four times, and reports success only if it has published; while the context stays open and every
  publish fails it publishes exactly four times and reports an error.
\<close>

theorem nats_Push_policy:
  assumes "nats_retryCount d = mq_defaultRetryCount"
    and "nats_Push nc publish ctx_done wait uuid d connId message w = ((resp, respond, err), n, w')"
  shows "resp = [] \<and> \<not> respond \<and> n \<le> 4 \<and> (err \<noteq> None \<or> n \<noteq> 0) \<and>
     (if has_conn d \<and> (\<forall>w. fst (ctx_done w) = None) \<and> (\<forall>w. fst (wait w) = None) \<and>
         (\<forall>w. fst (publish (subject d) (push_msg uuid (nats_serviceName d) connId message) w) \<noteq> None)
      then n = 4 \<and> err \<noteq> None else True)"
proof (cases "has_conn d")
  case False
  then show ?thesis using assms by (auto simp: nats_Push_def)
next
  case True
  then have L: "nats_loop (publish (subject d)) ctx_done wait
      (push_msg uuid (nats_serviceName d) connId message) 4 None w = ((resp, respond, err), n, w')"
    using assms by (simp add: nats_Push_def mq_defaultRetryCount_def)
  from nats_loop_result [OF L] nats_loop_all_fail [OF _ _ _ L] show ?thesis by auto
qed

theorem nats_Push_policy_witness:
  "\<exists>n w'. nats_Push (LibError OtherLib ''closed'') (\<lambda>_ _ w. (Some (LibError OtherLib ''down''), Suc w))
      (\<lambda>w. (None, w)) (\<lambda>w. (None, w)) ''u''
      \<lparr>has_conn = True, nats_serviceName = ''ws'', subject = ''s'', nats_retryCount = mq_defaultRetryCount\<rparr>
      ''d1'' ''m'' (0::nat) = (([], False, Some (LibError OtherLib ''down'')), n, w') \<and> n = 4"
proof -
  let ?d = "\<lparr>has_conn = True, nats_serviceName = ''ws'', subject = ''s'',
      nats_retryCount = mq_defaultRetryCount\<rparr>"
  have r: "nats_Push (LibError OtherLib ''closed'') (\<lambda>_ _ w. (Some (LibError OtherLib ''down''), Suc w))
      (\<lambda>w. (None, w)) (\<lambda>w. (None, w)) ''u'' ?d ''d1'' ''m'' (0::nat) =
      (([], False, Some (LibError OtherLib ''down'')), 4, 4)"
    by (simp add: nats_Push_def mq_defaultRetryCount_def numeral_3_eq_3)
  from nats_Push_policy [OF _ r] show ?thesis using r by simp
qed

end
