(* ===== verification/DeviceCli.thy ===== *)
theory DeviceCli
  imports DeviceHttp DeviceGrpc DeviceNats
begin

text \<open>
  The fallback client over the three transports and its hot reload
  (\<open>src/pkg/devicecli/devicecli.go\<close>, \<open>errors.go\<close>).

  A client is an object with an identity. The interface value that holds a nil \<open>*deviceNatsCli\<close> is not
  the nil interface, so it is a constructor of its own, \<open>NatsNil\<close>. The priority chain is a Go slice: a
  window on a backing array, which \<open>append\<close> fills in place while its capacity lasts. The runtime's
  choice of a new capacity is the parameter \<open>grow\<close>.
\<close>

unbundle bit_operations_syntax

section \<open>Modes\<close>

type_synonym push_mode = "8 word"

definition ModeHTTP :: push_mode where "ModeHTTP = 1"
definition ModeGRPC :: push_mode where "ModeGRPC = 2"
definition ModeNATS :: push_mode where "ModeNATS = 4"

definition has_mode :: "push_mode \<Rightarrow> push_mode \<Rightarrow> bool" where
  "has_mode mode m \<longleftrightarrow> mode AND m \<noteq> 0"

definition token_mode :: "string \<Rightarrow> push_mode" where
  "token_mode m =
     (if m = ''http'' then ModeHTTP
      else if m = ''grpc'' then ModeGRPC
      else if m = ''nats'' then ModeNATS
      else 0)"

fun modes_of :: "string list \<Rightarrow> push_mode \<Rightarrow> push_mode" where
  "modes_of [] mode = mode"
| "modes_of (m # ms) mode = modes_of ms (mode OR token_mode (trim_space m))"

definition ParseMode :: "string \<Rightarrow> push_mode" where
  "ParseMode model =
     (if model = [] then ModeHTTP
      else (let mode = modes_of (split_on (CHR '','') model) 0
            in if mode = 0 then ModeHTTP else mode))"

definition tokens :: "string \<Rightarrow> string set" where
  "tokens model = trim_space ` set (split_on (CHR '','') model)"

lemma has_mode_or: "has_mode (a OR b) c \<longleftrightarrow> has_mode a c \<or> has_mode b c"
  by (simp add: has_mode_def bit.conj_disj_distrib2 or_eq_0_iff)

lemma has_mode_0 [simp]: "\<not> has_mode 0 c"
  by (simp add: has_mode_def)

lemma has_mode_token:
  "has_mode (token_mode m) ModeHTTP \<longleftrightarrow> m = ''http''"
  "has_mode (token_mode m) ModeGRPC \<longleftrightarrow> m = ''grpc''"
  "has_mode (token_mode m) ModeNATS \<longleftrightarrow> m = ''nats''"
  by (auto simp: token_mode_def has_mode_def ModeHTTP_def ModeGRPC_def ModeNATS_def)

lemma has_mode_consts [simp]:
  "has_mode ModeHTTP ModeHTTP" "\<not> has_mode ModeHTTP ModeGRPC" "\<not> has_mode ModeHTTP ModeNATS"
  by (simp_all add: has_mode_def ModeHTTP_def ModeGRPC_def ModeNATS_def)

lemma has_mode_modes_of:
  "has_mode (modes_of ms mode) c \<longleftrightarrow>
     has_mode mode c \<or> (\<exists>m\<in>set ms. has_mode (token_mode (trim_space m)) c)"
  by (induction ms arbitrary: mode) (auto simp: has_mode_or)

lemma token_mode_0_iff: "token_mode m = 0 \<longleftrightarrow> m \<notin> {''http'', ''grpc'', ''nats''}"
  by (auto simp: token_mode_def ModeHTTP_def ModeGRPC_def ModeNATS_def)

lemma modes_of_0_iff: "modes_of ms mode = 0 \<longleftrightarrow> mode = 0 \<and> (\<forall>m\<in>set ms. token_mode (trim_space m) = 0)"
  by (induction ms arbitrary: mode) (auto simp: or_eq_0_iff)

lemma modes_of_split_0_iff:
  "modes_of (split_on (CHR '','') model) 0 = 0 \<longleftrightarrow> tokens model \<inter> {''http'', ''grpc'', ''nats''} = {}"
  unfolding modes_of_0_iff token_mode_0_iff tokens_def by blast

lemma tokens_Nil: "tokens [] = {[]}"
  by (simp add: tokens_def trim_space_plain plain_word_def)

lemma ParseMode_mode_bits:
  "(has_mode (ParseMode model) ModeGRPC \<longleftrightarrow> ''grpc'' \<in> tokens model) \<and>
   (has_mode (ParseMode model) ModeNATS \<longleftrightarrow> ''nats'' \<in> tokens model) \<and>
   (has_mode (ParseMode model) ModeHTTP \<longleftrightarrow>
      ''http'' \<in> tokens model \<or> tokens model \<inter> {''http'', ''grpc'', ''nats''} = {}) \<and>
   ParseMode model \<noteq> 0"
proof (cases "modes_of (split_on (CHR '','') model) 0 = 0")
  case True
  then have "ParseMode model = ModeHTTP" by (simp add: ParseMode_def Let_def)
  moreover from True have "tokens model \<inter> {''http'', ''grpc'', ''nats''} = {}"
    by (simp only: modes_of_split_0_iff)
  ultimately show ?thesis by (auto simp: ModeHTTP_def has_mode_def ModeGRPC_def ModeNATS_def)
next
  case False
  have ne: "model \<noteq> []"
  proof
    assume "model = []"
    moreover have "tokens [] \<inter> {''http'', ''grpc'', ''nats''} = {}" by (simp add: tokens_Nil)
    ultimately show False using False unfolding modes_of_split_0_iff by simp
  qed
  have P: "ParseMode model = modes_of (split_on (CHR '','') model) 0"
    using False ne by (simp add: ParseMode_def Let_def)
  have bit: "has_mode (ParseMode model) c \<longleftrightarrow> (\<exists>t\<in>tokens model. has_mode (token_mode t) c)" for c
    by (auto simp: P has_mode_modes_of tokens_def)
  have "tokens model \<inter> {''http'', ''grpc'', ''nats''} \<noteq> {}"
    using False unfolding modes_of_split_0_iff .
  then show ?thesis using False P unfolding bit has_mode_token by auto
qed

text \<open>
  \<open>ParseMode\<close>: the gRPC and NATS bits are set exactly for the tokens the comma-separated text has
  (up to white space), the HTTP bit exactly for its token or when no token is known, and so the mode is
  never empty.
\<close>

theorem ParseMode_bits:
  "(has_mode (ParseMode model) ModeGRPC \<longleftrightarrow> ''grpc'' \<in> tokens model) \<and>
   (has_mode (ParseMode model) ModeNATS \<longleftrightarrow> ''nats'' \<in> tokens model) \<and>
   (has_mode (ParseMode model) ModeHTTP \<longleftrightarrow>
      ''http'' \<in> tokens model \<or> tokens model \<inter> {''http'', ''grpc'', ''nats''} = {}) \<and>
   ParseMode model \<noteq> 0"
  by (rule ParseMode_mode_bits)

section \<open>Clients and slices of clients\<close>

datatype client = Grpc nat | Nats nat | NatsNil | Http nat

record slice =
  s_arr :: nat
  s_len :: nat
  s_cap :: nat

record store =
  arrays :: "nat \<Rightarrow> client option list"
  next_arr :: nat

definition nil_slice :: slice where
  "nil_slice = \<lparr>s_arr = 0, s_len = 0, s_cap = 0\<rparr>"

definition empty_store :: store where
  "empty_store = \<lparr>arrays = (\<lambda>_. []), next_arr = 1\<rparr>"

definition slice_read :: "slice \<Rightarrow> store \<Rightarrow> client option list" where
  "slice_read s h = take (s_len s) (arrays h (s_arr s))"

text \<open>\<open>append(s, x)\<close>: in place while the capacity lasts, else a copy in a new array.\<close>

definition slice_append ::
  "(nat \<Rightarrow> nat \<Rightarrow> nat) \<Rightarrow> client \<Rightarrow> slice \<times> store \<Rightarrow> slice \<times> store" where
  "slice_append grow x sh =
     (let (s, h) = sh in
      if s_len s < s_cap s
      then (s\<lparr>s_len := Suc (s_len s)\<rparr>,
            h\<lparr>arrays := (arrays h)(s_arr s := (arrays h (s_arr s))[s_len s := Some x])\<rparr>)
      else (let c = grow (s_cap s) (Suc (s_len s)) in
            (\<lparr>s_arr = next_arr h, s_len = Suc (s_len s), s_cap = c\<rparr>,
             h\<lparr>arrays := (arrays h)(next_arr h :=
                  slice_read s h @ Some x # replicate (c - Suc (s_len s)) None),
               next_arr := Suc (next_arr h)\<rparr>)))"

definition slice_ok :: "slice \<Rightarrow> store \<Rightarrow> bool" where
  "slice_ok s h \<longleftrightarrow>
     s_len s \<le> s_cap s \<and> length (arrays h (s_arr s)) = s_cap s \<and> s_arr s < next_arr h"

text \<open>The runtime grows a slice to at least the length it needs.\<close>

definition grows :: "(nat \<Rightarrow> nat \<Rightarrow> nat) \<Rightarrow> bool" where
  "grows grow \<longleftrightarrow> (\<forall>c n. n \<le> grow c n)"

lemma growsD: "grows grow \<Longrightarrow> n \<le> grow c n"
  by (simp add: grows_def)

lemma slice_ok_empty [simp]: "slice_ok nil_slice empty_store" "slice_read nil_slice h = []"
  by (simp_all add: slice_ok_def nil_slice_def empty_store_def slice_read_def)

lemma slice_append_spec:
  assumes "grows grow" and "slice_ok s h" and "slice_append grow x (s, h) = (s', h')"
  shows "slice_ok s' h' \<and> slice_read s' h' = slice_read s h @ [Some x]"
proof (cases "s_len s < s_cap s")
  case True
  then show ?thesis
    using assms
    by (auto simp: slice_append_def slice_ok_def slice_read_def take_Suc_conv_app_nth)
next
  case False
  with assms(2) have "length (slice_read s h) = s_len s"
    by (simp add: slice_ok_def slice_read_def)
  moreover have "Suc (s_len s) \<le> grow (s_cap s) (Suc (s_len s))"
    using assms(1) by (rule growsD)
  ultimately show ?thesis
    using assms False
    by (auto simp: slice_append_def slice_ok_def slice_read_def Let_def)
qed

section \<open>The client object\<close>

record dev_cli =
  dc_mode :: push_mode
  dc_http :: "client option"
  dc_grpc :: "client option"
  dc_nats :: "client option"
  dc_chain :: slice
  dc_store :: store
  dc_next :: nat           \<comment> \<open>the next object identity\<close>
  dc_closed :: "nat list"  \<comment> \<open>the NATS clients closed so far\<close>

definition append_present ::
  "(nat \<Rightarrow> nat \<Rightarrow> nat) \<Rightarrow> client option \<Rightarrow> slice \<times> store \<Rightarrow> slice \<times> store" where
  "append_present grow c sh = (case c of None \<Rightarrow> sh | Some x \<Rightarrow> slice_append grow x sh)"

definition rebuildChain :: "(nat \<Rightarrow> nat \<Rightarrow> nat) \<Rightarrow> dev_cli \<Rightarrow> dev_cli" where
  "rebuildChain grow d =
     (let sh0 = ((dc_chain d)\<lparr>s_len := 0\<rparr>, dc_store d);
          sh1 = append_present grow (dc_grpc d) sh0;
          sh2 = append_present grow (dc_nats d) sh1;
          sh3 = append_present grow (dc_http d) sh2
      in d\<lparr>dc_chain := fst sh3, dc_store := snd sh3\<rparr>)"

definition new_grpc :: "dev_cli \<Rightarrow> client \<times> dev_cli" where
  "new_grpc d = (Grpc (dc_next d), d\<lparr>dc_next := Suc (dc_next d)\<rparr>)"

definition new_http :: "dev_cli \<Rightarrow> client \<times> dev_cli" where
  "new_http d = (Http (dc_next d), d\<lparr>dc_next := Suc (dc_next d)\<rparr>)"

definition new_nats :: "dev_cli \<Rightarrow> client \<times> dev_cli" where
  "new_nats d = (Nats (dc_next d), d\<lparr>dc_next := Suc (dc_next d)\<rparr>)"

text \<open>\<open>mq\<close>: a queue is configured; \<open>fails\<close>: the queue client cannot be created.\<close>

definition initLocked :: "(nat \<Rightarrow> nat \<Rightarrow> nat) \<Rightarrow> bool \<Rightarrow> bool \<Rightarrow> push_mode \<Rightarrow> dev_cli \<Rightarrow> dev_cli" where
  "initLocked grow mq fails mode d =
     (let d0 = d\<lparr>dc_mode := mode\<rparr>;
          d1 = (if has_mode mode ModeGRPC
                then (let (c, d') = new_grpc d0 in d'\<lparr>dc_grpc := Some c\<rparr>) else d0);
          d2 = (if has_mode mode ModeHTTP
                then (let (c, d') = new_http d1 in d'\<lparr>dc_http := Some c\<rparr>) else d1);
          d3 = (if has_mode mode ModeNATS \<and> mq
                then (if fails then d2
                      else (let (c, d') = new_nats d2 in d'\<lparr>dc_nats := Some c\<rparr>))
                else d2)
      in rebuildChain grow d3)"

definition zero_cli :: dev_cli where
  "zero_cli = \<lparr>dc_mode = 0, dc_http = None, dc_grpc = None, dc_nats = None, dc_chain = nil_slice,
     dc_store = empty_store, dc_next = 0, dc_closed = []\<rparr>"

definition NewDeviceCli :: "(nat \<Rightarrow> nat \<Rightarrow> nat) \<Rightarrow> bool \<Rightarrow> bool \<Rightarrow> string \<Rightarrow> dev_cli" where
  "NewDeviceCli grow mq fails model = initLocked grow mq fails (ParseMode model) zero_cli"

text \<open>
  \<open>closeIfPossible\<close>: only the queue client has a \<open>Close()\<close> without a result; called on the nil
  \<open>*deviceNatsCli\<close> it reads a field of nil.
\<close>

definition closeIfPossible :: "client option \<Rightarrow> dev_cli \<Rightarrow> unit go \<times> dev_cli" where
  "closeIfPossible c d =
     (case c of
        None \<Rightarrow> (Ret (), d)
      | Some (Grpc _) \<Rightarrow> (Ret (), d)
      | Some (Http _) \<Rightarrow> (Ret (), d)
      | Some (Nats i) \<Rightarrow> (Ret (), d\<lparr>dc_closed := i # dc_closed d\<rparr>)
      | Some NatsNil \<Rightarrow> (Panic ''nil pointer dereference'', d))"

section \<open>Reload\<close>

text \<open>
  A \<open>Reload\<close> that has read the state under the read lock, with the clients it creates outside the lock.
  Its three phases - read, create, commit - and the closing at the end can interleave with those of
  other calls and with pushes.
\<close>

record reload =
  r_new :: push_mode
  r_old :: push_mode
  r_oldGrpc :: "client option"
  r_oldHttp :: "client option"
  r_oldNats :: "client option"
  r_newGrpc :: "client option"
  r_newHttp :: "client option"
  r_newNats :: "client option"

definition reload_read :: "push_mode \<Rightarrow> dev_cli \<Rightarrow> reload option" where
  "reload_read newMode d =
     (if newMode = dc_mode d then None
      else Some \<lparr>r_new = newMode, r_old = dc_mode d, r_oldGrpc = dc_grpc d, r_oldHttp = dc_http d,
                 r_oldNats = dc_nats d, r_newGrpc = None, r_newHttp = None, r_newNats = None\<rparr>)"

text \<open>A failed creation leaves a nil \<open>*deviceNatsCli\<close> in the interface variable \<open>newNats\<close>.\<close>

definition create_grpc :: "reload \<times> dev_cli \<Rightarrow> reload \<times> dev_cli" where
  "create_grpc rd =
     (let (r, d) = rd in
      if has_mode (r_new r) ModeGRPC \<and> r_oldGrpc r = None
      then (let (c, d') = new_grpc d in (r\<lparr>r_newGrpc := Some c\<rparr>, d')) else (r, d))"

definition create_http :: "reload \<times> dev_cli \<Rightarrow> reload \<times> dev_cli" where
  "create_http rd =
     (let (r, d) = rd in
      if has_mode (r_new r) ModeHTTP \<and> r_oldHttp r = None
      then (let (c, d') = new_http d in (r\<lparr>r_newHttp := Some c\<rparr>, d')) else (r, d))"

definition create_nats :: "bool \<Rightarrow> bool \<Rightarrow> reload \<times> dev_cli \<Rightarrow> reload \<times> dev_cli" where
  "create_nats mq fails rd =
     (let (r, d) = rd in
      if has_mode (r_new r) ModeNATS \<and> r_oldNats r = None \<and> mq
      then (if fails then (r\<lparr>r_newNats := Some NatsNil\<rparr>, d)
            else (let (c, d') = new_nats d in (r\<lparr>r_newNats := Some c\<rparr>, d'))) else (r, d))"

definition reload_create :: "bool \<Rightarrow> bool \<Rightarrow> reload \<times> dev_cli \<Rightarrow> reload \<times> dev_cli" where
  "reload_create mq fails rd = create_nats mq fails (create_http (create_grpc rd))"

definition keep_or_new :: "push_mode \<Rightarrow> push_mode \<Rightarrow> client option \<Rightarrow> client option \<Rightarrow> client option" where
  "keep_or_new newMode m old new =
     (if has_mode newMode m \<and> old \<noteq> None then old
      else if new \<noteq> None then new
      else None)"

text \<open>The commit; the boolean says whether the mode was still the one that was read.\<close>

definition reload_commit ::
  "(nat \<Rightarrow> nat \<Rightarrow> nat) \<Rightarrow> reload \<Rightarrow> dev_cli \<Rightarrow> bool \<times> dev_cli" where
  "reload_commit grow r d =
     (if dc_mode d \<noteq> r_old r then (False, d)
      else (True, rebuildChain grow (d\<lparr>
              dc_grpc := keep_or_new (r_new r) ModeGRPC (r_oldGrpc r) (r_newGrpc r),
              dc_http := keep_or_new (r_new r) ModeHTTP (r_oldHttp r) (r_newHttp r),
              dc_nats := keep_or_new (r_new r) ModeNATS (r_oldNats r) (r_newNats r),
              dc_mode := r_new r\<rparr>)))"

fun close_all :: "client option list \<Rightarrow> dev_cli \<Rightarrow> unit go \<times> dev_cli" where
  "close_all [] d = (Ret (), d)"
| "close_all (c # cs) d =
     (case closeIfPossible c d of
        (Panic p, d') \<Rightarrow> (Panic p, d')
      | (Ret _, d') \<Rightarrow> close_all cs d')"

definition dropped :: "reload \<Rightarrow> push_mode \<Rightarrow> client option \<Rightarrow> client option list" where
  "dropped r m old = (if has_mode (r_old r) m \<and> \<not> has_mode (r_new r) m then [old] else [])"

definition reload_close :: "bool \<Rightarrow> reload \<Rightarrow> dev_cli \<Rightarrow> unit go \<times> dev_cli" where
  "reload_close committed r d =
     (if committed
      then close_all (dropped r ModeGRPC (r_oldGrpc r) @ dropped r ModeHTTP (r_oldHttp r) @
                      dropped r ModeNATS (r_oldNats r)) d
      else close_all [r_newGrpc r, r_newHttp r, r_newNats r] d)"

text \<open>One \<open>Reload\<close> with nothing in between.\<close>

definition Reload ::
  "(nat \<Rightarrow> nat \<Rightarrow> nat) \<Rightarrow> bool \<Rightarrow> bool \<Rightarrow> string \<Rightarrow> dev_cli \<Rightarrow> unit go \<times> dev_cli" where
  "Reload grow mq fails model d =
     (case reload_read (ParseMode model) d of
        None \<Rightarrow> (Ret (), d)
      | Some r \<Rightarrow>
          (let (r', d1) = reload_create mq fails (r, d);
               (committed, d2) = reload_commit grow r' d1
           in reload_close committed r' d2))"

section \<open>The transports behind one interface\<close>

text \<open>
  What the fallback client relies on of a transport: its answers say always or never that the response
  is to be written back, and one that never wants it written back returns no bytes.
\<close>

locale transport =
  fixes push :: "string \<Rightarrow> string \<Rightarrow> 'w \<Rightarrow> push_result go \<times> 'w"
    and responds :: bool
  assumes respond_const: "push c m w = (Ret (resp, sr, e), w') \<Longrightarrow> sr = responds"
    and silent: "\<not> responds \<Longrightarrow> push c m w = (Ret (resp, sr, e), w') \<Longrightarrow> resp = []"
begin

lemma silent_answer: "push c m w = (Ret (resp, False, e), w') \<Longrightarrow> resp = []"
  using respond_const silent by metis

end

text \<open>The three clients seen through the interface; what a client counts is dropped.\<close>

definition http_transport ::
  "(string \<Rightarrow> go_error option) \<Rightarrow> (http_req \<Rightarrow> 'w \<Rightarrow> do_outcome \<times> 'w) \<Rightarrow> string list \<Rightarrow> string
     \<Rightarrow> string \<Rightarrow> string \<Rightarrow> i64 \<times> 'w \<Rightarrow> push_result go \<times> (i64 \<times> 'w)" where
  "http_transport new_request client_do instances service connId message cw =
     (let (r, st) = http_Push new_request client_do instances
                      \<lparr>serviceName = service, counter = fst cw\<rparr> connId message (snd cw)
      in (r, (cnt st, world st)))"

definition grpc_transport ::
  "(string \<Rightarrow> go_error + DeviceConnectReq) \<Rightarrow> (DeviceConnectReq \<Rightarrow> 'w \<Rightarrow> go_error option \<times> 'w) \<Rightarrow>
     ('w \<Rightarrow> go_error option \<times> 'w) \<Rightarrow> string \<Rightarrow> string \<Rightarrow> string \<Rightarrow> 'w \<Rightarrow> push_result go \<times> 'w" where
  "grpc_transport unmarshal connect wait service connId message w =
     (let (r, _, w') = grpc_Push unmarshal connect wait service connId message w in (Ret r, w'))"

definition nats_transport ::
  "go_error \<Rightarrow> (string \<Rightarrow> qmsg \<Rightarrow> 'w \<Rightarrow> go_error option \<times> 'w) \<Rightarrow> ('w \<Rightarrow> go_error option \<times> 'w) \<Rightarrow>
     ('w \<Rightarrow> go_error option \<times> 'w) \<Rightarrow> string \<Rightarrow> nats_cli \<Rightarrow> string \<Rightarrow> string \<Rightarrow> 'w \<Rightarrow> push_result go \<times> 'w" where
  "nats_transport not_connected publish ctx_done wait uuid d connId message w =
     (let (r, _, w') = nats_Push not_connected publish ctx_done wait uuid d connId message w
      in (Ret r, w'))"

lemma http_Push_respond:
  "http_Push nr cd instances d c m w = (Ret (resp, sr, e), st) \<Longrightarrow> sr"
  by (auto simp: http_Push_def split: prod.splits go.splits sum.splits)

lemma grpc_Push_result:
  assumes "grpc_Push unmarshal connect wait service connId message w = ((resp, sr, e), n, w')"
  shows "resp = [] \<and> sr"
proof (cases "unmarshal message")
  case (Inl err)
  then show ?thesis using assms by (auto simp: grpc_Push_def)
next
  case (Inr m)
  then show ?thesis
    using assms
    by (auto simp: grpc_Push_def Let_def dest: grpc_retry_result
        split: prod.splits option.splits if_splits)
qed

lemma nats_Push_result:
  assumes "nats_Push nc publish ctx_done wait uuid d connId message w = ((resp, sr, e), n, w')"
  shows "resp = [] \<and> \<not> sr"
  using assms
  by (auto simp: nats_Push_def dest: nats_loop_result simp del: nats_loop.simps split: if_splits)

interpretation http_tp: transport "http_transport new_request client_do instances service" True
  by unfold_locales
    (auto simp: http_transport_def Let_def dest: http_Push_respond split: prod.splits)

interpretation grpc_tp: transport "grpc_transport unmarshal connect wait service" True
  by unfold_locales
    (auto simp: grpc_transport_def Let_def dest: grpc_Push_result split: prod.splits)

interpretation nats_tp: transport "nats_transport nc publish ctx_done wait uuid d" False
  by unfold_locales
    (auto simp: nats_transport_def Let_def dest: nats_Push_result split: prod.splits)

section \<open>Push\<close>

definition ErrNoClientAvailable :: go_error where
  "ErrNoClientAvailable = TextError ''no client available, check model configuration''"

text \<open>The interface call: the nil queue client reads a field of nil.\<close>

type_synonym 'w client_push = "client \<Rightarrow> string \<Rightarrow> string \<Rightarrow> 'w \<Rightarrow> push_result go \<times> 'w"

definition client_Push ::
  "(nat \<Rightarrow> string \<Rightarrow> string \<Rightarrow> 'w \<Rightarrow> push_result go \<times> 'w) \<Rightarrow>
   (nat \<Rightarrow> string \<Rightarrow> string \<Rightarrow> 'w \<Rightarrow> push_result go \<times> 'w) \<Rightarrow>
   (nat \<Rightarrow> string \<Rightarrow> string \<Rightarrow> 'w \<Rightarrow> push_result go \<times> 'w) \<Rightarrow> 'w client_push" where
  "client_Push grpc_push nats_push http_push c connId message w =
     (case c of
        Grpc i \<Rightarrow> grpc_push i connId message w
      | Nats i \<Rightarrow> nats_push i connId message w
      | Http i \<Rightarrow> http_push i connId message w
      | NatsNil \<Rightarrow> (Panic ''nil pointer dereference'', w))"

text \<open>
  The loop over the chain. The number counts the alarm goroutines it starts: one per failed client, one
  more when all have failed.
\<close>

fun push_chain ::
  "'w client_push \<Rightarrow> string \<Rightarrow> string \<Rightarrow> client option list \<Rightarrow> go_error option \<Rightarrow> nat \<Rightarrow> 'w
     \<Rightarrow> push_result go \<times> nat \<times> 'w" where
  "push_chain push connId message [] lastErr alarms w = (Ret ([], False, lastErr), Suc alarms, w)"
| "push_chain push connId message (None # cs) lastErr alarms w =
     (Panic ''nil pointer dereference'', alarms, w)"
| "push_chain push connId message (Some c # cs) lastErr alarms w =
     (case push c connId message w of
        (Panic p, w') \<Rightarrow> (Panic p, alarms, w')
      | (Ret (resp, shouldRespond, None), w') \<Rightarrow> (Ret (resp, shouldRespond, None), alarms, w')
      | (Ret (_, _, Some e), w') \<Rightarrow> push_chain push connId message cs (Some e) (Suc alarms) w')"

definition dc_Push ::
  "'w client_push \<Rightarrow> string \<Rightarrow> string \<Rightarrow> dev_cli \<Rightarrow> 'w \<Rightarrow> push_result go \<times> nat \<times> 'w" where
  "dc_Push push connId message d w =
     (let chain = slice_read (dc_chain d) (dc_store d) in
      if chain = [] then (Ret ([], False, Some ErrNoClientAvailable), 0, w)
      else push_chain push connId message chain None 0 w)"

text \<open>
  \<open>Information\<close>: \<open>show\<close> is how a client is printed; the nil interface and the nil pointer print alike. And
  the information of one client, which its message log asks for.
\<close>

definition show_client :: "(client \<Rightarrow> string) \<Rightarrow> client option \<Rightarrow> string" where
  "show_client show c = (case c of None \<Rightarrow> ''<nil>'' | Some NatsNil \<Rightarrow> ''<nil>'' | Some x \<Rightarrow> show x)"

definition dc_Information :: "(client \<Rightarrow> string) \<Rightarrow> dev_cli \<Rightarrow> string" where
  "dc_Information show d =
     ''mode: '' @ itoa (uint (dc_mode d)) @ '', grpc: '' @ show_client show (dc_grpc d) @
     '', http: '' @ show_client show (dc_http d) @ '', nats: '' @ show_client show (dc_nats d)"

definition client_Information ::
  "(nat \<Rightarrow> grpc_cli) \<Rightarrow> (nat \<Rightarrow> nats_cli) \<Rightarrow> (nat \<Rightarrow> http_cli) \<Rightarrow> client \<Rightarrow> string go" where
  "client_Information grpc nats http c =
     (case c of
        Grpc i \<Rightarrow> Ret (grpc_Information (grpc i))
      | Nats i \<Rightarrow> Ret (nats_Information (nats i))
      | Http i \<Rightarrow> Ret (http_Information (http i))
      | NatsNil \<Rightarrow> Panic ''nil pointer dereference'')"

text \<open>The text of an alarm: the error variable is read when the goroutine runs.\<close>

definition alarm_text :: "string \<Rightarrow> go_error \<Rightarrow> string \<Rightarrow> string" where
  "alarm_text connId lastErr information =
     ''connId: '' @ connId @ '' [deviceCli] all clients push failed: '' @ Error lastErr @ information"

text \<open>
  The reference: pushing to clients that all fail gives their last error and the world after them, and
  is undefined when one of them does not fail.
\<close>

fun all_fail ::
  "'w client_push \<Rightarrow> string \<Rightarrow> string \<Rightarrow> client list \<Rightarrow> go_error option \<Rightarrow> 'w
     \<Rightarrow> (go_error option \<times> 'w) option" where
  "all_fail push connId message [] e w = Some (e, w)"
| "all_fail push connId message (c # cs) e w =
     (case push c connId message w of
        (Ret (_, _, Some e'), w') \<Rightarrow> all_fail push connId message cs (Some e') w'
      | _ \<Rightarrow> None)"

lemma all_fail_error:
  "all_fail push connId message cs e w = Some (e', w') \<Longrightarrow> cs \<noteq> [] \<or> e \<noteq> None \<Longrightarrow> e' \<noteq> None"
  by (induction cs arbitrary: e w) (auto split: prod.splits go.splits option.splits)

lemma push_chain_cases:
  assumes "push_chain push connId message (map Some cs) e k w = (Ret (resp, sr, err), n, w')"
  shows "(case err of
       None \<Rightarrow> (\<exists>us c vs e1 w1. cs = us @ c # vs \<and> n = k + length us \<and>
                 all_fail push connId message us e w = Some (e1, w1) \<and>
                 push c connId message w1 = (Ret (resp, sr, None), w')) \<or> (cs = [] \<and> e = None)
     | Some err' \<Rightarrow> all_fail push connId message cs e w = Some (Some err', w') \<and>
                 resp = [] \<and> \<not> sr \<and> n = Suc (k + length cs))"
  using assms
proof (induction cs arbitrary: e k w)
  case Nil
  then show ?case by (auto split: option.split)
next
  case (Cons c cs)
  obtain r w1 where P: "push c connId message w = (r, w1)" by (cases "push c connId message w")
  with Cons.prems obtain resp1 sr1 e1 where r: "r = Ret (resp1, sr1, e1)"
    by (cases r) auto
  show ?case
  proof (cases e1)
    case None
    then have "resp = resp1" "sr = sr1" "err = None" "n = k" "w' = w1" using Cons.prems P r by auto
    then have "c # cs = [] @ c # cs \<and> n = k + length ([]::client list) \<and>
        all_fail push connId message [] e w = Some (e, w) \<and>
        push c connId message w = (Ret (resp, sr, None), w')"
      using P r None by simp
    then show ?thesis unfolding \<open>err = None\<close> option.case by (intro disjI1 exI)
  next
    case (Some err1)
    then have R: "push_chain push connId message (map Some cs) (Some err1) (Suc k) w1
        = (Ret (resp, sr, err), n, w')"
      using Cons.prems P r by simp
    have step: "all_fail push connId message (c # us) e w = all_fail push connId message us (Some err1) w1" for us
      using P r Some by simp
    from Cons.IH [OF R] show ?thesis
    proof (cases err)
      case None
      with Cons.IH [OF R] obtain us c' vs e2 w2 where "cs = us @ c' # vs" "n = Suc k + length us"
        "all_fail push connId message us (Some err1) w1 = Some (e2, w2)"
        "push c' connId message w2 = (Ret (resp, sr, None), w')" by auto
      then have "c # cs = (c # us) @ c' # vs \<and> n = k + length (c # us) \<and>
          all_fail push connId message (c # us) e w = Some (e2, w2) \<and>
          push c' connId message w2 = (Ret (resp, sr, None), w')" using step by simp
      then show ?thesis unfolding None option.case by (intro disjI1 exI)
    next
      case (Some err')
      then show ?thesis using Cons.IH [OF R] step by simp
    qed
  qed
qed

section \<open>Every interleaving of reloads\<close>

definition opt_list :: "'a option \<Rightarrow> 'a list" where
  "opt_list x = (case x of None \<Rightarrow> [] | Some y \<Rightarrow> [y])"

lemma opt_list_simps [simp]: "opt_list None = []" "opt_list (Some x) = [x]"
  by (simp_all add: opt_list_def)

lemma opt_list_Nil_iff [simp]: "opt_list x = [] \<longleftrightarrow> x = None"
  by (cases x) simp_all

text \<open>The priority order gRPC, NATS, HTTP of the clients a state has.\<close>

definition by_priority :: "dev_cli \<Rightarrow> client list" where
  "by_priority d = opt_list (dc_grpc d) @ opt_list (dc_nats d) @ opt_list (dc_http d)"

definition chain_of :: "dev_cli \<Rightarrow> client option list" where
  "chain_of d = slice_read (dc_chain d) (dc_store d)"

definition fields_inv ::
  "bool \<Rightarrow> push_mode \<Rightarrow> client option \<Rightarrow> client option \<Rightarrow> client option \<Rightarrow> bool" where
  "fields_inv mq mode g h n \<longleftrightarrow>
     (g \<noteq> None \<longleftrightarrow> has_mode mode ModeGRPC) \<and> (h \<noteq> None \<longleftrightarrow> has_mode mode ModeHTTP) \<and>
     (n \<noteq> None \<longrightarrow> has_mode mode ModeNATS \<and> mq) \<and>
     (\<forall>c. g = Some c \<longrightarrow> (\<exists>i. c = Grpc i)) \<and> (\<forall>c. h = Some c \<longrightarrow> (\<exists>i. c = Http i)) \<and>
     (\<forall>c. n = Some c \<longrightarrow> c = NatsNil \<or> (\<exists>i. c = Nats i))"

definition dc_inv :: "bool \<Rightarrow> dev_cli \<Rightarrow> bool" where
  "dc_inv mq d \<longleftrightarrow>
     slice_ok (dc_chain d) (dc_store d) \<and> chain_of d = map Some (by_priority d) \<and>
     fields_inv mq (dc_mode d) (dc_grpc d) (dc_http d) (dc_nats d)"

lemma append_present_spec:
  assumes "grows grow" and "slice_ok (fst sh) (snd sh)"
  shows "slice_ok (fst (append_present grow c sh)) (snd (append_present grow c sh)) \<and>
     slice_read (fst (append_present grow c sh)) (snd (append_present grow c sh)) =
       slice_read (fst sh) (snd sh) @ map Some (opt_list c)"
  using assms slice_append_spec [where s = "fst sh" and h = "snd sh"]
  by (cases c; cases sh) (auto simp: append_present_def prod_eq_iff)

lemma rebuildChain_spec:
  assumes "grows grow" and "slice_ok (dc_chain d) (dc_store d)"
  shows "slice_ok (dc_chain (rebuildChain grow d)) (dc_store (rebuildChain grow d))"
    and "chain_of (rebuildChain grow d) = map Some (by_priority d)"
proof -
  let ?sh0 = "((dc_chain d)\<lparr>s_len := 0\<rparr>, dc_store d)"
  let ?sh1 = "append_present grow (dc_grpc d) ?sh0"
  let ?sh2 = "append_present grow (dc_nats d) ?sh1"
  let ?sh3 = "append_present grow (dc_http d) ?sh2"
  have 0: "slice_ok (fst ?sh0) (snd ?sh0)" "slice_read (fst ?sh0) (snd ?sh0) = []"
    using assms(2) by (simp_all add: slice_ok_def slice_read_def)
  note 1 = append_present_spec [OF assms(1) 0(1), of "dc_grpc d"]
  note 2 = append_present_spec [OF assms(1) conjunct1 [OF 1], of "dc_nats d"]
  note 3 = append_present_spec [OF assms(1) conjunct1 [OF 2], of "dc_http d"]
  have "slice_ok (fst ?sh3) (snd ?sh3)" using 3 by blast
  moreover have "slice_read (fst ?sh3) (snd ?sh3) = map Some (by_priority d)"
    using 0 1 2 3 by (simp add: by_priority_def)
  moreover have "dc_chain (rebuildChain grow d) = fst ?sh3" "dc_store (rebuildChain grow d) = snd ?sh3"
    by (simp_all add: rebuildChain_def Let_def)
  ultimately show "slice_ok (dc_chain (rebuildChain grow d)) (dc_store (rebuildChain grow d))"
    and "chain_of (rebuildChain grow d) = map Some (by_priority d)"
    by (simp_all add: chain_of_def)
qed

lemma rebuildChain_fields [simp]:
  "dc_mode (rebuildChain grow d) = dc_mode d" "dc_grpc (rebuildChain grow d) = dc_grpc d"
  "dc_http (rebuildChain grow d) = dc_http d" "dc_nats (rebuildChain grow d) = dc_nats d"
  "dc_closed (rebuildChain grow d) = dc_closed d" "dc_next (rebuildChain grow d) = dc_next d"
  "by_priority (rebuildChain grow d) = by_priority d"
  by (simp_all add: rebuildChain_def Let_def by_priority_def)

lemma dc_inv_rebuildChain:
  assumes "grows grow" and "slice_ok (dc_chain d) (dc_store d)"
    and "fields_inv mq (dc_mode d) (dc_grpc d) (dc_http d) (dc_nats d)"
  shows "dc_inv mq (rebuildChain grow d)"
  using assms rebuildChain_spec [OF assms(1,2)] by (simp add: dc_inv_def)

lemmas new_client_defs = new_grpc_def new_http_def new_nats_def

lemma dc_inv_NewDeviceCli [inv_intros]: "grows grow \<Longrightarrow> dc_inv mq (NewDeviceCli grow mq fails model)"
  unfolding NewDeviceCli_def initLocked_def Let_def
  by (rule dc_inv_rebuildChain) (auto simp: fields_inv_def new_client_defs zero_cli_def)

lemma closeIfPossible_fields:
  "\<exists>cl. snd (closeIfPossible c d) = d\<lparr>dc_closed := cl\<rparr>"
  by (auto simp: closeIfPossible_def split: option.splits client.splits)
    (metis dev_cli.surjective dev_cli.update_convs(8))+

lemma close_all_fields: "\<exists>cl. snd (close_all cs d) = d\<lparr>dc_closed := cl\<rparr>"
proof (induction cs arbitrary: d)
  case Nil
  have "d = d\<lparr>dc_closed := dc_closed d\<rparr>" by simp
  then show ?case by (metis close_all.simps(1) snd_conv)
next
  case (Cons c cs)
  obtain cl where "snd (closeIfPossible c d) = d\<lparr>dc_closed := cl\<rparr>" using closeIfPossible_fields by blast
  then obtain r where C: "closeIfPossible c d = (r, d\<lparr>dc_closed := cl\<rparr>)"
    by (cases "closeIfPossible c d") simp
  show ?case using C Cons.IH [of "d\<lparr>dc_closed := cl\<rparr>"] by (cases r) auto
qed

lemma reload_close_fields: "\<exists>cl. snd (reload_close b r d) = d\<lparr>dc_closed := cl\<rparr>"
  unfolding reload_close_def by (cases b) (simp_all only: if_True if_False close_all_fields)

lemma dc_inv_update [simp]:
  "dc_inv mq (d\<lparr>dc_closed := cl\<rparr>) = dc_inv mq d" "dc_inv mq (d\<lparr>dc_next := i\<rparr>) = dc_inv mq d"
  by (simp_all add: dc_inv_def chain_of_def by_priority_def)

text \<open>A reload that has read the state; \<open>made\<close> says that it has created its clients.\<close>

definition pending_ok :: "bool \<Rightarrow> bool \<Rightarrow> reload \<Rightarrow> bool" where
  "pending_ok mq made r \<longleftrightarrow>
     fields_inv mq (r_old r) (r_oldGrpc r) (r_oldHttp r) (r_oldNats r) \<and>
     (if made
      then fields_inv mq (r_new r) (keep_or_new (r_new r) ModeGRPC (r_oldGrpc r) (r_newGrpc r))
             (keep_or_new (r_new r) ModeHTTP (r_oldHttp r) (r_newHttp r))
             (keep_or_new (r_new r) ModeNATS (r_oldNats r) (r_newNats r))
      else r_newGrpc r = None \<and> r_newHttp r = None \<and> r_newNats r = None)"

lemma reload_read_ok:
  "dc_inv mq d \<Longrightarrow> reload_read m d = Some r \<Longrightarrow> pending_ok mq False r"
  by (auto simp: reload_read_def dc_inv_def pending_ok_def split: if_splits)

lemma create_grpc_spec:
  "\<exists>i j. create_grpc (r, d) =
     (r\<lparr>r_newGrpc := if has_mode (r_new r) ModeGRPC \<and> r_oldGrpc r = None then Some (Grpc i)
                     else r_newGrpc r\<rparr>, d\<lparr>dc_next := j\<rparr>)"
  by (rule exI [of _ "dc_next d"], rule exI [of _ "dc_next (snd (create_grpc (r, d)))"])
    (simp add: create_grpc_def new_grpc_def)

lemma create_http_spec:
  "\<exists>i j. create_http (r, d) =
     (r\<lparr>r_newHttp := if has_mode (r_new r) ModeHTTP \<and> r_oldHttp r = None then Some (Http i)
                     else r_newHttp r\<rparr>, d\<lparr>dc_next := j\<rparr>)"
  by (rule exI [of _ "dc_next d"], rule exI [of _ "dc_next (snd (create_http (r, d)))"])
    (simp add: create_http_def new_http_def)

lemma create_nats_spec:
  "\<exists>i j. create_nats mq fails (r, d) =
     (r\<lparr>r_newNats := if has_mode (r_new r) ModeNATS \<and> r_oldNats r = None \<and> mq
                     then Some (if fails then NatsNil else Nats i) else r_newNats r\<rparr>, d\<lparr>dc_next := j\<rparr>)"
  by (rule exI [of _ "dc_next d"], rule exI [of _ "dc_next (snd (create_nats mq fails (r, d)))"])
    (simp add: create_nats_def new_nats_def)

lemma reload_create_fields:
  assumes "reload_create mq fails (r, d) = (r', d')"
  shows "r_new r' = r_new r" "r_old r' = r_old r"
    "r_oldGrpc r' = r_oldGrpc r" "r_oldHttp r' = r_oldHttp r" "r_oldNats r' = r_oldNats r"
    "\<exists>i. r_newGrpc r' = (if has_mode (r_new r) ModeGRPC \<and> r_oldGrpc r = None then Some (Grpc i) else r_newGrpc r)"
    "\<exists>i. r_newHttp r' = (if has_mode (r_new r) ModeHTTP \<and> r_oldHttp r = None then Some (Http i) else r_newHttp r)"
    "\<exists>i. r_newNats r' = (if has_mode (r_new r) ModeNATS \<and> r_oldNats r = None \<and> mq
                      then Some (if fails then NatsNil else Nats i) else r_newNats r)"
    "\<exists>i. d' = d\<lparr>dc_next := i\<rparr>"
proof -
  obtain i j where 1: "create_grpc (r, d) =
     (r\<lparr>r_newGrpc := if has_mode (r_new r) ModeGRPC \<and> r_oldGrpc r = None then Some (Grpc i)
                     else r_newGrpc r\<rparr>, d\<lparr>dc_next := j\<rparr>)" (is "_ = (?r1, ?d1)")
    using create_grpc_spec by blast
  obtain i' j' where 2: "create_http (?r1, ?d1) =
     (?r1\<lparr>r_newHttp := if has_mode (r_new ?r1) ModeHTTP \<and> r_oldHttp ?r1 = None then Some (Http i')
                     else r_newHttp ?r1\<rparr>, ?d1\<lparr>dc_next := j'\<rparr>)" (is "_ = (?r2, ?d2)")
    using create_http_spec by blast
  obtain i'' j'' where 3: "create_nats mq fails (?r2, ?d2) =
     (?r2\<lparr>r_newNats := if has_mode (r_new ?r2) ModeNATS \<and> r_oldNats ?r2 = None \<and> mq
                     then Some (if fails then NatsNil else Nats i'') else r_newNats ?r2\<rparr>,
      ?d2\<lparr>dc_next := j''\<rparr>)"
    using create_nats_spec by blast
  have R: "r' = r\<lparr>
     r_newGrpc := if has_mode (r_new r) ModeGRPC \<and> r_oldGrpc r = None then Some (Grpc i) else r_newGrpc r,
     r_newHttp := if has_mode (r_new r) ModeHTTP \<and> r_oldHttp r = None then Some (Http i') else r_newHttp r,
     r_newNats := if has_mode (r_new r) ModeNATS \<and> r_oldNats r = None \<and> mq
                  then Some (if fails then NatsNil else Nats i'') else r_newNats r\<rparr>"
    and D: "d' = d\<lparr>dc_next := j''\<rparr>"
    using assms unfolding reload_create_def 1 2 3 by (auto split del: if_split cong del: if_weak_cong)
  show "r_new r' = r_new r" "r_old r' = r_old r"
    "r_oldGrpc r' = r_oldGrpc r" "r_oldHttp r' = r_oldHttp r" "r_oldNats r' = r_oldNats r"
    unfolding R by simp_all
  show "\<exists>i. r_newGrpc r' = (if has_mode (r_new r) ModeGRPC \<and> r_oldGrpc r = None then Some (Grpc i) else r_newGrpc r)"
    unfolding R by (rule exI [of _ i]) simp
  show "\<exists>i. r_newHttp r' = (if has_mode (r_new r) ModeHTTP \<and> r_oldHttp r = None then Some (Http i) else r_newHttp r)"
    unfolding R by (rule exI [of _ i']) simp
  show "\<exists>i. r_newNats r' = (if has_mode (r_new r) ModeNATS \<and> r_oldNats r = None \<and> mq
                      then Some (if fails then NatsNil else Nats i) else r_newNats r)"
    unfolding R by (rule exI [of _ i'']) simp
  show "\<exists>i. d' = d\<lparr>dc_next := i\<rparr>" using D by blast
qed

lemma reload_create_ok:
  assumes "pending_ok mq False r" and "reload_create mq fails (r, d) = (r', d')"
  shows "pending_ok mq True r' \<and> (\<exists>i. d' = d\<lparr>dc_next := i\<rparr>)"
proof -
  note F = reload_create_fields [OF assms(2)]
  have none: "r_newGrpc r = None" "r_newHttp r = None" "r_newNats r = None"
    and old: "fields_inv mq (r_old r) (r_oldGrpc r) (r_oldHttp r) (r_oldNats r)"
    using assms(1) by (simp_all add: pending_ok_def)
  obtain i where i: "r_newGrpc r' =
      (if has_mode (r_new r) ModeGRPC \<and> r_oldGrpc r = None then Some (Grpc i) else None)"
    using F(6) none by metis
  obtain j where j: "r_newHttp r' =
      (if has_mode (r_new r) ModeHTTP \<and> r_oldHttp r = None then Some (Http j) else None)"
    using F(7) none by metis
  obtain k where k: "r_newNats r' = (if has_mode (r_new r) ModeNATS \<and> r_oldNats r = None \<and> mq
      then Some (if fails then NatsNil else Nats k) else None)"
    using F(8) none by metis
  have "fields_inv mq (r_new r) (keep_or_new (r_new r) ModeGRPC (r_oldGrpc r) (r_newGrpc r'))
             (keep_or_new (r_new r) ModeHTTP (r_oldHttp r) (r_newHttp r'))
             (keep_or_new (r_new r) ModeNATS (r_oldNats r) (r_newNats r'))"
    using old unfolding i j k fields_inv_def keep_or_new_def by (auto split: if_splits)
  then show ?thesis using old F(9) by (simp add: pending_ok_def F(1-5))
qed

lemma reload_commit_inv:
  assumes "grows grow" and "dc_inv mq d" and "pending_ok mq True r"
    and "reload_commit grow r d = (b, d')"
  shows "dc_inv mq d'"
proof (cases "dc_mode d = r_old r")
  case False
  then show ?thesis using assms by (simp add: reload_commit_def)
next
  case True
  then show ?thesis
    using assms by (auto simp: reload_commit_def pending_ok_def dc_inv_def [of mq d]
        intro!: dc_inv_rebuildChain)
qed

text \<open>
  The system: the client, the reloads between their phases and the pushes between two of their calls. A
  push holds the slice it took under the read lock.
\<close>

record dc_sys =
  sys_cli :: dev_cli
  begun :: "reload list"
  made :: "reload list"
  finishing :: "(bool \<times> reload) list"
  snapshots :: "slice list"

inductive dc_step :: "(nat \<Rightarrow> nat \<Rightarrow> nat) \<Rightarrow> bool \<Rightarrow> dc_sys \<Rightarrow> dc_sys \<Rightarrow> bool"
  for grow mq where
  read: "reload_read (ParseMode model) (sys_cli s) = Some r \<Longrightarrow>
     dc_step grow mq s (s\<lparr>begun := r # begun s\<rparr>)"
| create: "r \<in> set (begun s) \<Longrightarrow> reload_create mq fails (r, sys_cli s) = (r', d') \<Longrightarrow>
     dc_step grow mq s (s\<lparr>sys_cli := d', begun := remove1 r (begun s), made := r' # made s\<rparr>)"
| commit: "r \<in> set (made s) \<Longrightarrow> reload_commit grow r (sys_cli s) = (b, d') \<Longrightarrow>
     dc_step grow mq s (s\<lparr>sys_cli := d', made := remove1 r (made s), finishing := (b, r) # finishing s\<rparr>)"
| finish: "(b, r) \<in> set (finishing s) \<Longrightarrow> reload_close b r (sys_cli s) = (res, d') \<Longrightarrow>
     dc_step grow mq s (s\<lparr>sys_cli := d', finishing := remove1 (b, r) (finishing s)\<rparr>)"
| push: "dc_step grow mq s (s\<lparr>snapshots := dc_chain (sys_cli s) # snapshots s\<rparr>)"

inductive dc_reachable :: "(nat \<Rightarrow> nat \<Rightarrow> nat) \<Rightarrow> bool \<Rightarrow> dc_sys \<Rightarrow> bool"
  for grow mq where
  start: "dc_reachable grow mq \<lparr>sys_cli = NewDeviceCli grow mq fails model, begun = [], made = [],
     finishing = [], snapshots = []\<rparr>"
| step: "dc_reachable grow mq s \<Longrightarrow> dc_step grow mq s s' \<Longrightarrow> dc_reachable grow mq s'"

inductive_cases dc_stepE: "dc_step grow mq s s'"

definition dc_sys_inv :: "bool \<Rightarrow> dc_sys \<Rightarrow> bool" where
  "dc_sys_inv mq s \<longleftrightarrow>
     dc_inv mq (sys_cli s) \<and> list_all (pending_ok mq False) (begun s) \<and> list_all (pending_ok mq True) (made s)"

lemma list_all_remove1: "list_all P xs \<Longrightarrow> list_all P (remove1 x xs)"
  by (auto simp: list_all_iff dest: notin_set_remove1 [THEN contrapos_nn, rotated])

lemma dc_step_inv [inv_intros]:
  assumes "grows grow" and "dc_step grow mq s s'" and "dc_sys_inv mq s"
  shows "dc_sys_inv mq s'"
  using assms(2,3)
proof (cases rule: dc_step.cases)
  case (read model r)
  then show ?thesis using assms(3) by (auto simp: dc_sys_inv_def intro: reload_read_ok)
next
  case (create r fails r' d')
  then have "pending_ok mq False r" using assms(3) by (auto simp: dc_sys_inv_def list_all_iff)
  from reload_create_ok [OF this create(3)] show ?thesis
    using create assms(3) by (auto simp: dc_sys_inv_def list_all_remove1)
next
  case (commit r b d')
  then have "pending_ok mq True r" using assms(3) by (auto simp: dc_sys_inv_def list_all_iff)
  with reload_commit_inv [OF assms(1) _ this commit(3)] show ?thesis
    using commit assms(3) by (auto simp: dc_sys_inv_def list_all_remove1)
next
  case (finish b r res d')
  then show ?thesis
    using assms(3) reload_close_fields [of b r "sys_cli s"] by (auto simp: dc_sys_inv_def)
next
  case push
  then show ?thesis using assms(3) by (simp add: dc_sys_inv_def)
qed

lemma dc_reachable_inv:
  assumes "dc_reachable grow mq s" and "grows grow"
  shows "dc_sys_inv mq s"
  using assms
proof (induction rule: dc_reachable.induct)
  case (start fails model)
  then show ?case by (simp add: dc_sys_inv_def dc_inv_NewDeviceCli)
next
  case (step s s')
  then show ?case using dc_step_inv by blast
qed

section \<open>What the fallback client guarantees\<close>

text \<open>
  C5. Whatever reloads and pushes are interleaved, in every reachable state the chain holds exactly the
  clients the state has, in the order gRPC, NATS, HTTP; a gRPC or HTTP client is there exactly when the
  mode has its bit, and a NATS client only when the mode has its bit and a queue is configured.
\<close>

theorem reload_keeps_chain:
  assumes "grows grow" and "dc_reachable grow mq s"
  shows "chain_of (sys_cli s) = map Some (by_priority (sys_cli s)) \<and>
     (dc_grpc (sys_cli s) \<noteq> None \<longleftrightarrow> has_mode (dc_mode (sys_cli s)) ModeGRPC) \<and>
     (dc_http (sys_cli s) \<noteq> None \<longleftrightarrow> has_mode (dc_mode (sys_cli s)) ModeHTTP) \<and>
     (dc_nats (sys_cli s) = None \<or> has_mode (dc_mode (sys_cli s)) ModeNATS \<and> mq)"
  using dc_reachable_inv [OF assms(2,1)] by (auto simp: dc_sys_inv_def dc_inv_def fields_inv_def)

text \<open>The smallest runtime: a slice grows to exactly what it needs.\<close>

definition exact_grow :: "nat \<Rightarrow> nat \<Rightarrow> nat" where
  "exact_grow c n = n"

lemma grows_exact [simp]: "grows exact_grow"
  by (simp add: grows_def exact_grow_def)

text \<open>A client of each mode the examples use.\<close>

lemma mode_words:
  "ParseMode ''http'' = 1" "ParseMode ''grpc'' = 2" "ParseMode ''nats'' = 4"
  "ParseMode ''nats,http'' = 5" "ParseMode ''grpc,http'' = 3"
  by (code_simp+)

lemma bit_words [simp]:
  "has_mode 1 ModeHTTP" "\<not> has_mode 1 ModeGRPC" "\<not> has_mode 1 ModeNATS"
  "\<not> has_mode 2 ModeHTTP" "has_mode 2 ModeGRPC" "\<not> has_mode 2 ModeNATS"
  "has_mode 3 ModeHTTP" "has_mode 3 ModeGRPC" "\<not> has_mode 3 ModeNATS"
  "\<not> has_mode 4 ModeHTTP" "\<not> has_mode 4 ModeGRPC" "has_mode 4 ModeNATS"
  "has_mode 5 ModeHTTP" "\<not> has_mode 5 ModeGRPC" "has_mode 5 ModeNATS"
  by (simp_all add: has_mode_def ModeHTTP_def ModeGRPC_def ModeNATS_def)

definition start_sys :: "string \<Rightarrow> dc_sys" where
  "start_sys model = \<lparr>sys_cli = NewDeviceCli exact_grow True False model, begun = [], made = [],
     finishing = [], snapshots = []\<rparr>"

lemma start_sys_reachable: "dc_reachable exact_grow True (start_sys model)"
  unfolding start_sys_def by (rule dc_reachable.start)

theorem reload_keeps_chain_witness:
  "dc_reachable exact_grow True (start_sys ''grpc,http'') \<and>
   chain_of (sys_cli (start_sys ''grpc,http'')) = [Some (Grpc 0), Some (Http 1)]"
proof -
  have "by_priority (sys_cli (start_sys ''grpc,http'')) = [Grpc 0, Http 1]"
    by (simp add: start_sys_def NewDeviceCli_def initLocked_def mode_words Let_def new_client_defs
        zero_cli_def)
      (simp add: by_priority_def)
  with reload_keeps_chain [OF grows_exact start_sys_reachable, of "''grpc,http''"]
  show ?thesis by (simp add: start_sys_reachable)
qed

text \<open>
  C6. Fallback: on a reachable client, a push that ends without panic ended with the answer of the first
  client of the priority order that did not fail, after every client before it had failed, one alarm
  each; or no client is there and the error says so; or every client failed, the error is the last one's,
  no response is to be written and one alarm more is raised.
\<close>

theorem dc_Push_first_success:
  assumes "grows grow" and "dc_reachable grow mq s"
    and "dc_Push push connId message (sys_cli s) w = (Ret (resp, respond, err), alarms, w')"
  shows "case err of
       None \<Rightarrow> \<exists>us c vs e w1. by_priority (sys_cli s) = us @ c # vs \<and> alarms = length us \<and>
         all_fail push connId message us None w = Some (e, w1) \<and>
         push c connId message w1 = (Ret (resp, respond, None), w')
     | Some e \<Rightarrow> resp = [] \<and> \<not> respond \<and>
         (if by_priority (sys_cli s) = [] then e = ErrNoClientAvailable \<and> alarms = 0 \<and> w' = w
          else all_fail push connId message (by_priority (sys_cli s)) None w = Some (Some e, w') \<and>
               alarms = Suc (length (by_priority (sys_cli s))))"
proof -
  let ?cs = "by_priority (sys_cli s)"
  have chain: "slice_read (dc_chain (sys_cli s)) (dc_store (sys_cli s)) = map Some ?cs"
    using dc_reachable_inv [OF assms(2,1)] by (simp add: dc_sys_inv_def dc_inv_def chain_of_def)
  show ?thesis
  proof (cases "?cs = []")
    case True
    then show ?thesis using assms(3) chain by (auto simp: dc_Push_def)
  next
    case False
    then have "push_chain push connId message (map Some ?cs) None 0 w = (Ret (resp, respond, err), alarms, w')"
      using assms(3) chain by (simp add: dc_Push_def Let_def)
    from push_chain_cases [OF this] False show ?thesis by (cases err) simp_all
  qed
qed

definition demo_push :: "nat client_push" where
  "demo_push = client_Push (\<lambda>_ _ _ w. (Ret ([], True, Some (LibError OtherLib ''down'')), Suc w))
     (\<lambda>_ _ _ w. (Ret ([], False, None), Suc w)) (\<lambda>_ _ m w. (Ret (m, True, None), Suc w))"

text \<open>gRPC is down: the second client answers, after one alarm.\<close>

theorem dc_Push_first_success_witness:
  "\<exists>us c vs. by_priority (sys_cli (start_sys ''grpc,http'')) = us @ c # vs \<and> length us = 1 \<and>
     dc_Push demo_push ''d1'' ''m'' (sys_cli (start_sys ''grpc,http'')) 0 = (Ret (''m'', True, None), 1, 2)"
proof -
  have p: "by_priority (sys_cli (start_sys ''grpc,http'')) = [Grpc 0, Http 1]"
    by (simp add: start_sys_def NewDeviceCli_def initLocked_def mode_words Let_def new_client_defs
        zero_cli_def)
      (simp add: by_priority_def)
  have "chain_of (sys_cli (start_sys ''grpc,http'')) = map Some [Grpc 0, Http 1]"
    using dc_reachable_inv [OF start_sys_reachable grows_exact] p
    by (simp add: dc_sys_inv_def dc_inv_def)
  then have r: "dc_Push demo_push ''d1'' ''m'' (sys_cli (start_sys ''grpc,http'')) 0
      = (Ret (''m'', True, None), 1, 2)"
    by (simp add: dc_Push_def chain_of_def demo_push_def client_Push_def)
  from dc_Push_first_success [OF grows_exact start_sys_reachable r] obtain us c vs where
    "by_priority (sys_cli (start_sys ''grpc,http'')) = us @ c # vs" and "length us = 1" by auto
  then show ?thesis using r by blast
qed

lemma reload_commit_same_mode:
  "dc_mode d = r_old r \<Longrightarrow> reload_commit grow r d =
     (True, rebuildChain grow (d\<lparr>
        dc_grpc := keep_or_new (r_new r) ModeGRPC (r_oldGrpc r) (r_newGrpc r),
        dc_http := keep_or_new (r_new r) ModeHTTP (r_oldHttp r) (r_newHttp r),
        dc_nats := keep_or_new (r_new r) ModeNATS (r_oldNats r) (r_newNats r),
        dc_mode := r_new r\<rparr>))"
  by (simp add: reload_commit_def)

text \<open>
  A reload that cannot create its queue client installs it all the same: the constructor's nil
  pointer becomes a non-nil interface value, so the state after the reload holds it, and when the new mode
  has no gRPC client before it every push panics instead of falling back to HTTP.
\<close>

theorem failed_nats_reload_panics:
  assumes "grows grow" and "dc_inv True d" and "dc_nats d = None" and "ParseMode model \<noteq> dc_mode d"
    and "''nats'' \<in> tokens model" and "''grpc'' \<notin> tokens model"
  shows "dc_nats (snd (Reload grow True True model d)) = Some NatsNil \<and>
     is_panic (fst (dc_Push (client_Push g n h) connId message (snd (Reload grow True True model d)) w))"
proof -
  let ?m = "ParseMode model"
  have nats: "has_mode ?m ModeNATS" and no_grpc: "\<not> has_mode ?m ModeGRPC"
    using ParseMode_mode_bits assms(5,6) by blast+
  obtain r where r: "reload_read ?m d = Some r" and rn: "r_new r = ?m" "r_old r = dc_mode d"
    "r_oldNats r = None"
    using assms(3,4) by (simp add: reload_read_def)
  obtain r' d1 where c: "reload_create True True (r, d) = (r', d1)"
    by (cases "reload_create True True (r, d)")
  note F = reload_create_fields [OF c]
  obtain i where d1: "d1 = d\<lparr>dc_next := i\<rparr>" using F(9) by blast
  have ok: "pending_ok True True r'"
    using reload_create_ok [OF reload_read_ok [OF assms(2) r] c] by blast
  obtain b d2 where cm: "reload_commit grow r' d1 = (b, d2)" by (cases "reload_commit grow r' d1")
  have b: "b" and n2: "dc_nats d2 = Some NatsNil" and m2: "dc_mode d2 = ?m"
    using cm F(1-5,8) nats rn d1 by (auto simp: reload_commit_def keep_or_new_def)
  have inv: "dc_inv True d2"
    using reload_commit_inv [OF assms(1) _ ok cm] assms(2) d1 by simp
  obtain cl where cl: "snd (Reload grow True True model d) = d2\<lparr>dc_closed := cl\<rparr>"
    using r c cm b reload_close_fields [of True r' d2] by (auto simp: Reload_def)
  have "dc_grpc d2 = None" using inv no_grpc m2 by (simp add: dc_inv_def fields_inv_def)
  with n2 have "\<exists>cs. by_priority d2 = NatsNil # cs" by (simp add: by_priority_def)
  with inv obtain cs where "slice_read (dc_chain d2) (dc_store d2) = Some NatsNil # cs"
    by (auto simp: dc_inv_def chain_of_def)
  then show ?thesis using n2 unfolding cl by (simp add: dc_Push_def client_Push_def)
qed

theorem failed_nats_reload_panics_witness:
  "is_panic (fst (dc_Push demo_push ''d1'' ''m''
     (snd (Reload exact_grow True True ''nats,http'' (NewDeviceCli exact_grow True False ''http''))) 0))"
proof -
  have t: "tokens ''nats,http'' = {''nats'', ''http''}" by code_simp
  have d: "dc_nats (NewDeviceCli exact_grow True False ''http'') = None"
    "dc_mode (NewDeviceCli exact_grow True False ''http'') = 1"
    by (simp_all add: NewDeviceCli_def initLocked_def mode_words Let_def new_client_defs zero_cli_def)
  have m: "ParseMode ''nats,http'' \<noteq> dc_mode (NewDeviceCli exact_grow True False ''http'')"
    by (simp add: mode_words d)
  show ?thesis
    unfolding demo_push_def
    by (rule conjunct2 [OF failed_nats_reload_panics
          [OF grows_exact dc_inv_NewDeviceCli [OF grows_exact] d(1) m]])
      (simp_all add: t)
qed

lemma append_present_in_place:
  assumes "slice_ok s h" and "s_len s + length (opt_list c) \<le> s_cap s"
    and "append_present grow c (s, h) = (s', h')"
  shows "s_arr s' = s_arr s \<and> s_cap s' = s_cap s \<and> s_len s' = s_len s + length (opt_list c) \<and>
     slice_ok s' h' \<and>
     arrays h' (s_arr s) = take (s_len s) (arrays h (s_arr s)) @ map Some (opt_list c) @
       drop (s_len s + length (opt_list c)) (arrays h (s_arr s))"
proof (cases c)
  case None
  then show ?thesis using assms by (simp add: append_present_def)
next
  case (Some x)
  then show ?thesis
    using assms
    by (auto simp: append_present_def slice_append_def slice_ok_def upd_conv_take_nth_drop)
qed

lemma rebuildChain_in_place:
  assumes "slice_ok (dc_chain d) (dc_store d)" and "length (by_priority d) \<le> s_cap (dc_chain d)"
  shows "arrays (dc_store (rebuildChain grow d)) (s_arr (dc_chain d)) =
     map Some (by_priority d) @ drop (length (by_priority d)) (arrays (dc_store d) (s_arr (dc_chain d)))"
proof -
  let ?s0 = "(dc_chain d)\<lparr>s_len := 0\<rparr>"
  let ?a = "arrays (dc_store d) (s_arr (dc_chain d))"
  have len: "length (opt_list (dc_grpc d)) + (length (opt_list (dc_nats d)) + length (opt_list (dc_http d)))
      \<le> s_cap (dc_chain d)"
    using assms(2) by (simp add: by_priority_def)
  have la: "length ?a = s_cap (dc_chain d)" using assms(1) by (simp add: slice_ok_def)
  have 0: "slice_ok ?s0 (dc_store d)" using assms(1) by (simp add: slice_ok_def)
  obtain s1 h1 where 1: "append_present grow (dc_grpc d) (?s0, dc_store d) = (s1, h1)"
    by (cases "append_present grow (dc_grpc d) (?s0, dc_store d)")
  obtain s2 h2 where 2: "append_present grow (dc_nats d) (s1, h1) = (s2, h2)"
    by (cases "append_present grow (dc_nats d) (s1, h1)")
  obtain s3 h3 where 3: "append_present grow (dc_http d) (s2, h2) = (s3, h3)"
    by (cases "append_present grow (dc_http d) (s2, h2)")
  note A = append_present_in_place [OF 0 _ 1]
  have A': "s_arr s1 = s_arr (dc_chain d)" "s_cap s1 = s_cap (dc_chain d)"
    "s_len s1 = length (opt_list (dc_grpc d))" "slice_ok s1 h1"
    "arrays h1 (s_arr (dc_chain d)) = map Some (opt_list (dc_grpc d)) @ drop (length (opt_list (dc_grpc d))) ?a"
    using A len by simp_all
  have B': "s_arr s2 = s_arr (dc_chain d)" "s_cap s2 = s_cap (dc_chain d)"
    "s_len s2 = length (opt_list (dc_grpc d)) + length (opt_list (dc_nats d))" "slice_ok s2 h2"
    "arrays h2 (s_arr (dc_chain d)) = map Some (opt_list (dc_grpc d) @ opt_list (dc_nats d)) @
       drop (length (opt_list (dc_grpc d)) + length (opt_list (dc_nats d))) ?a"
    using append_present_in_place [OF A'(4) _ 2] A' len la by (simp_all add: ac_simps)
  have "arrays h3 (s_arr (dc_chain d)) = map Some (by_priority d) @ drop (length (by_priority d)) ?a"
    using append_present_in_place [OF B'(4) _ 3] B' len la by (simp add: by_priority_def ac_simps)
  then show ?thesis by (simp add: rebuildChain_def 1 2 3)
qed

text \<open>
  A commit rewrites the slice a push is reading: when the new state has no more clients than the old
  one, the window a push took before the commit afterwards shows the new clients first and then the tail
  of the old ones. A push that has just failed on the first of two clients so goes on with whatever now
  stands second: it can skip a client or call the same one twice.
\<close>

theorem reload_overwrites_snapshot:
  assumes "dc_inv mq d" and "reload_commit grow r d = (True, d')"
    and "length (by_priority d') \<le> length (by_priority d)"
  shows "slice_read (dc_chain d) (dc_store d') =
     map Some (by_priority d' @ drop (length (by_priority d')) (by_priority d))"
proof -
  obtain e where e: "d' = rebuildChain grow e" "dc_chain e = dc_chain d" "dc_store e = dc_store d"
    using assms(2) by (auto simp: reload_commit_def split: if_splits)
  have ok: "slice_ok (dc_chain d) (dc_store d)" and ch: "chain_of d = map Some (by_priority d)"
    using assms(1) by (simp_all add: dc_inv_def)
  have len: "s_len (dc_chain d) = length (by_priority d)"
    using ch ok by (metis chain_of_def length_map slice_ok_def slice_read_def length_take min.absorb2)
  then have "length (by_priority e) \<le> s_cap (dc_chain e)"
    using assms(3) ok e by (simp add: slice_ok_def)
  from rebuildChain_in_place [OF _ this, of grow] ok e assms(3) len
  have "slice_read (dc_chain d) (dc_store d') =
      map Some (by_priority e) @ drop (length (by_priority e)) (chain_of d)"
    by (simp add: slice_read_def chain_of_def drop_take)
  then show ?thesis using ch e by (simp add: drop_map)
qed

text \<open>Reload from "grpc,http" to "http" while a push is about to try its second client: both are HTTP now.\<close>

definition grpc_http_cli :: dev_cli where
  "grpc_http_cli = NewDeviceCli exact_grow True False ''grpc,http''"

definition to_http :: reload where
  "to_http = \<lparr>r_new = 1, r_old = 3, r_oldGrpc = Some (Grpc 0), r_oldHttp = Some (Http 1),
     r_oldNats = None, r_newGrpc = None, r_newHttp = None, r_newNats = None\<rparr>"

lemma grpc_http_cli_fields:
  "dc_mode grpc_http_cli = 3" "dc_grpc grpc_http_cli = Some (Grpc 0)"
  "dc_http grpc_http_cli = Some (Http 1)" "dc_nats grpc_http_cli = None" "dc_closed grpc_http_cli = []"
  "by_priority grpc_http_cli = [Grpc 0, Http 1]"
  by (simp_all add: grpc_http_cli_def NewDeviceCli_def initLocked_def mode_words Let_def
      new_client_defs zero_cli_def)
    (simp add: by_priority_def)

theorem reload_overwrites_snapshot_witness:
  "\<exists>d'. reload_commit exact_grow to_http grpc_http_cli = (True, d') \<and>
     slice_read (dc_chain grpc_http_cli) (dc_store d') = [Some (Http 1), Some (Http 1)]"
proof -
  obtain d' where c: "reload_commit exact_grow to_http grpc_http_cli = (True, d')"
    and p: "by_priority d' = [Http 1]"
    by (simp add: reload_commit_def to_http_def grpc_http_cli_fields keep_or_new_def)
      (simp add: by_priority_def)
  have inv: "dc_inv True grpc_http_cli" unfolding grpc_http_cli_def by (intro inv_intros grows_exact)
  from reload_overwrites_snapshot [OF inv c] c p grpc_http_cli_fields show ?thesis by simp
qed

text \<open>
  Comparing modes does not notice a change and a change back: a reload that read the mode and its
  queue client before two other reloads commits over their result. It closes the client it had read a
  second time or installs it although it is closed, and the client that was live is dropped unclosed.
\<close>

theorem reload_mode_aba:
  assumes "dc_inv mq d" and "pending_ok mq True r" and "r_oldNats r = Some (Nats i)"
    and "dc_nats d = Some (Nats j)" and "i \<noteq> j" and "dc_mode d = r_old r"
    and "j \<notin> set (dc_closed d)" and "i \<in> set (dc_closed d)"
    and "reload_commit grow r d = (committed, d1)" and "reload_close committed r d1 = (res, d2)"
  shows "committed \<and> dc_nats d2 \<noteq> Some (Nats j) \<and> j \<notin> set (dc_closed d2) \<and>
     (if has_mode (r_new r) ModeNATS then dc_nats d2 = Some (Nats i) \<and> i \<in> set (dc_closed d2)
      else dc_closed d2 = i # dc_closed d)"
proof -
  have old: "has_mode (r_old r) ModeNATS"
    using assms(1,4,6) by (simp add: dc_inv_def fields_inv_def)
  have kinds: "r_oldGrpc r = None \<or> (\<exists>k. r_oldGrpc r = Some (Grpc k))"
    "r_oldHttp r = None \<or> (\<exists>k. r_oldHttp r = Some (Http k))"
    using assms(2) by (auto simp: pending_ok_def fields_inv_def)
  have d1: "committed" "dc_closed d1 = dc_closed d"
    "dc_nats d1 = keep_or_new (r_new r) ModeNATS (r_oldNats r) (r_newNats r)"
    using assms(9) reload_commit_same_mode [OF assms(6), of grow] by auto
  have new: "\<not> has_mode (r_new r) ModeNATS \<Longrightarrow> dc_nats d1 = None"
    using assms(2) d1(3) by (auto simp: pending_ok_def fields_inv_def)
  have closes: "d2 = (if has_mode (r_new r) ModeNATS then d1 else d1\<lparr>dc_closed := i # dc_closed d1\<rparr>)"
    using assms(10) d1(1) kinds old assms(3)
    by (auto simp: reload_close_def dropped_def closeIfPossible_def split: if_splits)
  then show ?thesis
    using d1 new assms(3,5,7,8) by (auto simp: keep_or_new_def)
qed

text \<open>
  The schedule: on "nats", one reload to "nats,http" reads and creates; then two more reloads, to "http"
  and back to "nats", run to their end; then the first commits.
\<close>

definition nats_cli0 :: dev_cli where
  "nats_cli0 = NewDeviceCli exact_grow True False ''nats''"

definition late_reload :: reload where
  "late_reload = \<lparr>r_new = 5, r_old = 4, r_oldGrpc = None, r_oldHttp = None, r_oldNats = Some (Nats 0),
     r_newGrpc = None, r_newHttp = Some (Http 1), r_newNats = None\<rparr>"

lemma late_reload_made:
  "reload_read (ParseMode ''nats,http'') nats_cli0 = Some (late_reload\<lparr>r_newHttp := None\<rparr>)"
  "reload_create True False (late_reload\<lparr>r_newHttp := None\<rparr>, nats_cli0) =
     (late_reload, nats_cli0\<lparr>dc_next := 2\<rparr>)"
  by (simp_all add: reload_read_def nats_cli0_def NewDeviceCli_def initLocked_def mode_words Let_def
      new_client_defs zero_cli_def late_reload_def reload_create_def create_grpc_def create_http_def
      create_nats_def)

definition aba_cli :: dev_cli where
  "aba_cli = snd (Reload exact_grow True False ''nats''
     (snd (Reload exact_grow True False ''http'' (nats_cli0\<lparr>dc_next := 2\<rparr>))))"

lemmas reload_eval = Reload_def reload_read_def reload_create_def create_grpc_def create_http_def
  create_nats_def reload_commit_def reload_close_def dropped_def closeIfPossible_def keep_or_new_def
  new_client_defs mode_words Let_def

lemma nats_cli0_fields:
  "dc_mode nats_cli0 = 4" "dc_grpc nats_cli0 = None" "dc_http nats_cli0 = None"
  "dc_nats nats_cli0 = Some (Nats 0)" "dc_closed nats_cli0 = []"
  by (simp_all add: nats_cli0_def NewDeviceCli_def initLocked_def mode_words Let_def new_client_defs
      zero_cli_def)

lemma aba_cli_fields:
  "dc_mode aba_cli = 4" "dc_nats aba_cli = Some (Nats 3)" "dc_closed aba_cli = [0]"
  by (simp_all add: aba_cli_def reload_eval nats_cli0_fields)

lemma Reload_inv [inv_intros]:
  assumes "grows grow" and "dc_inv mq d"
  shows "dc_inv mq (snd (Reload grow mq fails model d))"
proof (cases "reload_read (ParseMode model) d")
  case None
  then show ?thesis using assms(2) by (simp add: Reload_def)
next
  case (Some r)
  obtain r' d1 where c: "reload_create mq fails (r, d) = (r', d1)"
    by (cases "reload_create mq fails (r, d)")
  obtain b d2 where cm: "reload_commit grow r' d1 = (b, d2)" by (cases "reload_commit grow r' d1")
  note ok = reload_create_ok [OF reload_read_ok [OF assms(2) Some] c]
  then have "dc_inv mq d1" using assms(2) by auto
  from reload_commit_inv [OF assms(1) this conjunct1 [OF ok] cm] have "dc_inv mq d2" .
  then show ?thesis using Some c cm reload_close_fields [of b r' d2] by (auto simp: Reload_def)
qed

theorem reload_mode_aba_witness:
  "\<exists>d2. dc_nats d2 = Some (Nats 0) \<and> 0 \<in> set (dc_closed d2) \<and> 3 \<notin> set (dc_closed d2) \<and>
     d2 = snd (reload_close True late_reload (snd (reload_commit exact_grow late_reload aba_cli)))"
proof -
  have inv0: "dc_inv True nats_cli0" unfolding nats_cli0_def by (intro inv_intros grows_exact)
  then have inv: "dc_inv True aba_cli" unfolding aba_cli_def by (intro inv_intros grows_exact) simp
  have ok: "pending_ok True True late_reload"
    using reload_create_ok [OF reload_read_ok [OF inv0 late_reload_made(1)] late_reload_made(2)] by blast
  obtain b d1 where c: "reload_commit exact_grow late_reload aba_cli = (b, d1)"
    by (cases "reload_commit exact_grow late_reload aba_cli")
  obtain res d2 where k: "reload_close b late_reload d1 = (res, d2)"
    by (cases "reload_close b late_reload d1")
  have old: "r_oldNats late_reload = Some (Nats 0)" "r_old late_reload = 4" "r_new late_reload = 5"
    by (simp_all add: late_reload_def)
  have "b \<and> dc_nats d2 \<noteq> Some (Nats 3) \<and> 3 \<notin> set (dc_closed d2) \<and>
     (if has_mode (r_new late_reload) ModeNATS then dc_nats d2 = Some (Nats 0) \<and> 0 \<in> set (dc_closed d2)
      else dc_closed d2 = 0 # dc_closed aba_cli)"
    by (rule reload_mode_aba [OF inv ok old(1) aba_cli_fields(2) _ _ _ _ c k])
      (simp_all add: aba_cli_fields old)
  then show ?thesis using c k old by auto
qed

end
