(* ===== verification/DeviceService.thy ===== *)
theory DeviceService
  imports Cache Proto DeviceNats GoJson "HOL-Library.Multiset"
begin

text \<open>
  The device service (\<open>src/app/iotdevice\<close>): the database model, the login logic behind its three entries
  - HTTP handler, gRPC server, queue consumer - and the queue consumers themselves.

  Redis and the database are parameters over a world: the record \<open>backend\<close>. A row that is not there is
  \<open>LibError NotFoundRow\<close>.
\<close>

section \<open>The device table\<close>

record device =
  dev_id :: int
  dev_sn :: string

datatype sqlval = ArgInt int | ArgText string

record 'w backend =
  redis_get :: "string \<Rightarrow> 'w \<Rightarrow> (go_error + string) \<times> 'w"
  redis_set :: "string \<Rightarrow> string \<Rightarrow> duration \<Rightarrow> 'w \<Rightarrow> go_error option \<times> 'w"
  query_row :: "string \<Rightarrow> sqlval list \<Rightarrow> 'w \<Rightarrow> (go_error + device) \<times> 'w"
  exec_sql :: "string \<Rightarrow> sqlval list \<Rightarrow> 'w \<Rightarrow> go_error option \<times> 'w"

definition deviceFieldNames :: "string list" where
  "deviceFieldNames = [''id'', ''sn'']"

definition deviceRows :: string where
  "deviceRows = join_with '','' deviceFieldNames"

definition deviceRowsExpectAutoSet :: string where
  "deviceRowsExpectAutoSet = ''sn''"

definition deviceRowsWithPlaceHolder :: string where
  "deviceRowsWithPlaceHolder = ''sn=$1''"

definition device_table :: string where
  "device_table = ''device''"

text \<open>
  The model object: its connection and its table. The exported model embeds the generated one and adds no
  method, so every call goes to the embedded one.
\<close>

record 'w device_model =
  dm_conn :: "'w backend"
  dm_table :: string

definition newDeviceModel :: "'w backend \<Rightarrow> 'w device_model" where
  "newDeviceModel conn = \<lparr>dm_conn = conn, dm_table = device_table\<rparr>"

definition tableName :: "'w device_model \<Rightarrow> string" where
  "tableName m = dm_table m"

record 'w custom_model =
  cm_embedded :: "'w device_model"

definition NewDeviceModel :: "'w backend \<Rightarrow> 'w custom_model" where
  "NewDeviceModel conn = \<lparr>cm_embedded = newDeviceModel conn\<rparr>"

definition select_by :: "string \<Rightarrow> string" where
  "select_by column =
     ''select '' @ deviceRows @ '' from '' @ device_table @ '' where '' @ column @ '' = $1 limit 1''"

fun is_not_found :: "go_error \<Rightarrow> bool" where
  "is_not_found (LibError NotFoundRow _) = True"
| "is_not_found _ = False"

definition ErrNotFound :: go_error where
  "ErrNotFound = LibError NotFoundRow ''sql: no rows in result set''"

definition FindOne :: "'w backend \<Rightarrow> int \<Rightarrow> 'w \<Rightarrow> (go_error + device) \<times> 'w" where
  "FindOne b i w =
     (case query_row b (select_by ''id'') [ArgInt i] w of
        (Inr d, w') \<Rightarrow> (Inr d, w')
      | (Inl e, w') \<Rightarrow> if is_not_found e then (Inl ErrNotFound, w') else (Inl e, w'))"

definition FindOneBySn :: "'w backend \<Rightarrow> string \<Rightarrow> 'w \<Rightarrow> (go_error + device) \<times> 'w" where
  "FindOneBySn b sn w =
     (case query_row b (select_by ''sn'') [ArgText sn] w of
        (Inr d, w') \<Rightarrow> (Inr d, w')
      | (Inl e, w') \<Rightarrow> if is_not_found e then (Inl ErrNotFound, w') else (Inl e, w'))"

text \<open>\<open>GetOneBySn\<close>: error, or the row and whether it was found.\<close>

definition GetOneBySn :: "'w backend \<Rightarrow> string \<Rightarrow> 'w \<Rightarrow> (go_error + device option) \<times> 'w" where
  "GetOneBySn b sn w =
     (case query_row b (select_by ''sn'') [ArgText sn] w of
        (Inr d, w') \<Rightarrow> (Inr (Some d), w')
      | (Inl e, w') \<Rightarrow> if is_not_found e then (Inr None, w') else (Inl e, w'))"

definition Insert :: "'w backend \<Rightarrow> device \<Rightarrow> 'w \<Rightarrow> go_error option \<times> 'w" where
  "Insert b d w =
     exec_sql b (''insert into '' @ device_table @ '' ('' @ deviceRowsExpectAutoSet @ '') values ($1)'') [ArgText (dev_sn d)] w"

definition Update :: "'w backend \<Rightarrow> device \<Rightarrow> 'w \<Rightarrow> go_error option \<times> 'w" where
  "Update b d w =
     exec_sql b (''update '' @ device_table @ '' set '' @ deviceRowsWithPlaceHolder @ '' where id = $2'')
       [ArgText (dev_sn d), ArgInt (dev_id d)] w"

definition Delete :: "'w backend \<Rightarrow> int \<Rightarrow> 'w \<Rightarrow> go_error option \<times> 'w" where
  "Delete b i w = exec_sql b (''delete from '' @ device_table @ '' where id = $1'') [ArgInt i] w"

section \<open>Logic\<close>

text \<open>\<open>types.Response\<close>.\<close>

record response =
  rs_trace :: string
  rs_cmd :: string
  rs_connId :: string
  rs_message :: string

definition empty_response :: response where
  "empty_response = \<lparr>rs_trace = [], rs_cmd = [], rs_connId = [], rs_message = []\<rparr>"

type_synonym 'w result = "(go_error + response) \<times> 'w"

definition login_Iotdevice :: "'w backend \<Rightarrow> DeviceConnectReq \<Rightarrow> 'w \<Rightarrow> 'w result" where
  "login_Iotdevice b req w =
     (if Sn req = [] then (Inl (NewMyError 5000 ''device sn cannot be empty''), w)
      else
        (let (_, w1) = redis_get b (GetCacheConn (Sn req)) w in
         (case GetOneBySn b (Sn req) w1 of
            (Inl err, w2) \<Rightarrow> (Inl err, w2)
          | (Inr None, w2) \<Rightarrow> (Inl (NewMyError 4000 ''device not found''), w2)
          | (Inr (Some _), w2) \<Rightarrow>
              (case redis_set b (GetCacheConn (Sn req)) (ServiceName req) ConnTime w2 of
                 (Some err, w3) \<Rightarrow> (Inl err, w3)
               | (None, w3) \<Rightarrow> (Inr (empty_response\<lparr>rs_connId := Sn req\<rparr>), w3)))))"

definition error_Iotdevice :: "DeviceConnectReq \<Rightarrow> 'w \<Rightarrow> 'w result" where
  "error_Iotdevice req w = (Inr (empty_response\<lparr>rs_message := ''error''\<rparr>), w)"

definition logic_of :: "string \<Rightarrow> 'w backend \<Rightarrow> DeviceConnectReq \<Rightarrow> 'w \<Rightarrow> 'w result" where
  "logic_of cmd b = (if cmd = ''login'' then login_Iotdevice b else error_Iotdevice)"

text \<open>\<open>NewIotdeviceLogic(ctx, cmd, svcCtx).Iotdevice(req)\<close>: the logic's error, wrapped with the trace.\<close>

definition Iotdevice :: "span_ctx \<Rightarrow> string \<Rightarrow> 'w backend \<Rightarrow> DeviceConnectReq \<Rightarrow> 'w \<Rightarrow> 'w result" where
  "Iotdevice ctx cmd b req w =
     (case logic_of cmd b req w of
        (Inl err, w') \<Rightarrow> (Inl (NewMyErrorWithCtx ctx err), w')
      | (Inr resp, w') \<Rightarrow> (Inr resp, w'))"

section \<open>The HTTP entry\<close>

text \<open>
  \<open>types.Request\<close> behind the request interface is a \<open>DeviceConnectReq\<close>: the fields are those that
  \<open>json.NewDecoder(r.Body).Decode\<close> finds, the last two under their Go names. \<open>json_err\<close> is the text of
  the decoder's errors.
\<close>

definition request_fields :: "(string \<times> field_kind) list" where
  "request_fields = [(''cmd'', FString), (''sn'', FString), (''data'', FRaw), (''ConnId'', FString),
     (''ServiceName'', FString)]"

definition decode_request :: "(json_error \<Rightarrow> go_error) \<Rightarrow> string \<Rightarrow> go_error + DeviceConnectReq" where
  "decode_request json_err bytes =
     (case json_Decode request_fields bytes of
        Inl e \<Rightarrow> Inl (json_err e)
      | Inr f \<Rightarrow> Inr \<lparr>Cmd = f ''cmd'', Sn = f ''sn'', ConnId = f ''ConnId'', Data = f ''data'',
                      ServiceName = f ''ServiceName''\<rparr>)"

definition parseIotdeviceRequest ::
  "(json_error \<Rightarrow> go_error) \<Rightarrow> (string \<Rightarrow> string) \<Rightarrow> string \<Rightarrow> go_error + DeviceConnectReq" where
  "parseIotdeviceRequest json_err header bytes =
     (case decode_request json_err bytes of
        Inl err \<Rightarrow> Inl err
      | Inr req \<Rightarrow> Inr (req\<lparr>ConnId := header ''ConnId'', ServiceName := header ''ServiceName''\<rparr>))"

text \<open>The getters of \<open>types.Request\<close>. \<open>parse_struct\<close> is \<open>protojson.Unmarshal\<close> into a \<open>structpb.Struct\<close>.\<close>

definition Request_GetCmd :: "DeviceConnectReq \<Rightarrow> string" where "Request_GetCmd m = Cmd m"
definition Request_GetSn :: "DeviceConnectReq \<Rightarrow> string" where "Request_GetSn m = Sn m"
definition Request_GetConnId :: "DeviceConnectReq \<Rightarrow> string" where "Request_GetConnId m = ConnId m"
definition Request_GetServiceName :: "DeviceConnectReq \<Rightarrow> string" where
  "Request_GetServiceName m = ServiceName m"

definition Request_GetData :: "(string \<Rightarrow> 'struct option) \<Rightarrow> 'struct \<Rightarrow> DeviceConnectReq \<Rightarrow> 'struct" where
  "Request_GetData parse_struct empty_struct m =
     (if Data m = [] then empty_struct
      else (case parse_struct (Data m) of None \<Rightarrow> empty_struct | Some st \<Rightarrow> st))"

text \<open>The methods that only make a \<open>Request\<close> pass for a protobuf message.\<close>

definition Request_Descriptor :: "DeviceConnectReq \<Rightarrow> string \<times> int list" where "Request_Descriptor m = ([], [])"
definition Request_ProtoReflect :: "DeviceConnectReq \<Rightarrow> unit option" where "Request_ProtoReflect m = None"
definition Request_String :: "DeviceConnectReq \<Rightarrow> string" where "Request_String m = []"
definition Request_Reset :: "DeviceConnectReq \<Rightarrow> DeviceConnectReq" where "Request_Reset m = m"

text \<open>A login as a device writes it, with any encoder of strings.\<close>

definition login_text :: "bool \<Rightarrow> string \<Rightarrow> string" where
  "login_text html sn = marshal_strings html [(''cmd'', ''login''), (''sn'', sn)]"

lemma decode_login_text:
  "decode_request json_err (login_text html sn @ rest) = Inr (empty_req\<lparr>Cmd := ''login'', Sn := to_valid sn\<rparr>)"
proof -
  have p: "to_valid ''cmd'' = ''cmd''" "to_valid ''sn'' = ''sn''" "to_valid ''login'' = ''login''"
    by (rule to_valid_plain [of False]; simp add: plain_char_def byte_def quote_def backslash_def)+
  have "(0::nat) < maxNestingDepth" by (simp add: maxNestingDepth_def)
  from json_Decode_renders [OF renders_strings [OF this]]
  have "json_Decode request_fields (login_text html sn @ rest) = decode_struct request_fields
      (JObject (map (\<lambda>(k, v). (to_valid k, json_quote html v, JString (to_valid v)))
        [(''cmd'', ''login''), (''sn'', sn)]))"
    by (simp only: login_text_def)
  then show ?thesis
    by (simp add: p decode_struct_def set_member_def find_field_def request_fields_def decode_request_def empty_req_def)
qed

datatype http_answer = AnswerError go_error | AnswerJson response

definition IotdeviceHandler ::
  "(json_error \<Rightarrow> go_error) \<Rightarrow> span_ctx \<Rightarrow> 'w backend \<Rightarrow> (string \<Rightarrow> string) \<Rightarrow> string \<Rightarrow> 'w
     \<Rightarrow> http_answer \<times> 'w" where
  "IotdeviceHandler json_err ctx b header bytes w =
     (case parseIotdeviceRequest json_err header bytes of
        Inl err \<Rightarrow> (AnswerError err, w)
      | Inr req \<Rightarrow>
          (case Iotdevice ctx (Cmd req) b req w of
             (Inl err, w') \<Rightarrow> (AnswerError err, w')
           | (Inr resp, w') \<Rightarrow> (AnswerJson resp, w')))"

text \<open>
  The body of a JSON answer, \<open>types.Response\<close> through \<open>encoding/json\<close>; go-zero chooses whether HTML is
  escaped.
\<close>

definition response_json :: "bool \<Rightarrow> response \<Rightarrow> string" where
  "response_json html r = marshal_strings html
     [(''trace'', rs_trace r), (''cmd'', rs_cmd r), (''connId'', rs_connId r), (''message'', rs_message r)]"

section \<open>The gRPC entry\<close>

text \<open>\<open>IotdeviceServer.DeviceConnect\<close>: no trace on the error, and only the message of the response.\<close>

definition server_DeviceConnect ::
  "'w backend \<Rightarrow> DeviceConnectReq \<Rightarrow> 'w \<Rightarrow> (go_error + DeviceConnectResp) \<times> 'w" where
  "server_DeviceConnect b req w =
     (case logic_of (GetCmd (Some req)) b req w of
        (Inl err, w') \<Rightarrow> (Inl err, w')
      | (Inr resp, w') \<Rightarrow> (Inr \<lparr>Message = rs_message resp\<rparr>, w'))"

section \<open>The queue entry\<close>

definition extractCmd :: "string \<Rightarrow> string" where
  "extractCmd payload = quoted_field (quote # ''cmd'' @ [quote, CHR '':'', quote]) payload"

definition cmdWorkers :: "string \<rightharpoonup> nat" where
  "cmdWorkers = [''login'' \<mapsto> 256]"

datatype settle = Ack | Nack

text \<open>
  \<open>HandleAllNatsMessage\<close>: the acks it makes and its error. The ingress consumer nacks a message when
  there was an error.
\<close>

definition HandleAllNatsMessage ::
  "(string \<Rightarrow> qmsg \<Rightarrow> 'w \<Rightarrow> go_error option \<times> 'w) \<Rightarrow> string \<Rightarrow> qmsg \<Rightarrow> 'w
     \<Rightarrow> (settle list \<times> go_error option) \<times> 'w" where
  "HandleAllNatsMessage publish subj msg w =
     (let cmd = extractCmd (msg_payload msg) in
      if cmd = [] then (([Ack], None), w)
      else if cmdWorkers cmd = None then (([Ack], None), w)
      else
        (case publish (subj @ ''_'' @ cmd) msg w of
           (Some err, w') \<Rightarrow> (([], Some err), w')
         | (None, w') \<Rightarrow> (([Ack], None), w')))"

definition ingress ::
  "(string \<Rightarrow> qmsg \<Rightarrow> 'w \<Rightarrow> go_error option \<times> 'w) \<Rightarrow> string \<Rightarrow> qmsg \<Rightarrow> 'w \<Rightarrow> settle list \<times> 'w" where
  "ingress publish subj msg w =
     (case HandleAllNatsMessage publish subj msg w of
        ((acks, Some err), w') \<Rightarrow> (acks @ [Nack], w')
      | ((acks, None), w') \<Rightarrow> (acks, w'))"

definition metadata :: "qmsg \<Rightarrow> string \<Rightarrow> string" where
  "metadata msg key = (case msg_metadata msg key of None \<Rightarrow> [] | Some v \<Rightarrow> v)"

definition processMessage ::
  "(string \<Rightarrow> go_error + DeviceConnectReq) \<Rightarrow> span_ctx \<Rightarrow> 'w backend \<Rightarrow> qmsg \<Rightarrow> 'w \<Rightarrow> go_error option \<times> 'w" where
  "processMessage unmarshal ctx b msg w =
     (case unmarshal (msg_payload msg) of
        Inl err \<Rightarrow> (Some err, w)
      | Inr req \<Rightarrow>
          (let req1 = (if metadata msg ''ConnId'' \<noteq> [] then req\<lparr>ConnId := metadata msg ''ConnId''\<rparr> else req);
               req2 = (if metadata msg ''ServiceName'' \<noteq> []
                       then req1\<lparr>ServiceName := metadata msg ''ServiceName''\<rparr> else req1)
           in (case Iotdevice ctx (Cmd req2) b req2 w of
                 (Inl err, w') \<Rightarrow> (Some err, w')
               | (Inr _, w') \<Rightarrow> (None, w'))))"

definition settle_message ::
  "(string \<Rightarrow> go_error + DeviceConnectReq) \<Rightarrow> span_ctx \<Rightarrow> 'w backend \<Rightarrow> qmsg \<Rightarrow> 'w \<Rightarrow> settle \<times> 'w" where
  "settle_message unmarshal ctx b msg w =
     (case processMessage unmarshal ctx b msg w of
        (Some err, w') \<Rightarrow> (Nack, w')
      | (None, w') \<Rightarrow> (Ack, w'))"

section \<open>What a login does\<close>

text \<open>
  What the logic relies on of its backend: \<open>devs\<close> are the serial numbers the database has a row for,
  \<open>pres\<close> the keys of Redis. A query finds exactly the rows there are (or fails), a \<open>SET\<close> that succeeds
  enters its value, and nothing else changes either of the two.
\<close>

definition backend_laws :: "'w backend \<Rightarrow> ('w \<Rightarrow> string set) \<Rightarrow> ('w \<Rightarrow> string \<rightharpoonup> string) \<Rightarrow> bool" where
  "backend_laws b devs pres \<longleftrightarrow>
     (\<forall>k w r w'. redis_get b k w = (r, w') \<longrightarrow> devs w' = devs w \<and> pres w' = pres w) \<and>
     (\<forall>sn w r w'. query_row b (select_by ''sn'') [ArgText sn] w = (r, w') \<longrightarrow>
        devs w' = devs w \<and> pres w' = pres w \<and>
        (case r of Inr _ \<Rightarrow> sn \<in> devs w | Inl e \<Rightarrow> is_not_found e \<longrightarrow> sn \<notin> devs w)) \<and>
     (\<forall>k v t w e w'. redis_set b k v t w = (e, w') \<longrightarrow>
        devs w' = devs w \<and> pres w' = (if e = None then (pres w)(k \<mapsto> v) else pres w))"

lemma login_presence:
  assumes "backend_laws b devs pres" and "login_Iotdevice b req w = (r, w')"
  shows "devs w' = devs w \<and>
     (case r of
        Inr resp \<Rightarrow> Sn req \<noteq> [] \<and> Sn req \<in> devs w \<and> resp = empty_response\<lparr>rs_connId := Sn req\<rparr> \<and>
          pres w' = (pres w)(GetCacheConn (Sn req) \<mapsto> ServiceName req)
      | Inl e \<Rightarrow> pres w' = pres w \<and>
          (Sn req = [] \<longrightarrow> e = LogicError 5000 ''device sn cannot be empty''))"
proof (cases "Sn req = []")
  case True
  then show ?thesis using assms(2) by (auto simp: login_Iotdevice_def NewMyError_def)
next
  case False
  obtain v w1 where G: "redis_get b (GetCacheConn (Sn req)) w = (v, w1)"
    by (cases "redis_get b (GetCacheConn (Sn req)) w")
  obtain q w2 where Q: "query_row b (select_by ''sn'') [ArgText (Sn req)] w1 = (q, w2)"
    by (cases "query_row b (select_by ''sn'') [ArgText (Sn req)] w1")
  obtain e w3 where S: "redis_set b (GetCacheConn (Sn req)) (ServiceName req) ConnTime w2 = (e, w3)"
    by (cases "redis_set b (GetCacheConn (Sn req)) (ServiceName req) ConnTime w2")
  have g: "devs w1 = devs w" "pres w1 = pres w"
    using assms(1) G unfolding backend_laws_def by blast+
  have q: "devs w2 = devs w" "pres w2 = pres w"
    "case q of Inr _ \<Rightarrow> Sn req \<in> devs w | Inl e \<Rightarrow> is_not_found e \<longrightarrow> Sn req \<notin> devs w"
    using assms(1) Q g unfolding backend_laws_def by metis+
  have s: "devs w3 = devs w" "pres w3 = (if e = None then (pres w)(GetCacheConn (Sn req) \<mapsto> ServiceName req) else pres w)"
    using assms(1) S q unfolding backend_laws_def by metis+
  show ?thesis
    using assms(2) False G Q S q s
    by (cases q; cases e) (auto simp: login_Iotdevice_def GetOneBySn_def Let_def split: if_splits)
qed


text \<open>A backend in memory: the serial numbers and the keys.\<close>

definition mem_backend :: "(string set \<times> (string \<rightharpoonup> string)) backend" where
  "mem_backend = \<lparr>
     redis_get = (\<lambda>k w. (case snd w k of None \<Rightarrow> Inl (LibError NilReply ''redis: nil'') | Some v \<Rightarrow> Inr v, w)),
     redis_set = (\<lambda>k v t w. (None, (fst w, (snd w)(k \<mapsto> v)))),
     query_row = (\<lambda>q args w. (case args of
        [ArgText sn] \<Rightarrow> if sn \<in> fst w then Inr \<lparr>dev_id = 1, dev_sn = sn\<rparr> else Inl ErrNotFound
      | _ \<Rightarrow> Inl (LibError OtherLib ''bad query''), w)),
     exec_sql = (\<lambda>q args w. (None, w))\<rparr>"

lemma mem_backend_laws: "backend_laws mem_backend fst snd"
  by (auto simp: backend_laws_def mem_backend_def ErrNotFound_def split: if_splits)

definition no_span :: span_ctx where
  "no_span = \<lparr>span_valid = False, has_trace_id = False, trace_text = [], span_text = []\<rparr>"

definition login_req :: DeviceConnectReq where
  "login_req = empty_req\<lparr>Cmd := ''login'', Sn := ''d1'', ServiceName := ''ws''\<rparr>"


text \<open>
  C21. The three entries do the same: the same request - its connection id and service from the headers
  or the message's metadata - leaves the backend in the same state through HTTP, gRPC and the queue; HTTP
  answers JSON exactly when gRPC returns no error and the queue acknowledges, and HTTP's error is gRPC's,
  wrapped with the trace.
\<close>

theorem entries_agree:
  assumes "decode_request json_err bytes = Inr decoded" and "unmarshal bytes = Inr decoded" and "msg_payload msg = bytes"
    and "metadata msg ''ConnId'' = header ''ConnId''" and "header ''ConnId'' \<noteq> []"
    and "metadata msg ''ServiceName'' = header ''ServiceName''" and "header ''ServiceName'' \<noteq> []"
    and "req = decoded\<lparr>ConnId := header ''ConnId'', ServiceName := header ''ServiceName''\<rparr>"
  shows "let (grpc, w1) = server_DeviceConnect b req w;
           (http, w2) = IotdeviceHandler json_err ctx b header bytes w;
           (settled, w3) = settle_message unmarshal ctx b msg w
     in w1 = w2 \<and> w2 = w3 \<and>
        (case grpc of
           Inr resp \<Rightarrow> settled = Ack \<and> (\<exists>r. http = AnswerJson r \<and> rs_message r = Message resp)
         | Inl e \<Rightarrow> settled = Nack \<and> http = AnswerError (NewMyErrorWithCtx ctx e))"
proof -
  obtain r w' where L: "logic_of (Cmd req) b req w = (r, w')" by (cases "logic_of (Cmd req) b req w")
  have p: "parseIotdeviceRequest json_err header bytes = Inr req"
    using assms by (simp add: parseIotdeviceRequest_def)
  have q: "processMessage unmarshal ctx b msg w =
      (case Iotdevice ctx (Cmd req) b req w of (Inl err, w') \<Rightarrow> (Some err, w') | (Inr _, w') \<Rightarrow> (None, w'))"
    using assms by (simp add: processMessage_def)
  show ?thesis
    using L p
    by (cases r) (simp_all add: server_DeviceConnect_def IotdeviceHandler_def settle_message_def q
        Iotdevice_def)
qed

theorem entries_agree_witness:
  "let w = ({''d1''}, Map.empty);
       header = (\<lambda>h. if h = ''ConnId'' then ''c1'' else ''ws'');
       msg = \<lparr>msg_uuid = ''u'', msg_payload = login_text True ''d1'',
              msg_metadata = [''ConnId'' \<mapsto> ''c1'', ''ServiceName'' \<mapsto> ''ws'']\<rparr>
   in snd (IotdeviceHandler (\<lambda>_. TextError []) no_span mem_backend header (login_text True ''d1'') w) =
      snd (settle_message (\<lambda>_. Inr (empty_req\<lparr>Cmd := ''login'', Sn := to_valid ''d1''\<rparr>)) no_span mem_backend msg w)"
  using entries_agree [OF decode_login_text [where rest = "[]" and html = True and sn = "''d1''"] _ _ _ _ _ _ refl, where
      unmarshal = "\<lambda>_. Inr (empty_req\<lparr>Cmd := ''login'', Sn := to_valid ''d1''\<rparr>)" and json_err = "\<lambda>_. TextError []"
      and header = "\<lambda>h. if h = ''ConnId'' then ''c1'' else ''ws''"
      and msg = "\<lparr>msg_uuid = ''u'', msg_payload = login_text True ''d1'',
                  msg_metadata = [''ConnId'' \<mapsto> ''c1'', ''ServiceName'' \<mapsto> ''ws'']\<rparr>"
      and b = mem_backend and w = "({''d1''}, Map.empty)" and ctx = no_span]
  by (simp add: metadata_def Let_def case_prod_beta)

section \<open>The queue consumers\<close>

lemma cmdWorkers_dom: "cmdWorkers cmd = None \<longleftrightarrow> cmd \<noteq> ''login''"
  by (simp add: cmdWorkers_def)

text \<open>
  The ingress consumer settles every message exactly once, and loses none it should route: a message
  whose command is "login" is published once, under the command's own subject, before it is acknowledged,
  and is handed back when that fails; a message of any other command is acknowledged and dropped.
\<close>

theorem ingress_settles_once:
  "ingress publish subj msg w =
     (if quoted_field (quote # ''cmd'' @ [quote, CHR '':'', quote]) (msg_payload msg) = ''login''
      then (case publish (subj @ ''_login'') msg w of
              (None, w') \<Rightarrow> ([Ack], w')
            | (Some _, w') \<Rightarrow> ([Nack], w'))
      else ([Ack], w))"
  unfolding ingress_def HandleAllNatsMessage_def cmdWorkers_dom extractCmd_def Let_def
  by (simp split: prod.split option.split)

text \<open>
  A payload that writes its command with any other spacing than \<open>"cmd":"login"\<close> - valid JSON that
  the HTTP entry accepts - is acknowledged and dropped: the scanner wants the key, the colon and the quote
  to follow each other.
\<close>

theorem ingress_drops_spaced_command:
  assumes "\<not> sublist (quote # ''cmd'' @ [quote, CHR '':'', quote]) (msg_payload msg)"
  shows "ingress publish subj msg w = ([Ack], w)"
proof -
  have "extractCmd (msg_payload msg) = []"
    using assms by (simp add: extractCmd_def quoted_field_def find_sub_None_iff [symmetric])
  then show ?thesis by (simp add: ingress_def HandleAllNatsMessage_def Let_def)
qed

definition spaced_login :: string where
  "spaced_login = CHR ''{'' # quote # ''cmd'' @ [quote, CHR '':'', CHR '' '', quote] @ ''login'' @ [quote, CHR ''}'']"

theorem ingress_drops_spaced_command_witness:
  "ingress (\<lambda>s m w. (None, Suc w)) ''iot'' \<lparr>msg_uuid = ''u'', msg_payload = spaced_login,
      msg_metadata = Map.empty\<rparr> 0 = ([Ack], 0)"
proof -
  have "find_sub (quote # ''cmd'' @ [quote, CHR '':'', quote]) spaced_login = None" by code_simp
  then have "\<not> sublist (quote # ''cmd'' @ [quote, CHR '':'', quote]) spaced_login"
    unfolding find_sub_None_iff .
  then show ?thesis by (intro ingress_drops_spaced_command) simp
qed

text \<open>
  The consumer of one command: the loop takes a message off the channel, waits for a free slot of the
  semaphore and starts a goroutine, which processes the message, settles it and then frees its slot. What
  processing gives, \<open>settle m w\<close>, is that of the message in the world the goroutine finds.
\<close>

record 'w consumer =
  waiting :: "qmsg list"          \<comment> \<open>the channel\<close>
  in_hand :: "qmsg option"        \<comment> \<open>taken, waiting for a slot\<close>
  running :: "qmsg list"          \<comment> \<open>goroutines that process\<close>
  sema :: nat
  settled :: "(qmsg \<times> settle) list"
  world :: 'w

inductive consumer_step ::
  "(qmsg \<Rightarrow> 'w \<Rightarrow> settle \<times> 'w) \<Rightarrow> nat \<Rightarrow> 'w consumer \<Rightarrow> 'w consumer \<Rightarrow> bool" for settle capacity where
  take_message: "waiting c = m # ms \<Longrightarrow> in_hand c = None \<Longrightarrow>
     consumer_step settle capacity c (c\<lparr>waiting := ms, in_hand := Some m\<rparr>)"
| start_goroutine: "in_hand c = Some m \<Longrightarrow> sema c < capacity \<Longrightarrow>
     consumer_step settle capacity c (c\<lparr>in_hand := None, sema := Suc (sema c), running := m # running c\<rparr>)"
| settle_goroutine: "m \<in> set (running c) \<Longrightarrow> settle m (world c) = (s, w') \<Longrightarrow>
     consumer_step settle capacity c
       (c\<lparr>running := remove1 m (running c), settled := (m, s) # settled c, sema := sema c - 1, world := w'\<rparr>)"

definition consumer_start :: "qmsg list \<Rightarrow> 'w \<Rightarrow> 'w consumer" where
  "consumer_start msgs w =
     \<lparr>waiting = msgs, in_hand = None, running = [], sema = 0, settled = [], world = w\<rparr>"

inductive consumer_reachable ::
  "(qmsg \<Rightarrow> 'w \<Rightarrow> settle \<times> 'w) \<Rightarrow> nat \<Rightarrow> qmsg list \<Rightarrow> 'w \<Rightarrow> 'w consumer \<Rightarrow> bool" for settle capacity msgs w where
  begin_consumer: "consumer_reachable settle capacity msgs w (consumer_start msgs w)"
| next_consumer: "consumer_reachable settle capacity msgs w c \<Longrightarrow> consumer_step settle capacity c c' \<Longrightarrow>
     consumer_reachable settle capacity msgs w c'"

inductive_cases consumer_stepE: "consumer_step settle capacity c c'"

definition accounted :: "'w consumer \<Rightarrow> qmsg multiset" where
  "accounted c = mset (waiting c) + (case in_hand c of None \<Rightarrow> {#} | Some m \<Rightarrow> {#m#}) +
     mset (running c) + mset (map fst (settled c))"

definition consumer_inv :: "nat \<Rightarrow> qmsg list \<Rightarrow> 'w consumer \<Rightarrow> bool" where
  "consumer_inv capacity msgs c \<longleftrightarrow>
     accounted c = mset msgs \<and> length (running c) = sema c \<and> sema c \<le> capacity"

lemma consumer_step_inv [inv_intros]:
  assumes "consumer_step settle capacity c c'" and "consumer_inv capacity msgs c"
  shows "consumer_inv capacity msgs c'"
  using assms
proof (cases rule: consumer_step.cases)
  case (settle_goroutine m s w2)
  then have pos: "0 < length (running c)" by (auto simp: length_pos_if_in_set)
  obtain M where M: "mset (running c) = add_mset m M" "mset (remove1 m (running c)) = M"
    using settle_goroutine(2) by (metis mset_remove1 insert_DiffM set_mset_mset add_mset_remove_trivial)
  have "accounted c' = accounted c" using settle_goroutine(1) M by (simp add: accounted_def del: mset_remove1)
  then show ?thesis
    using settle_goroutine assms(2) pos by (auto simp: consumer_inv_def length_remove1)
qed (auto simp: consumer_inv_def accounted_def)

lemma consumer_reachable_inv: "consumer_reachable settle capacity msgs w c \<Longrightarrow> consumer_inv capacity msgs c"
proof (induction rule: consumer_reachable.induct)
  case begin_consumer
  then show ?case by (simp add: consumer_start_def consumer_inv_def accounted_def)
next
  case (next_consumer c c')
  then show ?case by (blast intro: consumer_step_inv)
qed

text \<open>Every step makes this smaller, so the consumer cannot run for ever on finitely many messages.\<close>

definition work_left :: "'w consumer \<Rightarrow> nat" where
  "work_left c = 3 * length (waiting c) + (case in_hand c of None \<Rightarrow> 0 | Some _ \<Rightarrow> 2) + length (running c)"

lemma consumer_step_work: "consumer_step settle capacity c c' \<Longrightarrow> work_left c' < work_left c"
proof (induction rule: consumer_step.induct)
  case (settle_goroutine m c s w2)
  then have "0 < length (running c)" by (auto simp: length_pos_if_in_set)
  then show ?case using settle_goroutine by (simp add: work_left_def length_remove1)
qed (simp_all add: work_left_def)

lemma consumer_progress:
  assumes "consumer_inv capacity msgs c" and "0 < capacity" and "\<And>c'. \<not> consumer_step settle capacity c c'"
  shows "waiting c = [] \<and> in_hand c = None \<and> running c = []"
proof -
  have r: "running c = []"
  proof (cases "running c")
    case (Cons m ms)
    obtain s w2 where "settle m (world c) = (s, w2)" by (cases "settle m (world c)")
    with Cons have "consumer_step settle capacity c
        (c\<lparr>running := remove1 m (running c), settled := (m, s) # settled c, sema := sema c - 1, world := w2\<rparr>)"
      by (intro consumer_step.settle_goroutine) simp_all
    then show ?thesis using assms(3) by blast
  qed simp
  then have "sema c < capacity" using assms(1,2) by (simp add: consumer_inv_def)
  then have h: "in_hand c = None"
    using assms(3) consumer_step.start_goroutine by (cases "in_hand c") blast+
  then have "waiting c = []"
    using assms(3) consumer_step.take_message by (cases "waiting c") blast+
  then show ?thesis using r h by simp
qed

text \<open>The outcomes are those of processing, each message's in some world.\<close>

lemma consumer_outcomes:
  "consumer_reachable settle capacity msgs w c \<Longrightarrow>
     list_all (\<lambda>(m, s). \<exists>w1. s = fst (settle m w1)) (settled c)"
proof (induction rule: consumer_reachable.induct)
  case begin_consumer
  then show ?case by (simp add: consumer_start_def)
next
  case (next_consumer c c')
  from next_consumer(2,3) show ?case
  proof (cases rule: consumer_step.cases)
    case (settle_goroutine m s w2)
    then show ?thesis using next_consumer.IH by (auto intro!: exI [of _ "world c"])
  qed simp_all
qed

text \<open>
  C18. The command consumer, over its own processing: never more goroutines than the command's limit; in
  every interleaving every message is in exactly one place; a message is acked only when its processing
  ended without error; each step uses up work; and when no step is left every message has been settled
  exactly once - so the consumer neither loses a message nor blocks for ever.
\<close>

theorem consumer_settles_every_message:
  assumes "consumer_reachable (\<lambda>m. settle_message unmarshal (ctx m) b m) capacity msgs w c" and "0 < capacity"
  shows "length (running c) \<le> capacity \<and> accounted c = mset msgs \<and>
     list_all (\<lambda>(m, s). \<exists>w1. (s = Ack) = (fst (processMessage unmarshal (ctx m) b m w1) = None)) (settled c) \<and>
     (if \<exists>c'. consumer_step (\<lambda>m. settle_message unmarshal (ctx m) b m) capacity c c'
      then \<forall>c'. \<not> consumer_step (\<lambda>m. settle_message unmarshal (ctx m) b m) capacity c c' \<or>
             work_left c' < work_left c
      else mset (map fst (settled c)) = mset msgs)"
proof -
  let ?settle = "\<lambda>m. settle_message unmarshal (ctx m) b m"
  have inv: "consumer_inv capacity msgs c" using assms(1) by (rule consumer_reachable_inv)
  have acked: "(fst (settle_message unmarshal (ctx m) b m w1) = Ack) =
      (fst (processMessage unmarshal (ctx m) b m w1) = None)" for m w1
    by (cases "processMessage unmarshal (ctx m) b m w1")
      (auto simp: settle_message_def split: option.splits)
  have out: "list_all (\<lambda>(m, s). \<exists>w1. (s = Ack) = (fst (processMessage unmarshal (ctx m) b m w1) = None)) (settled c)"
    using consumer_outcomes [OF assms(1)] acked by (fastforce simp: list_all_iff)
  show ?thesis
  proof (cases "\<exists>c'. consumer_step ?settle capacity c c'")
    case True
    then show ?thesis using inv out consumer_step_work by (auto simp: consumer_inv_def)
  next
    case False
    then have "waiting c = [] \<and> in_hand c = None \<and> running c = []"
      using consumer_progress [OF inv assms(2)] by blast
    then show ?thesis using inv out False by (auto simp: consumer_inv_def accounted_def)
  qed
qed

definition login_msg :: qmsg where
  "login_msg = \<lparr>msg_uuid = ''u'', msg_payload = ''m'', msg_metadata = [''ServiceName'' \<mapsto> ''ws'']\<rparr>"

theorem consumer_settles_every_message_witness:
  "\<exists>c :: (string set \<times> (string \<rightharpoonup> string)) consumer.
     consumer_reachable (\<lambda>m. settle_message (\<lambda>_. Inr login_req) no_span mem_backend m) 256 [login_msg]
       ({''d1''}, Map.empty) c \<and> running c = [login_msg] \<and> accounted c = {#login_msg#}"
proof -
  let ?settle = "\<lambda>m. settle_message (\<lambda>_. Inr login_req) no_span mem_backend m"
  let ?w = "({''d1''}, Map.empty :: string \<rightharpoonup> string)"
  let ?c0 = "consumer_start [login_msg] ?w"
  let ?c1 = "?c0\<lparr>waiting := [], in_hand := Some login_msg\<rparr>"
  let ?c2 = "?c1\<lparr>in_hand := None, sema := Suc (sema ?c1), running := login_msg # running ?c1\<rparr>"
  have "consumer_step ?settle 256 ?c0 ?c1"
    by (rule consumer_step.take_message) (simp_all add: consumer_start_def)
  moreover have "consumer_step ?settle 256 ?c1 ?c2"
    by (rule consumer_step.start_goroutine) (simp_all add: consumer_start_def)
  ultimately have r: "consumer_reachable ?settle 256 [login_msg] ?w ?c2"
    by (meson consumer_reachable.intros)
  have "accounted ?c2 = {#login_msg#}"
    using consumer_settles_every_message [where ctx = "\<lambda>_. no_span", OF r] by simp
  then show ?thesis using r by (intro exI [of _ ?c2]) (simp add: consumer_start_def)
qed

end
