(* ===== verification/Batching.thy ===== *)
theory Batching
  imports Prelude "HOL-Library.Multiset"
begin

text \<open>
  The interface of a batch that collects items until it is flushed, shared by the log bridge and the
  Promtail client, and what any run of arrivals and flushes over it does.
\<close>

datatype 'e batch_event = Arrive 'e | Flush

fun arrivals :: "'e batch_event list \<Rightarrow> 'e list" where
  "arrivals [] = []"
| "arrivals (Arrive e # evs) = e # arrivals evs"
| "arrivals (Flush # evs) = arrivals evs"

lemma arrivals_append [simp]: "arrivals (xs @ ys) = arrivals xs @ arrivals ys"
  by (induction xs rule: arrivals.induct) simp_all

locale batching =
  fixes fresh :: 'b
    and add :: "'e \<Rightarrow> 'b \<Rightarrow> 'b"
    and items :: "'b \<Rightarrow> 'i multiset"
    and item :: "'e \<Rightarrow> 'i"
    and len :: "'b \<Rightarrow> nat"
    and wf :: "'b \<Rightarrow> bool"
  assumes wf_fresh: "wf fresh" and wf_add: "wf b \<Longrightarrow> wf (add e b)"
    and items_fresh: "items fresh = {#}"
    and items_add: "wf b \<Longrightarrow> items (add e b) = add_mset (item e) (items b)"
    and len_fresh: "len fresh = 0" and len_add: "len (add e b) = Suc (len b)"
begin

text \<open>One event: the batch and the batches handed on so far.\<close>

fun on_event :: "nat \<Rightarrow> 'e batch_event \<Rightarrow> 'b \<times> 'b list \<Rightarrow> 'b \<times> 'b list" where
  "on_event limit (Arrive e) (b, done) =
     (let b' = add e b in if limit \<le> len b' then (fresh, done @ [b']) else (b', done))"
| "on_event limit Flush (b, done) = (if 0 < len b then (fresh, done @ [b]) else (b, done))"

fun on_events :: "nat \<Rightarrow> 'e batch_event list \<Rightarrow> 'b \<times> 'b list \<Rightarrow> 'b \<times> 'b list" where
  "on_events limit [] s = s"
| "on_events limit (ev # evs) s = on_events limit evs (on_event limit ev s)"

definition all_items :: "'b \<times> 'b list \<Rightarrow> 'i multiset" where
  "all_items s = items (fst s) + sum_list (map items (snd s))"

definition batch_ok :: "nat \<Rightarrow> 'b \<times> 'b list \<Rightarrow> bool" where
  "batch_ok limit s \<longleftrightarrow>
     wf (fst s) \<and> len (fst s) < limit \<and> size (items (fst s)) = len (fst s) \<and> (\<forall>b\<in>set (snd s). 0 < len b \<and> len b \<le> limit)"

lemma on_event_ok:
  assumes "batch_ok limit s"
  shows "batch_ok limit (on_event limit ev s) \<and>
     all_items (on_event limit ev s) = all_items s + image_mset item (mset (arrivals [ev]))"
proof -
  obtain b ds where s: "s = (b, ds)" by (cases s)
  have w: "wf b" "len b < limit" using assms s by (simp_all add: batch_ok_def)
  show ?thesis
    using assms w s wf_fresh len_fresh items_fresh
    by (cases ev) (auto simp: batch_ok_def all_items_def Let_def len_add items_add wf_add)
qed

lemma arrivals_Cons: "arrivals (ev # evs) = arrivals [ev] @ arrivals evs"
  by (cases ev) simp_all

lemma on_events_ok:
  "batch_ok limit s \<Longrightarrow>
     batch_ok limit (on_events limit evs s) \<and>
     all_items (on_events limit evs s) = all_items s + image_mset item (mset (arrivals evs))"
proof (induction evs arbitrary: s)
  case Nil
  then show ?case by simp
next
  case (Cons ev evs)
  then show ?case
    using on_event_ok [OF Cons.prems, of ev] Cons.IH [of "on_event limit ev s"]
    by (simp add: arrivals_Cons [of ev evs] del: arrivals.simps(2,3))
qed

lemma on_events_snoc: "on_events limit (evs @ [ev]) s = on_event limit ev (on_events limit evs s)"
  by (induction evs arbitrary: s) simp_all

text \<open>Nothing is lost, nothing is doubled, no batch is empty or too large.\<close>

lemma batches_conserve:
  "0 < limit \<Longrightarrow>
     batch_ok limit (on_events limit evs (fresh, [])) \<and>
     all_items (on_events limit evs (fresh, [])) = image_mset item (mset (arrivals evs))"
  using on_events_ok [of limit "(fresh, [])" evs]
  by (simp add: batch_ok_def all_items_def wf_fresh items_fresh len_fresh)

end

end
