(* ===== verification/LokiPush.thy ===== *)
theory LokiPush
  imports GoJson
begin

text \<open>
  The body of a push to Loki, which the log bridge and the Promtail client both write:
  streams of labels and of pairs of a time and a line, as documented for \<open>POST /loki/api/v1/push\<close>. \<open>loki_read\<close> is how Loki
  reads it.
\<close>

type_synonym loki_streams = "((string \<times> string) list \<times> (string \<times> string) list) list"

definition loki_values_text :: "(string \<times> string) list \<Rightarrow> string" where
  "loki_values_text values =
     json_array (map (\<lambda>(ts, line). json_array [json_quote True ts, json_quote True line]) values)"

definition loki_stream_text :: "(string \<times> string) list \<Rightarrow> (string \<times> string) list \<Rightarrow> string" where
  "loki_stream_text labels values = json_object True
     [(''stream'', marshal_strings True labels), (''values'', loki_values_text values)]"

definition loki_push_text :: "loki_streams \<Rightarrow> string" where
  "loki_push_text streams = json_object True
     [(''streams'', json_array (map (\<lambda>(labels, values). loki_stream_text labels values) streams))]"

section \<open>Reading it\<close>

fun read_string :: "json \<Rightarrow> string option" where
  "read_string (JString t) = Some t"
| "read_string _ = None"

fun read_pair :: "json \<Rightarrow> (string \<times> string) option" where
  "read_pair (JArray [JString a, JString b]) = Some (a, b)"
| "read_pair _ = None"

fun all_some :: "'a option list \<Rightarrow> 'a list option" where
  "all_some [] = Some []"
| "all_some (None # xs) = None"
| "all_some (Some x # xs) = (case all_some xs of None \<Rightarrow> None | Some ys \<Rightarrow> Some (x # ys))"

definition read_labels :: "json \<Rightarrow> (string \<times> string) list option" where
  "read_labels v =
     (case v of
        JObject ms \<Rightarrow> all_some (map (\<lambda>(k, _, v). map_option (Pair k) (read_string v)) ms)
      | _ \<Rightarrow> None)"

definition read_values :: "json \<Rightarrow> (string \<times> string) list option" where
  "read_values v = (case v of JArray vs \<Rightarrow> all_some (map read_pair vs) | _ \<Rightarrow> None)"

definition member :: "string \<Rightarrow> (string \<times> string \<times> json) list \<Rightarrow> json option" where
  "member k ms = map_of (map (\<lambda>(k, _, v). (k, v)) ms) k"

definition read_stream :: "json \<Rightarrow> ((string \<times> string) list \<times> (string \<times> string) list) option" where
  "read_stream v =
     (case v of
        JObject ms \<Rightarrow>
          (case (member ''stream'' ms, member ''values'' ms) of
             (Some ls, Some vs) \<Rightarrow>
               (case (read_labels ls, read_values vs) of (Some l, Some x) \<Rightarrow> Some (l, x) | _ \<Rightarrow> None)
           | _ \<Rightarrow> None)
      | _ \<Rightarrow> None)"

definition loki_read :: "string \<Rightarrow> loki_streams option" where
  "loki_read text =
     (case json_value 0 text of
        Some (JObject ms, rest) \<Rightarrow>
          (case member ''streams'' ms of
             Some (JArray vs) \<Rightarrow> if skip_ws rest = [] then all_some (map read_stream vs) else None
           | Some JNull \<Rightarrow> if skip_ws rest = [] then Some [] else None
           | _ \<Rightarrow> None)
      | _ \<Rightarrow> None)"

section \<open>What is written is read\<close>

lemma all_some_map: "(\<And>x. x \<in> set xs \<Longrightarrow> f x = Some (g x)) \<Longrightarrow> all_some (map f xs) = Some (map g xs)"
  by (induction xs) simp_all

definition both_valid :: "string \<times> string \<Rightarrow> string \<times> string" where
  "both_valid kv = (to_valid (fst kv), to_valid (snd kv))"

definition valid_streams :: "loki_streams \<Rightarrow> loki_streams" where
  "valid_streams streams = map (\<lambda>(labels, values). (map both_valid labels, map both_valid values)) streams"

lemma renders_pair:
  assumes "d < maxNestingDepth"
  shows "renders d (json_array [json_quote True a, json_quote True b])
     (JArray [JString (to_valid a), JString (to_valid b)])"
proof -
  have "renders d (json_array (map fst [(json_quote True a, JString (to_valid a)), (json_quote True b, JString (to_valid b))]))
      (JArray (map snd [(json_quote True a, JString (to_valid a)), (json_quote True b, JString (to_valid b))]))"
    by (rule renders_array [OF assms]) (auto simp: renders_string, simp_all add: json_quote_def)
  then show ?thesis by simp
qed

lemma renders_values:
  assumes "Suc d < maxNestingDepth"
  shows "renders d (loki_values_text values)
     (JArray (map (\<lambda>(a, b). JArray [JString (to_valid a), JString (to_valid b)]) values))"
proof -
  let ?f = "\<lambda>(a, b). (json_array [json_quote True a, json_quote True b],
      JArray [JString (to_valid a), JString (to_valid b)])"
  have "renders d (json_array (map fst (map ?f values))) (JArray (map snd (map ?f values)))"
  proof (rule renders_array)
    show "d < maxNestingDepth" using assms by simp
    show "renders (Suc d) t v" if "(t, v) \<in> set (map ?f values)" for t v
      using that renders_pair [OF assms] by auto
    show "hd t \<noteq> CHR '']''" if "(t, v) \<in> set (map ?f values)" for t v
      using that by (auto simp: json_array_def)
  qed
  then show ?thesis by (simp add: loki_values_text_def comp_def case_prod_unfold)
qed

text \<open>The value of a stream's text.\<close>

definition stream_value :: "(string \<times> string) list \<Rightarrow> (string \<times> string) list \<Rightarrow> json" where
  "stream_value labels values = JObject
     [(''stream'', marshal_strings True labels,
       JObject (map (\<lambda>(k, v). (to_valid k, json_quote True v, JString (to_valid v))) labels)),
      (''values'', loki_values_text values,
       JArray (map (\<lambda>(a, b). JArray [JString (to_valid a), JString (to_valid b)]) values))]"

lemma plain_names:
  "to_valid ''stream'' = ''stream''" "to_valid ''values'' = ''values''" "to_valid ''streams'' = ''streams''"
  by (rule to_valid_plain [of True]; simp add: plain_char_def byte_def quote_def backslash_def)+

lemma renders_stream:
  assumes "Suc (Suc d) < maxNestingDepth"
  shows "renders d (loki_stream_text labels values) (stream_value labels values)"
proof -
  let ?ms = "[(''stream'', marshal_strings True labels,
       JObject (map (\<lambda>(k, v). (to_valid k, json_quote True v, JString (to_valid v))) labels)),
      (''values'', loki_values_text values,
       JArray (map (\<lambda>(a, b). JArray [JString (to_valid a), JString (to_valid b)]) values))]"
  have "renders d (json_object True (map (\<lambda>(k, t, v). (k, t)) ?ms)) (JObject (map (\<lambda>(k, t, v). (to_valid k, t, v)) ?ms))"
    by (rule renders_object) (use assms in \<open>auto intro: renders_strings renders_values\<close>)
  then show ?thesis by (simp add: loki_stream_text_def stream_value_def plain_names)
qed

lemma renders_streams:
  "\<exists>raw. renders 0 (loki_push_text streams)
     (JObject [(''streams'', raw, JArray (map (\<lambda>(l, v). stream_value l v) streams))])"
proof -
  have deep: "Suc (Suc (Suc (Suc 0))) < maxNestingDepth" by (simp add: maxNestingDepth_def)
  let ?f = "\<lambda>(l, v). (loki_stream_text l v, stream_value l v)"
  let ?arr = "json_array (map fst (map ?f streams))"
  have arr: "renders (Suc 0) ?arr (JArray (map snd (map ?f streams)))"
  proof (rule renders_array)
    show "Suc 0 < maxNestingDepth" using deep by simp
    show "renders (Suc (Suc 0)) t v" if "(t, v) \<in> set (map ?f streams)" for t v
      using that renders_stream [OF deep] by auto
    show "hd t \<noteq> CHR '']''" if "(t, v) \<in> set (map ?f streams)" for t v
      using that by (auto simp: loki_stream_text_def json_object_def)
  qed
  let ?ms = "[(''streams'', ?arr, JArray (map snd (map ?f streams)))]"
  have "renders 0 (json_object True (map (\<lambda>(k, t, v). (k, t)) ?ms)) (JObject (map (\<lambda>(k, t, v). (to_valid k, t, v)) ?ms))"
    by (rule renders_object) (use arr deep in auto)
  then show ?thesis
    by (auto simp: loki_push_text_def plain_names comp_def case_prod_unfold)
qed

lemma read_stream_value: "read_stream (stream_value labels values) = Some (map both_valid labels, map both_valid values)"
proof -
  have "read_labels (JObject (map (\<lambda>(k, v). (to_valid k, json_quote True v, JString (to_valid v))) labels)) =
      Some (map both_valid labels)"
    by (simp add: read_labels_def comp_def case_prod_unfold both_valid_def all_some_map)
  moreover have "read_values (JArray (map (\<lambda>(a, b). JArray [JString (to_valid a), JString (to_valid b)]) values)) =
      Some (map both_valid values)"
    by (simp add: read_values_def comp_def case_prod_unfold both_valid_def all_some_map)
  ultimately show ?thesis by (simp add: read_stream_def stream_value_def member_def)
qed

lemma loki_read_push_text: "loki_read (loki_push_text streams) = Some (valid_streams streams)"
proof -
  obtain raw where r: "renders 0 (loki_push_text streams)
      (JObject [(''streams'', raw, JArray (map (\<lambda>(l, v). stream_value l v) streams))])"
    using renders_streams by blast
  then have "json_value 0 (loki_push_text streams) =
      Some (JObject [(''streams'', raw, JArray (map (\<lambda>(l, v). stream_value l v) streams))], [])"
    unfolding renders_def by (metis append_Nil2)
  moreover have "all_some (map read_stream (map (\<lambda>(l, v). stream_value l v) streams)) = Some (valid_streams streams)"
    unfolding valid_streams_def map_map comp_def
    by (rule all_some_map) (auto simp: read_stream_value)
  ultimately show ?thesis by (simp add: loki_read_def member_def skip_ws_def)
qed

end
