(* ===== verification/GoTime.thy ===== *)
theory GoTime
  imports GoText "HOL-Library.Monad_Syntax" "HOL-Library.Word"
begin

text \<open>
  The two calls of Go's \<open>time\<close> that the log path makes, on times as nanoseconds since the Unix epoch:
  \<open>rfc3339nano\<close> is \<open>t.UTC().Format(time.RFC3339Nano)\<close> for times from the year 0, \<open>parse_rfc3339\<close> is
  \<open>time.Parse(time.RFC3339Nano, s)\<close>, \<open>unix_nano\<close> the \<open>int64\<close> of \<open>UnixNano\<close>.

  \<open>time.Parse\<close> first tries a strict reading and then the general one, which accepts more - one digit for
  the hour, a comma before the fraction, an offset of up to 24:60 - and gives the same time where both
  succeed; \<open>parse_rfc3339\<close> is the general one.
\<close>

section \<open>The calendar\<close>

definition leap :: "nat \<Rightarrow> bool" where
  "leap y \<longleftrightarrow> y mod 4 = 0 \<and> (y mod 100 \<noteq> 0 \<or> y mod 400 = 0)"

definition month_lengths :: "nat \<Rightarrow> nat list" where
  "month_lengths y = [31, if leap y then 29 else 28, 31, 30, 31, 30, 31, 31, 30, 31, 30, 31]"

lemma length_month_lengths [simp]: "length (month_lengths y) = 12"
  by (simp add: month_lengths_def)

text \<open>The days from the first day of the year 0 to that of a year: a year that 4 divides has one more, and so on.\<close>

definition days_before_year :: "nat \<Rightarrow> nat" where
  "days_before_year y = 365 * y + (y + 3) div 4 - (y + 99) div 100 + (y + 399) div 400"

definition day_number :: "nat \<Rightarrow> nat \<Rightarrow> nat \<Rightarrow> nat" where
  "day_number y m d = days_before_year y + sum_list (take (m - 1) (month_lengths y)) + (d - 1)"

lemma div_count: "0 < (c :: nat) \<Longrightarrow> (Suc y + (c - 1)) div c = (y + (c - 1)) div c + (if y mod c = 0 then 1 else 0)"
proof -
  assume c: "0 < c"
  have y: "y = c * (y div c) + y mod c" by simp
  have a: "(Suc y + (c - 1)) div c = y div c + 1"
    using c by (simp add: div_add_self2)
  have "(y + (c - 1)) div c = y div c + (if y mod c = 0 then 0 else 1)"
  proof (cases "y mod c = 0")
    case True
    then have "y + (c - 1) = c * (y div c) + (c - 1)" using y by simp
    then show ?thesis using c True by (simp only: div_mult_self4) simp
  next
    case False
    then obtain r where r: "y mod c = Suc r" by (cases "y mod c") simp
    then have "y + (c - 1) = c * (y div c + 1) + (y mod c - 1)"
      using y c by (cases c) simp_all
    moreover have "y mod c - 1 < c" using c by (meson diff_le_self le_less_trans mod_less_divisor)
    ultimately show ?thesis using False c by (simp only: div_mult_self4) simp
  qed
  then show ?thesis unfolding a by simp
qed

lemma days_before_year_Suc: "days_before_year (Suc y) = days_before_year y + sum_list (month_lengths y)"
proof -
  define a b c where d: "a = (y + 3) div 4" "b = (y + 99) div 100" "c = (y + 399) div 400"
  have s: "(Suc y + 3) div 4 = a + (if y mod 4 = 0 then 1 else 0)"
    "(Suc y + 99) div 100 = b + (if y mod 100 = 0 then 1 else 0)"
    "(Suc y + 399) div 400 = c + (if y mod 400 = 0 then 1 else 0)"
    using div_count [of 4 y] div_count [of 100 y] div_count [of 400 y] by (simp_all only: d) simp_all
  have "(y + 99) div 100 \<le> y"
    using div_le_mono [of "y + 99" "100 * y" 100] by (cases y) simp_all
  then have b: "b \<le> y" by (simp only: d)
  have "y mod 100 = 0 \<Longrightarrow> y mod 4 = 0" "y mod 400 = 0 \<Longrightarrow> y mod 100 = 0"
    using dvd_trans [of 4 100 y] dvd_trans [of 100 400 y] by (simp_all add: mod_eq_0_iff_dvd)
  then show ?thesis
    unfolding days_before_year_def s d [symmetric] month_lengths_def leap_def using b by auto
qed

lemma year_days: "sum_list (month_lengths y) = (if leap y then 366 else 365)"
  by (simp add: month_lengths_def)

lemma days_before_year_bounds: "y \<le> days_before_year y \<and> days_before_year y \<le> 366 * y"
proof (induction y)
  case 0
  show ?case by (simp add: days_before_year_def)
qed (auto simp: days_before_year_Suc year_days)

lemma days_before_year_mono: "y \<le> y' \<Longrightarrow> days_before_year y \<le> days_before_year y'"
  by (rule lift_Suc_mono_le [of days_before_year]) (simp_all add: days_before_year_Suc)

text \<open>The year, month and day of a day number: the first year that ends after it, from a year that begins before it.\<close>

function year_from :: "nat \<Rightarrow> nat \<Rightarrow> nat" where
  "year_from y n = (if n < days_before_year (Suc y) then y else year_from (Suc y) n)"
  by auto
termination
proof (relation "measure (\<lambda>(y, n). Suc n - y)")
  fix y n assume "\<not> n < days_before_year (Suc y)"
  then have "Suc y \<le> n" using days_before_year_bounds [of "Suc y"] by linarith
  then show "((Suc y, n), (y, n)) \<in> measure (\<lambda>(y, n). Suc n - y)" by simp
qed simp

declare year_from.simps [simp del]

fun split_month :: "nat list \<Rightarrow> nat \<Rightarrow> nat \<times> nat" where
  "split_month [] r = (0, r)"
| "split_month (l # ls) r =
     (if r < l then (0, r) else (case split_month ls (r - l) of (m, r') \<Rightarrow> (Suc m, r')))"

definition civil :: "nat \<Rightarrow> nat \<times> nat \<times> nat" where
  "civil n =
     (let y = year_from (n div 366) n in
      case split_month (month_lengths y) (n - days_before_year y) of (m, r) \<Rightarrow> (y, Suc m, Suc r))"

lemma year_from_bounds:
  "days_before_year y \<le> n \<Longrightarrow>
     days_before_year (year_from y n) \<le> n \<and> n < days_before_year (Suc (year_from y n))"
proof (induction y n rule: year_from.induct)
  case (1 y n)
  then show ?case by (cases "n < days_before_year (Suc y)") (simp_all add: year_from.simps [of y n])
qed

lemma split_month_spec:
  "r < sum_list ls \<Longrightarrow> split_month ls r = (m, r') \<Longrightarrow>
     m < length ls \<and> r' < ls ! m \<and> sum_list (take m ls) + r' = r"
proof (induction ls r arbitrary: m r' rule: split_month.induct)
  case (2 l ls r)
  show ?case
  proof (cases "r < l")
    case True
    then show ?thesis using "2.prems" by auto
  next
    case False
    obtain m1 r1 where s: "split_month ls (r - l) = (m1, r1)" by fastforce
    then have e: "m = Suc m1" "r' = r1" using False "2.prems"(2) by auto
    have "r - l < sum_list ls" using False "2.prems"(1) by auto
    from "2.IH" [OF False this s] show ?thesis using False by (auto simp: e)
  qed
qed simp

lemma civil_spec:
  assumes "civil n = (y, m, d)"
  shows "day_number y m d = n" "1 \<le> m" "m \<le> 12" "1 \<le> d" "d \<le> month_lengths y ! (m - 1)"
    "days_before_year y \<le> n" "n < days_before_year (Suc y)"
proof -
  have y: "y = year_from (n div 366) n"
    using assms by (simp add: civil_def Let_def split: prod.splits)
  have "days_before_year (n div 366) \<le> n"
    using days_before_year_bounds [of "n div 366"] by linarith
  from year_from_bounds [OF this] show b: "days_before_year y \<le> n" "n < days_before_year (Suc y)"
    by (simp_all add: y)
  obtain m' r where s: "split_month (month_lengths y) (n - days_before_year y) = (m', r)" by fastforce
  have md: "m = Suc m'" "d = Suc r" using assms s by (simp_all add: civil_def y [symmetric] Let_def)
  have "n - days_before_year y < sum_list (month_lengths y)" using b by (simp add: days_before_year_Suc)
  from split_month_spec [OF this s] show "day_number y m d = n" "1 \<le> m" "m \<le> 12" "1 \<le> d"
    "d \<le> month_lengths y ! (m - 1)"
    using b by (simp_all add: md day_number_def add.assoc)
qed

section \<open>Formatting\<close>

text \<open>A number in at least \<open>w\<close> digits.\<close>

fun pad :: "nat \<Rightarrow> nat \<Rightarrow> string" where
  "pad 0 n = (if n = 0 then [] else show_nat n)"
| "pad (Suc w) n = pad w (n div 10) @ [digit (n mod 10)]"

text \<open>The fraction without its trailing zeros, and nothing for whole seconds.\<close>

definition frac_text :: "nat \<Rightarrow> string" where
  "frac_text ns = (if ns = 0 then [] else CHR ''.'' # rev (dropWhile (\<lambda>c. c = CHR ''0'') (rev (pad 9 ns))))"

definition unixEpochDay :: nat where
  "unixEpochDay = 719528"

definition rfc3339nano :: "int \<Rightarrow> string" where
  "rfc3339nano t =
     (let secs = t div 1000000000; sod = nat (secs mod 86400);
          (y, m, d) = civil (nat (secs div 86400 + int unixEpochDay)) in
      pad 4 y @ ''-'' @ pad 2 m @ ''-'' @ pad 2 d @ ''T'' @
      pad 2 (sod div 3600) @ '':'' @ pad 2 (sod div 60 mod 60) @ '':'' @ pad 2 (sod mod 60) @
      frac_text (nat (t mod 1000000000)) @ ''Z'')"

section \<open>Parsing\<close>

definition getyear :: "string \<Rightarrow> (nat \<times> string) option" where
  "getyear s =
     (case s of
        a # b # c # d # r \<Rightarrow> map_option (\<lambda>n. (n, r)) (parse_digits 0 [a, b, c, d])
      | _ \<Rightarrow> None)"

text \<open>One or two digits, or exactly two.\<close>

definition getnum :: "bool \<Rightarrow> string \<Rightarrow> (nat \<times> string) option" where
  "getnum fixed s =
     (case s of
        [] \<Rightarrow> None
      | a # r \<Rightarrow>
          (case digit_value a of
             None \<Rightarrow> None
           | Some x \<Rightarrow>
               (case (case r of [] \<Rightarrow> None | b # _ \<Rightarrow> digit_value b) of
                  Some z \<Rightarrow> Some (10 * x + z, tl r)
                | None \<Rightarrow> if fixed then None else Some (x, r))))"

definition skip :: "char \<Rightarrow> string \<Rightarrow> string option" where
  "skip c s = (case s of [] \<Rightarrow> None | x # r \<Rightarrow> if x = c then Some r else None)"

text \<open>The fraction is optional, of any length; digits after the ninth do not count.\<close>

definition getfrac :: "string \<Rightarrow> (nat \<times> string) option" where
  "getfrac s =
     (case s of
        c # x # r \<Rightarrow>
          if c \<in> {CHR ''.'', CHR '',''} \<and> digit_value x \<noteq> None
          then map_option (\<lambda>n. (n, dropWhile (\<lambda>z. digit_value z \<noteq> None) (tl s)))
                 (parse_digits 0 (take 9 (takeWhile (\<lambda>z. digit_value z \<noteq> None) (tl s) @ replicate 9 (CHR ''0''))))
          else Some (0, s)
      | _ \<Rightarrow> Some (0, s))"

text \<open>The offset in seconds: \<open>Z\<close>, or a sign, hours and minutes.\<close>

definition getzone :: "string \<Rightarrow> (int \<times> string) option" where
  "getzone s =
     (case s of
        [] \<Rightarrow> None
      | c # r \<Rightarrow>
          if c = CHR ''Z'' then Some (0, r)
          else do {
            (hr, r1) \<leftarrow> getnum True r;
            r2 \<leftarrow> skip (CHR '':'') r1;
            (mm, r3) \<leftarrow> getnum True r2;
            if 24 < hr \<or> 60 < mm then None
            else if c = CHR ''+'' then Some (int (hr * 60 + mm) * 60, r3)
            else if c = CHR ''-'' then Some (- int (hr * 60 + mm) * 60, r3)
            else None
          })"

definition parse_rfc3339 :: "string \<Rightarrow> int option" where
  "parse_rfc3339 s = do {
     (y, s1) \<leftarrow> getyear s;
     s2 \<leftarrow> skip (CHR ''-'') s1;
     (m, s3) \<leftarrow> getnum True s2;
     s4 \<leftarrow> skip (CHR ''-'') s3;
     (d, s5) \<leftarrow> getnum True s4;
     s6 \<leftarrow> skip (CHR ''T'') s5;
     (h, s7) \<leftarrow> getnum False s6;
     s8 \<leftarrow> skip (CHR '':'') s7;
     (mi, s9) \<leftarrow> getnum True s8;
     s10 \<leftarrow> skip (CHR '':'') s9;
     (sec, s11) \<leftarrow> getnum True s10;
     (ns, s12) \<leftarrow> getfrac s11;
     (off, s13) \<leftarrow> getzone s12;
     if 1 \<le> m \<and> m \<le> 12 \<and> h < 24 \<and> mi < 60 \<and> sec < 60 \<and> s13 = [] \<and>
        1 \<le> d \<and> d \<le> month_lengths y ! (m - 1)
     then Some (((int (day_number y m d) - int unixEpochDay) * 86400 + int (h * 3600 + mi * 60 + sec) - off)
                  * 1000000000 + int ns)
     else None
   }"

definition unix_nano :: "int \<Rightarrow> int" where
  "unix_nano t = sint (word_of_int t :: i64)"

section \<open>A time is read back as it was written\<close>

lemma digit_digits: "list_all (\<lambda>c. digit_value c \<noteq> None) (show_nat n)"
proof (induction n rule: show_nat.induct)
  case (1 n)
  then show ?case by (subst show_nat.simps) (simp add: digit_value_digit)
qed

lemma pad_digits: "list_all (\<lambda>c. digit_value c \<noteq> None) (pad w n)"
proof (induction w arbitrary: n)
  case 0
  then show ?case using digit_digits [of n] by simp
qed (simp add: digit_value_digit)

lemma pad_length: "n < 10 ^ w \<Longrightarrow> length (pad w n) = w"
proof (induction w arbitrary: n)
  case (Suc w)
  then have "n div 10 < 10 ^ w" by (simp add: less_mult_imp_div_less)
  then show ?case using Suc.IH by simp
qed simp

lemma parse_pad: "n < 10 ^ w \<Longrightarrow> parse_digits 0 (pad w n) = Some n"
proof (induction w arbitrary: n)
  case (Suc w)
  then have "n div 10 < 10 ^ w" by (simp add: less_mult_imp_div_less)
  then show ?case using Suc.IH by (simp add: parse_digits_append digit_value_digit)
qed simp

lemma pad_2: "n < 100 \<Longrightarrow> pad 2 n = [digit (n div 10), digit (n mod 10)]"
  by (simp add: numeral_2_eq_2)

lemma getyear_pad: "y < 10000 \<Longrightarrow> getyear (pad 4 y @ r) = Some (y, r)"
proof -
  assume y: "y < 10000"
  have "pad (Suc (Suc (Suc (Suc 0)))) y =
      pad 0 (y div 10 div 10 div 10 div 10) @ [digit (y div 10 div 10 div 10 mod 10), digit (y div 10 div 10 mod 10),
        digit (y div 10 mod 10), digit (y mod 10)]"
    by (simp only: pad.simps append_assoc append.simps)
  moreover have "y div 10 div 10 div 10 div 10 = 0" using y by simp
  moreover have "4 = Suc (Suc (Suc (Suc 0)))" by simp
  ultimately obtain a b c d where p: "pad 4 y = [a, b, c, d]" by (metis append_Nil pad.simps(1))
  have "parse_digits 0 [a, b, c, d] = Some y" using parse_pad [of y 4] y by (simp only: p) simp
  then show ?thesis by (simp only: getyear_def p) simp
qed

lemma getnum_pad: "n < 100 \<Longrightarrow> getnum fixed (pad 2 n @ r) = Some (n, r)"
  by (simp add: pad_2 getnum_def digit_value_digit)

lemma skip_Cons [simp]: "skip c (c # r) = Some r"
  by (simp add: skip_def)

lemma trimmed_padded:
  "rev (dropWhile (\<lambda>x. x = c) (rev xs)) @ replicate (length xs - length (dropWhile (\<lambda>x. x = c) (rev xs))) c = xs"
proof (induction xs rule: rev_induct)
  case (snoc x xs)
  show ?case
  proof (cases "x = c")
    case True
    let ?d = "dropWhile (\<lambda>x. x = c) (rev xs)"
    have "length ?d \<le> length xs" by (metis length_dropWhile_le length_rev)
    then have "length (xs @ [x]) - length ?d = Suc (length xs - length ?d)" by simp
    moreover have "rev ?d @ replicate (Suc (length xs - length ?d)) c = xs @ [c]"
      using snoc.IH by (simp only: replicate_Suc replicate_append_same [symmetric] append_assoc [symmetric])
    ultimately show ?thesis using True by simp
  qed simp
qed simp

lemma getfrac_text:
  assumes "ns < 1000000000"
  shows "getfrac (frac_text ns @ ''Z'') = Some (ns, ''Z'')"
proof (cases "ns = 0")
  case True
  then show ?thesis by (simp add: frac_text_def getfrac_def)
next
  case False
  let ?z = "\<lambda>c. c = CHR ''0''" and ?dig = "\<lambda>c. digit_value c \<noteq> None"
  define ds where "ds = rev (dropWhile ?z (rev (pad 9 ns)))"
  have len: "length (pad 9 ns) = 9" using pad_length [of ns 9] assms by simp
  have full: "ds @ replicate (9 - length ds) (CHR ''0'') = pad 9 ns"
    using trimmed_padded [of "CHR ''0''" "pad 9 ns"] by (simp add: ds_def len)
  then have le: "length ds \<le> 9" using len by (metis le_add1 length_append)
  have t9: "take 9 (ds @ replicate 9 (CHR ''0'')) = pad 9 ns"
    using full le by (simp add: min_absorb1)
  have "list_all ?dig (pad 9 ns)" by (rule pad_digits)
  then have dig: "list_all ?dig ds" using full by (metis list_all_append)
  have "ds \<noteq> []"
  proof
    assume "ds = []"
    then have "parse_digits 0 (replicate 9 (CHR ''0'')) = Some ns" using full parse_pad [of ns 9] assms by simp
    then show False using False by (simp add: numeral_eq_Suc digit_value_def)
  qed
  then obtain x r where x: "ds = x # r" by (cases ds) auto
  have z: "digit_value (CHR ''Z'') = None" by (simp add: digit_value_def)
  have "takeWhile ?dig (ds @ ''Z'') = ds" "dropWhile ?dig (ds @ ''Z'') = ''Z''"
    using dig z by (simp_all add: takeWhile_append2 dropWhile_append2 list_all_iff)
  moreover have "?dig x" using dig x by simp
  ultimately show ?thesis
    using False t9 parse_pad [of ns 9] assms
    by (simp add: frac_text_def getfrac_def x flip: ds_def)
qed

definition printable_time :: "int \<Rightarrow> bool" where
  "printable_time t \<longleftrightarrow> - 62167219200000000000 \<le> t \<and> t < 253402300800000000000"

lemma printable_i64: "fits_i64 t \<Longrightarrow> printable_time t"
  by (simp add: fits_i64_def printable_time_def)

theorem parse_rfc3339nano:
  assumes "printable_time t"
  shows "parse_rfc3339 (rfc3339nano t) = Some t"
proof -
  define secs where "secs = t div 1000000000"
  define sod where "sod = nat (secs mod 86400)"
  define n where "n = nat (secs div 86400 + int unixEpochDay)"
  obtain y m d where c: "civil n = (y, m, d)" by (cases "civil n")
  note cs = civil_spec [OF c]
  have secs: "- 62167219200 \<le> secs" "secs < 253402300800"
    using assms by (auto simp: secs_def printable_time_def)
  have n: "int n = secs div 86400 + int unixEpochDay" "n < 3652425"
    using secs by (auto simp: n_def unixEpochDay_def)
  have "days_before_year 10000 = 3652425" by (simp add: days_before_year_def)
  then have y: "y < 10000"
    using days_before_year_mono [of 10000 y] cs(6) n(2) by (cases "10000 \<le> y") linarith+
  have "month_lengths y ! (m - 1) \<le> 31"
    using cs(2,3) by (auto simp: month_lengths_def nth_Cons split: nat.splits)
  then have d: "d < 100" using cs(5) by linarith
  have m: "m < 100" using cs(3) by linarith
  have sod: "sod < 86400" "int sod = secs mod 86400" by (auto simp: sod_def nat_less_iff)
  have h: "sod div 3600 < 24" using sod(1) by (simp add: less_mult_imp_div_less)
  have ns: "nat (t mod 1000000000) < 1000000000" by (simp add: nat_less_iff)
  have e: "rfc3339nano t = pad 4 y @ ''-'' @ pad 2 m @ ''-'' @ pad 2 d @ ''T'' @
      pad 2 (sod div 3600) @ '':'' @ pad 2 (sod div 60 mod 60) @ '':'' @ pad 2 (sod mod 60) @
      frac_text (nat (t mod 1000000000)) @ ''Z''"
    using c by (simp only: rfc3339nano_def secs_def [symmetric] sod_def [symmetric] n_def [symmetric] Let_def split_conv)
  have q: "sod div 3600 = sod div 60 div 60" using div_mult2_eq [of sod 60 60] by simp
  have "sod div 3600 * 3600 + sod div 60 mod 60 * 60 + sod mod 60 = sod"
    unfolding q using div_mult_mod_eq [of sod 60] div_mult_mod_eq [of "sod div 60" 60] by linarith
  then have "(int (day_number y m d) - int unixEpochDay) * 86400
      + int (sod div 3600 * 3600 + sod div 60 mod 60 * 60 + sod mod 60) - 0 = secs"
    using sod(2) n(1) cs(1) div_mult_mod_eq [of secs 86400] by simp
  moreover have "secs * 1000000000 + int (nat (t mod 1000000000)) = t"
    using div_mult_mod_eq [of t 1000000000] by (simp add: secs_def)
  ultimately show ?thesis
    using y m d h cs(2-5) getfrac_text [OF ns]
    by (simp add: e parse_rfc3339_def getyear_pad getnum_pad getzone_def)
qed

lemma unix_nano_fits: "fits_i64 t \<Longrightarrow> unix_nano t = t"
  by (simp add: unix_nano_def sint_of_fitting)

end
