(* ===== verification/LogBridge.thy ===== *)
theory LogBridge
  imports Batching GoError LokiPush GoTime
begin

text \<open>
  The log bridge service (\<open>src/app/iotlogbridge/cmd/main.go\<close>): messages come from JetStream, wait in a
  bounded channel, are collected in a buffer, pushed to Loki as one batch, and settled.

  Parameters: \<open>now i\<close> is the clock at its \<open>i\<close>-th reading, in nanoseconds since the epoch, \<open>post\<close> the HTTP
  call, on a URL and a body.
\<close>

section \<open>Settings\<close>

definition bridge_subject :: "string \<Rightarrow> string" where
  "bridge_subject s = (if s = [] then ''rainiot.logs'' else s)"

definition bridge_queueGroup :: "string \<Rightarrow> string" where
  "bridge_queueGroup s = (if s = [] then ''iotlogbridge'' else s)"

definition bridge_lokiURL :: "string \<Rightarrow> string" where
  "bridge_lokiURL s = (if s = [] then ''http://localhost:3100'' else s)"

definition bridge_batchSize :: "int \<Rightarrow> nat" where
  "bridge_batchSize n = (if n \<le> 0 then 5000 else nat n)"

definition bridge_flushSec :: "int \<Rightarrow> int" where
  "bridge_flushSec n = (if n \<le> 0 then 3 else n)"

text \<open>\<open>strings.ToUpper\<close> on ASCII, the characters a subject has.\<close>

definition to_upper :: "char \<Rightarrow> char" where
  "to_upper c = (let n = of_char c :: nat in if 97 \<le> n \<and> n \<le> 122 then char_of (n - 32) else c)"

definition streamNameFromSubject :: "string \<Rightarrow> string" where
  "streamNameFromSubject subj =
     map to_upper (replace_byte (CHR ''-'') (CHR ''_'') (replace_byte (CHR ''.'') (CHR ''_'') subj))"

text \<open>
  \<open>ensureStream\<close>: \<open>info\<close> says whether the stream is there, \<open>add_stream\<close> creates it.
\<close>

definition ensureStream ::
  "(string \<Rightarrow> 'w \<Rightarrow> go_error option \<times> 'w) \<Rightarrow> (string \<Rightarrow> string list \<Rightarrow> 'w \<Rightarrow> go_error option \<times> 'w) \<Rightarrow>
     string \<Rightarrow> string \<Rightarrow> 'w \<Rightarrow> go_error option \<times> 'w" where
  "ensureStream info add_stream name subj w =
     (case info name w of
        (None, w1) \<Rightarrow> (None, w1)
      | (Some _, w1) \<Rightarrow>
          (case add_stream name [subj] w1 of
             (Some err, w2) \<Rightarrow> (Some err, w2)
           | (None, w2) \<Rightarrow> (None, w2)))"

section \<open>Pushing a batch\<close>

record log_entry =
  le_timestamp :: string
  le_level :: string
  le_source :: string
  le_job :: string
  le_message :: string

type_synonym stream_key = "string \<times> string \<times> string"

record loki_stream =
  ls_labels :: "(string \<times> string) list"   \<comment> \<open>the label map, by key\<close>
  ls_values :: "(int \<times> string) list"      \<comment> \<open>time and line\<close>

definition parseTimestamp :: "int \<Rightarrow> string \<Rightarrow> int" where
  "parseTimestamp now s =
     (if s = [] then now else case parse_rfc3339 s of None \<Rightarrow> now | Some t \<Rightarrow> t)"

definition stream_key_of :: "log_entry \<Rightarrow> stream_key" where
  "stream_key_of e = (le_source e, le_job e, le_level e)"

text \<open>The line: a two-entry map, which \<open>encoding/json\<close> writes in the order of its keys.\<close>

definition log_line :: "log_entry \<Rightarrow> string" where
  "log_line e = marshal_strings True [(''@timestamp'', le_timestamp e), (''msg'', le_message e)]"

fun group_entries ::
  "('k \<times> 'v) list \<Rightarrow> ('k \<rightharpoonup> 'v list) \<Rightarrow> 'k list \<Rightarrow> ('k \<rightharpoonup> 'v list) \<times> 'k list" where
  "group_entries [] m ks = (m, ks)"
| "group_entries ((k, v) # xs) m ks =
     (case m k of
        None \<Rightarrow> group_entries xs (m(k \<mapsto> [v])) (ks @ [k])
      | Some vs \<Rightarrow> group_entries xs (m(k \<mapsto> vs @ [v])) ks)"

definition stream_of :: "stream_key \<Rightarrow> (int \<times> string) list \<Rightarrow> loki_stream" where
  "stream_of k vs =
     (case k of (source, job, level) \<Rightarrow>
       \<lparr>ls_labels = [(''job'', job), (''level'', level), (''source'', source)], ls_values = vs\<rparr>)"

definition keyed_values ::
  "(nat \<Rightarrow> int) \<Rightarrow> log_entry list \<Rightarrow> (stream_key \<times> (int \<times> string)) list" where
  "keyed_values now entries =
     map (\<lambda>(i, e). (stream_key_of e, (unix_nano (parseTimestamp (now i) (le_timestamp e)), log_line e)))
       (enumerate 0 entries)"

definition loki_push ::
  "(nat \<Rightarrow> int) \<Rightarrow> log_entry list \<Rightarrow> loki_stream list" where
  "loki_push now entries =
     (let (m, ks) = group_entries (keyed_values now entries) Map.empty []
      in map (\<lambda>k. stream_of k (the (m k))) ks)"

text \<open>
  The body, as \<open>json.Marshal\<close> writes it - a nil slice of streams is \<open>null\<close> -; \<open>post\<close> answers an error or a
  status.
\<close>

definition stream_pair :: "loki_stream \<Rightarrow> (string \<times> string) list \<times> (string \<times> string) list" where
  "stream_pair st = (ls_labels st, map (\<lambda>(ts, line). (itoa ts, line)) (ls_values st))"

definition push_body :: "loki_stream list \<Rightarrow> string" where
  "push_body streams =
     (if streams = [] then json_object True [(''streams'', ''null'')]
      else loki_push_text (map stream_pair streams))"

definition pushToLoki ::
  "(nat \<Rightarrow> int) \<Rightarrow>
     (string \<Rightarrow> string \<Rightarrow> 'w \<Rightarrow> (go_error + int) \<times> 'w) \<Rightarrow> string \<Rightarrow> log_entry list \<Rightarrow> 'w
     \<Rightarrow> go_error option \<times> 'w" where
  "pushToLoki now post u entries w =
     (case post (u @ ''/loki/api/v1/push'') (push_body (loki_push now entries)) w of
        (Inl err, w') \<Rightarrow> (Some err, w')
      | (Inr code, w') \<Rightarrow>
          if code \<ge> 400 then (Some (TextError (''loki returned '' @ itoa code)), w') else (None, w'))"

text \<open>What the grouping computes: the keys by first appearance, each with its values in order.\<close>

fun first_keys :: "'k list \<Rightarrow> 'k list \<Rightarrow> 'k list" where
  "first_keys [] seen = []"
| "first_keys (k # ks) seen = (if k \<in> set seen then first_keys ks seen else k # first_keys ks (seen @ [k]))"

definition values_of :: "'k \<Rightarrow> ('k \<times> 'v) list \<Rightarrow> 'v list" where
  "values_of k xs = map snd (filter (\<lambda>x. fst x = k) xs)"

lemma values_of_simps [simp]:
  "values_of k [] = []" "values_of k ((j, v) # xs) = (if j = k then v # values_of k xs else values_of k xs)"
  by (simp_all add: values_of_def)

definition grouped :: "('k \<rightharpoonup> 'v list) \<Rightarrow> ('k \<times> 'v) list \<Rightarrow> 'k \<rightharpoonup> 'v list" where
  "grouped m xs k =
     (case m k of
        Some vs \<Rightarrow> Some (vs @ values_of k xs)
      | None \<Rightarrow> if k \<in> fst ` set xs then Some (values_of k xs) else None)"

lemma values_of_absent: "k \<notin> fst ` set xs \<Longrightarrow> values_of k xs = []"
  by (auto simp: values_of_def filter_empty_conv)

lemma grouped_step:
  "grouped (m(k \<mapsto> (case m k of None \<Rightarrow> [] | Some vs \<Rightarrow> vs) @ [v])) xs = grouped m ((k, v) # xs)"
proof
  fix j
  show "grouped (m(k \<mapsto> (case m k of None \<Rightarrow> [] | Some vs \<Rightarrow> vs) @ [v])) xs j = grouped m ((k, v) # xs) j"
    by (cases "j = k"; cases "m k") (simp_all add: grouped_def split: option.split)
qed

lemma group_entries_spec:
  assumes "dom m = set ks"
  shows "group_entries xs m ks = (grouped m xs, ks @ first_keys (map fst xs) ks)"
  using assms
proof (induction xs arbitrary: m ks)
  case Nil
  have "grouped m [] = m" by (rule ext) (simp add: grouped_def split: option.split)
  then show ?case by simp
next
  case (Cons x xs)
  obtain k v where x: "x = (k, v)" by (cases x)
  show ?case
  proof (cases "m k")
    case None
    then have k: "k \<notin> set ks" using Cons.prems by auto
    have d: "dom (m(k \<mapsto> [v])) = set (ks @ [k])" using Cons.prems by auto
    have "group_entries (x # xs) m ks = group_entries xs (m(k \<mapsto> [v])) (ks @ [k])" using None x by simp
    also have "\<dots> = (grouped (m(k \<mapsto> [v])) xs, (ks @ [k]) @ first_keys (map fst xs) (ks @ [k]))"
      by (rule Cons.IH [OF d])
    also have "grouped (m(k \<mapsto> [v])) xs = grouped m (x # xs)"
      using grouped_step [of m k v xs] None unfolding x by simp
    finally show ?thesis using k x by simp
  next
    case (Some vs)
    then have k: "k \<in> set ks" using Cons.prems by auto
    then have d: "dom (m(k \<mapsto> vs @ [v])) = set ks" using Cons.prems by auto
    have "group_entries (x # xs) m ks = group_entries xs (m(k \<mapsto> vs @ [v])) ks" using Some x by simp
    also have "\<dots> = (grouped (m(k \<mapsto> vs @ [v])) xs, ks @ first_keys (map fst xs) ks)"
      by (rule Cons.IH [OF d])
    also have "grouped (m(k \<mapsto> vs @ [v])) xs = grouped m (x # xs)"
      using grouped_step [of m k v xs] Some unfolding x by simp
    finally show ?thesis using k x by simp
  qed
qed

lemma first_keys_set: "set (first_keys ks seen) = set ks - set seen"
  by (induction ks seen rule: first_keys.induct) auto

lemma first_keys_distinct: "distinct (first_keys ks seen)"
  by (induction ks seen rule: first_keys.induct) (auto simp: first_keys_set)

text \<open>
  A push sends every entry once, under its own labels: one stream per (source, job, level), in the
  order the labels first appear, and in each stream exactly that label's entries, in their order.
\<close>

theorem loki_push_streams:
  "loki_push now entries =
     map (\<lambda>k. stream_of k (values_of k (keyed_values now entries)))
       (first_keys (map stream_key_of entries) []) \<and>
   distinct (first_keys (map stream_key_of entries) []) \<and>
   set (first_keys (map stream_key_of entries) []) = stream_key_of ` set entries"
proof -
  let ?xs = "keyed_values now entries"
  have keys: "map fst ?xs = map stream_key_of entries"
    by (simp add: keyed_values_def comp_def case_prod_beta map_snd_enumerate
        flip: map_map [of stream_key_of snd, unfolded comp_def])
  have G: "group_entries ?xs Map.empty [] = (grouped Map.empty ?xs, first_keys (map fst ?xs) [])"
    using group_entries_spec [of Map.empty "[]" ?xs] by simp
  have "loki_push now entries =
      map (\<lambda>k. stream_of k (values_of k ?xs)) (first_keys (map fst ?xs) [])"
    unfolding loki_push_def G
    by (auto simp: first_keys_set grouped_def intro!: map_cong)
  then show ?thesis
    unfolding keys by (simp add: first_keys_distinct first_keys_set)
qed

lemma loki_read_null: "loki_read (json_object True [(''streams'', ''null'')]) = Some []"
proof -
  have "(0::nat) < maxNestingDepth" by (simp add: maxNestingDepth_def)
  from renders_object [OF this, of "[(''streams'', ''null'', JNull)]" True] renders_null
  have "renders 0 (json_object True [(''streams'', ''null'')]) (JObject [(''streams'', ''null'', JNull)])"
    by (simp add: plain_names)
  then have "json_value 0 (json_object True [(''streams'', ''null'')]) = Some (JObject [(''streams'', ''null'', JNull)], [])"
    unfolding renders_def by (metis append_Nil2)
  then show ?thesis by (simp add: loki_read_def member_def skip_ws_def)
qed

lemma loki_read_push_body:
  "loki_read (push_body sts) = Some (valid_streams (map stream_pair sts))"
proof (cases sts)
  case Nil
  then show ?thesis by (simp add: push_body_def loki_read_null valid_streams_def)
next
  case (Cons st sts')
  then show ?thesis using loki_read_push_text [of "map stream_pair (st # sts')"] by (simp add: push_body_def)
qed

text \<open>
  C23. Loki reads what the bridge pushes: the body of a push is valid JSON whatever the entries hold, and
  Loki's format reads out of it one stream per (source, job, level), in the order the labels first appear,
  and in each stream exactly that label's entries, in their order, bytes that are not UTF-8 replaced.
\<close>

theorem push_body_roundtrip:
  "loki_read (push_body (loki_push now entries)) =
     Some (valid_streams
       (map (\<lambda>k. stream_pair (stream_of k (values_of k (keyed_values now entries))))
         (first_keys (map stream_key_of entries) []))) \<and>
   distinct (first_keys (map stream_key_of entries) []) \<and>
   set (first_keys (map stream_key_of entries) []) = stream_key_of ` set entries"
  using loki_push_streams [of now entries] by (simp add: loki_read_push_body comp_def)

section \<open>The service\<close>

datatype settlement = SAck | SNak int   \<comment> \<open>\<open>Ack\<close>, \<open>NakWithDelay\<close> in seconds\<close>

record pendingMsg =
  pm_id :: nat
  pm_entry :: log_entry

text \<open>
  The state: the channel, the buffer of \<open>flushLoop\<close>, the statistics, and what has been done: the messages
  settled, and the batches that Loki accepted.
\<close>

record bridge =
  chan :: "pendingMsg list"
  fbuf :: "pendingMsg list"
  n_dropped :: nat
  n_sent :: nat
  n_failed :: nat
  n_naked :: nat
  settles :: "(nat \<times> settlement) list"
  accepted :: "pendingMsg list list"

definition bridge_start :: bridge where
  "bridge_start = \<lparr>chan = [], fbuf = [], n_dropped = 0, n_sent = 0, n_failed = 0, n_naked = 0,
     settles = [], accepted = []\<rparr>"

text \<open>\<open>json.Unmarshal\<close> of a message's data into a \<open>LogEntry\<close>.\<close>

definition entry_fields :: "(string \<times> field_kind) list" where
  "entry_fields = [(''timestamp'', FString), (''level'', FString), (''source_name'', FString), (''job'', FString),
     (''message'', FString)]"

definition decode_entry :: "string \<Rightarrow> log_entry option" where
  "decode_entry data =
     (case json_Unmarshal entry_fields data of
        Inl _ \<Rightarrow> None
      | Inr f \<Rightarrow> Some \<lparr>le_timestamp = f ''timestamp'', le_level = f ''level'', le_source = f ''source_name'',
                       le_job = f ''job'', le_message = f ''message''\<rparr>)"

text \<open>The subscription's callback on a message's data; \<open>cap\<close> is the channel's capacity.\<close>

definition on_message :: "nat \<Rightarrow> nat \<Rightarrow> string \<Rightarrow> bridge \<Rightarrow> bridge" where
  "on_message cap i data b =
     (case decode_entry data of
        None \<Rightarrow> b\<lparr>settles := settles b @ [(i, SAck)]\<rparr>
      | Some e \<Rightarrow>
          if length (chan b) < cap then b\<lparr>chan := chan b @ [\<lparr>pm_id = i, pm_entry = e\<rparr>]\<rparr>
          else b\<lparr>settles := settles b @ [(i, SNak 1)], n_dropped := n_dropped b + 1\<rparr>)"

text \<open>\<open>doFlush\<close>; \<open>err\<close> is what \<open>pushToLoki\<close> of the buffer's entries returned.\<close>

definition doFlush :: "go_error option \<Rightarrow> bridge \<Rightarrow> bridge" where
  "doFlush err b =
     (if fbuf b = [] then b
      else
        (case err of
           Some _ \<Rightarrow> b\<lparr>n_failed := n_failed b + 1,
                      settles := settles b @ map (\<lambda>p. (pm_id p, SNak 5)) (fbuf b),
                      n_naked := n_naked b + length (fbuf b), fbuf := []\<rparr>
         | None \<Rightarrow> b\<lparr>settles := settles b @ map (\<lambda>p. (pm_id p, SAck)) (fbuf b),
                    n_sent := n_sent b + 1, accepted := accepted b @ [fbuf b], fbuf := []\<rparr>))"

text \<open>One turn of \<open>flushLoop\<close>: a message from the channel, or the ticker.\<close>

definition flush_receive :: "nat \<Rightarrow> go_error option \<Rightarrow> bridge \<Rightarrow> bridge" where
  "flush_receive maxSize err b =
     (case chan b of
        [] \<Rightarrow> b
      | pm # rest \<Rightarrow>
          (let b1 = b\<lparr>chan := rest, fbuf := fbuf b @ [pm]\<rparr>
           in if length (fbuf b1) \<ge> maxSize then doFlush err b1 else b1))"

datatype bridge_event =
    Delivered nat string
  | Received "go_error option"
  | Ticked "go_error option"

fun bridge_run :: "nat \<Rightarrow> bridge_event list \<Rightarrow> bridge \<Rightarrow> bridge" where
  "bridge_run maxSize [] b = b"
| "bridge_run maxSize (Delivered i data # evs) b =
     bridge_run maxSize evs (on_message (maxSize * 2) i data b)"
| "bridge_run maxSize (Received err # evs) b = bridge_run maxSize evs (flush_receive maxSize err b)"
| "bridge_run maxSize (Ticked err # evs) b = bridge_run maxSize evs (doFlush err b)"

fun delivered :: "bridge_event list \<Rightarrow> (nat \<times> log_entry option) list" where
  "delivered [] = []"
| "delivered (Delivered i data # evs) = (i, decode_entry data) # delivered evs"
| "delivered (_ # evs) = delivered evs"

text \<open>The messages settled, those acknowledged, those Loki has, and those that could not be read.\<close>

definition settled_ids :: "bridge \<Rightarrow> nat list" where
  "settled_ids b = map fst (settles b)"

definition acked_ids :: "bridge \<Rightarrow> nat list" where
  "acked_ids b = map fst (filter (\<lambda>x. snd x = SAck) (settles b))"

definition stored_ids :: "bridge \<Rightarrow> nat list" where
  "stored_ids b = map pm_id (concat (accepted b))"

definition unreadable_ids :: "(nat \<times> log_entry option) list \<Rightarrow> nat list" where
  "unreadable_ids ds = map fst (filter (\<lambda>d. snd d = None) ds)"

definition held_ids :: "bridge \<Rightarrow> nat list" where
  "held_ids b = map pm_id (chan b) @ map pm_id (fbuf b)"

definition ids :: "(nat \<times> log_entry option) list \<Rightarrow> nat list" where
  "ids ds = map fst ds"

lemmas id_defs = settled_ids_def acked_ids_def stored_ids_def unreadable_ids_def held_ids_def ids_def

lemma filter_settle [simp]:
  "filter (\<lambda>x. snd x = SAck) (map (\<lambda>p. (pm_id p, SAck)) ps) = map (\<lambda>p. (pm_id p, SAck)) ps"
  "filter (\<lambda>x. snd x = SAck) (map (\<lambda>p. (pm_id p, SNak n)) ps) = []"
  by (induction ps) simp_all

lemma doFlush_ids:
  "settled_ids (doFlush err b) = settled_ids b @ map pm_id (fbuf b)"
  "acked_ids (doFlush err b) = acked_ids b @ (if err = None then map pm_id (fbuf b) else [])"
  "stored_ids (doFlush err b) = stored_ids b @ (if err = None then map pm_id (fbuf b) else [])"
  "chan (doFlush err b) = chan b" "fbuf (doFlush err b) = []"
  by (auto simp: id_defs doFlush_def comp_def split: option.split)

text \<open>Every message is in one place, and every acknowledged one is unreadable or accepted by Loki.\<close>

definition accounts :: "(nat \<times> log_entry option) list \<Rightarrow> bridge \<Rightarrow> bool" where
  "accounts ds b \<longleftrightarrow>
     mset (ids ds) = mset (settled_ids b) + mset (held_ids b) \<and>
     mset (acked_ids b) = mset (unreadable_ids ds) + mset (stored_ids b)"

definition bridge_inv :: "nat \<Rightarrow> (nat \<times> log_entry option) list \<Rightarrow> bridge \<Rightarrow> bool" where
  "bridge_inv maxSize ds b \<longleftrightarrow>
     length (chan b) \<le> maxSize * 2 \<and> length (fbuf b) < maxSize \<and> accounts ds b"

lemma accounts_doFlush:
  assumes "accounts ds b"
  shows "accounts ds (doFlush err b)"
proof -
  have "held_ids (doFlush err b) = map pm_id (chan b)" by (simp add: held_ids_def doFlush_ids)
  moreover have "mset (held_ids b) = mset (map pm_id (chan b)) + mset (map pm_id (fbuf b))"
    by (simp only: held_ids_def mset_append)
  ultimately show ?thesis
    using assms by (cases err) (simp_all add: accounts_def doFlush_ids ac_simps del: mset_map)
qed

lemma accounts_receive:
  "accounts ds b \<Longrightarrow> chan b = pm # rest \<Longrightarrow> accounts ds (b\<lparr>chan := rest, fbuf := fbuf b @ [pm]\<rparr>)"
  by (simp add: accounts_def id_defs)

lemma on_message_inv [inv_intros]:
  "bridge_inv maxSize ds b \<Longrightarrow> bridge_inv maxSize (ds @ [(i, decode_entry data)]) (on_message (maxSize * 2) i data b)"
  by (auto simp: bridge_inv_def accounts_def id_defs on_message_def split: option.split)

lemma doFlush_inv:
  "accounts ds b \<Longrightarrow> length (chan b) \<le> maxSize * 2 \<Longrightarrow> 0 < maxSize \<Longrightarrow> bridge_inv maxSize ds (doFlush err b)"
  by (simp add: bridge_inv_def doFlush_ids accounts_doFlush)

lemma flush_receive_inv [inv_intros]:
  assumes "bridge_inv maxSize ds b" and "0 < maxSize"
  shows "bridge_inv maxSize ds (flush_receive maxSize err b)"
proof (cases "chan b")
  case Nil
  then show ?thesis using assms(1) by (simp add: flush_receive_def)
next
  case (Cons pm rest)
  let ?b1 = "b\<lparr>chan := rest, fbuf := fbuf b @ [pm]\<rparr>"
  have a: "accounts ds ?b1" "length (chan ?b1) \<le> maxSize * 2"
    using assms(1) Cons accounts_receive [OF _ Cons] by (simp_all add: bridge_inv_def)
  show ?thesis
  proof (cases "length (fbuf ?b1) \<ge> maxSize")
    case True
    then show ?thesis using doFlush_inv [OF a assms(2)] Cons by (simp add: flush_receive_def Let_def)
  next
    case False
    then show ?thesis using a Cons by (simp add: flush_receive_def bridge_inv_def Let_def)
  qed
qed

lemma bridge_run_inv:
  "0 < maxSize \<Longrightarrow> bridge_inv maxSize ds b \<Longrightarrow>
     bridge_inv maxSize (ds @ delivered evs) (bridge_run maxSize evs b)"
proof (induction evs arbitrary: ds b)
  case Nil
  then show ?case by simp
next
  case (Cons ev evs)
  show ?case
  proof (cases ev)
    case (Delivered i data)
    then show ?thesis
      using Cons.IH [OF Cons.prems(1) on_message_inv [OF Cons.prems(2), of i data]] by simp
  next
    case (Received err)
    then show ?thesis
      using Cons.IH [OF Cons.prems(1) flush_receive_inv [OF Cons.prems(2,1)]] by simp
  next
    case (Ticked err)
    have "bridge_inv maxSize ds (doFlush err b)"
      using Cons.prems by (intro doFlush_inv) (simp_all add: bridge_inv_def)
    then show ?thesis using Cons.IH [OF Cons.prems(1)] Ticked by simp
  qed
qed


text \<open>An entry as \<open>json.Marshal\<close> writes it, here and in the log writer.\<close>

definition encode_entry :: "log_entry \<Rightarrow> string" where
  "encode_entry e = marshal_strings True
     [(''timestamp'', le_timestamp e), (''level'', le_level e), (''source_name'', le_source e),
      (''job'', le_job e), (''message'', le_message e)]"

definition valid_entry :: "log_entry \<Rightarrow> log_entry" where
  "valid_entry e = \<lparr>le_timestamp = to_valid (le_timestamp e), le_level = to_valid (le_level e),
     le_source = to_valid (le_source e), le_job = to_valid (le_job e), le_message = to_valid (le_message e)\<rparr>"

lemma entry_decoded: "decode_entry (encode_entry e) = Some (valid_entry e)"
proof -
  have p: "list_all (plain_char True) ''timestamp''" "list_all (plain_char True) ''level''"
    "list_all (plain_char True) ''source_name''" "list_all (plain_char True) ''job''"
    "list_all (plain_char True) ''message''"
    by (simp_all add: plain_char_def byte_def quote_def backslash_def)
  have "(0::nat) < maxNestingDepth" by (simp add: maxNestingDepth_def)
  from json_Unmarshal_renders [OF renders_strings [OF this]]
  have "json_Unmarshal entry_fields (encode_entry e) = decode_struct entry_fields
      (JObject (map (\<lambda>(k, v). (to_valid k, json_quote True v, JString (to_valid v)))
        [(''timestamp'', le_timestamp e), (''level'', le_level e), (''source_name'', le_source e),
         (''job'', le_job e), (''message'', le_message e)]))"
    by (simp only: encode_entry_def)
  then show ?thesis
    by (simp add: p [THEN to_valid_plain] decode_struct_def set_member_def find_field_def entry_fields_def
        decode_entry_def valid_entry_def)
qed

text \<open>
  C22. Log entries survive the queue: whatever bytes its fields hold, the bridge decodes an entry that a
  log writer has encoded, and to the same entry, except that bytes which are not UTF-8 have become U+FFFD;
  once decoded it survives further trips unchanged.
\<close>

theorem entry_roundtrip:
  "decode_entry (encode_entry e) = Some (valid_entry e) \<and>
   decode_entry (encode_entry (valid_entry e)) = Some (valid_entry e)"
  by (simp add: entry_decoded) (simp add: valid_entry_def)

definition entry0 :: log_entry where
  "entry0 = \<lparr>le_timestamp = [], le_level = ''info'', le_source = ''s'', le_job = ''j'', le_message = ''m''\<rparr>"

text \<open>One unreadable message, a batch of two that Loki refuses, one message left in the buffer.\<close>

definition bridge_demo :: "bridge_event list" where
  "bridge_demo = [Delivered 1 (encode_entry entry0), Delivered 2 [], Delivered 3 (encode_entry entry0),
     Received None, Received (Some (TextError ''loki returned 500'')), Delivered 4 (encode_entry entry0),
     Received None]"


section \<open>The channel's room\<close>

text \<open>
  JetStream's side of \<open>MaxAckPending\<close>: it delivers a message only while fewer than \<open>max_pending\<close> are not
  settled, and a held message is not delivered again.
\<close>

fun within_pending :: "nat \<Rightarrow> nat \<Rightarrow> bridge_event list \<Rightarrow> bridge \<Rightarrow> bool" where
  "within_pending max_pending maxSize [] b = True"
| "within_pending max_pending maxSize (Delivered i data # evs) b \<longleftrightarrow>
     length (held_ids b) < max_pending \<and>
     within_pending max_pending maxSize evs (on_message (maxSize * 2) i data b)"
| "within_pending max_pending maxSize (Received err # evs) b =
     within_pending max_pending maxSize evs (flush_receive maxSize err b)"
| "within_pending max_pending maxSize (Ticked err # evs) b =
     within_pending max_pending maxSize evs (doFlush err b)"

lemma doFlush_dropped [simp]: "n_dropped (doFlush err b) = n_dropped b"
  by (simp add: doFlush_def split: option.split)

lemma flush_receive_dropped [simp]: "n_dropped (flush_receive maxSize err b) = n_dropped b"
  by (simp add: flush_receive_def Let_def split: list.split)

lemma within_pending_none_dropped:
  assumes "max_pending \<le> maxSize * 2"
  shows "within_pending max_pending maxSize evs b \<Longrightarrow> n_dropped (bridge_run maxSize evs b) = n_dropped b"
proof (induction evs arbitrary: b)
  case (Cons ev evs)
  show ?case
  proof (cases ev)
    case (Delivered i data)
    have "length (chan b) < maxSize * 2" using Cons.prems Delivered assms by (simp add: held_ids_def)
    then have "n_dropped (on_message (maxSize * 2) i data b) = n_dropped b"
      by (simp add: on_message_def split: option.split)
    then show ?thesis using Cons Delivered by simp
  qed (use Cons in simp_all)
qed simp

section \<open>The buffer as a batch\<close>

text \<open>\<open>flushLoop\<close>'s buffer is a batch of the shared interface.\<close>

definition buf_add :: "pendingMsg \<Rightarrow> pendingMsg list \<Rightarrow> pendingMsg list" where
  "buf_add pm b = b @ [pm]"

interpretation fb: batching "[]" buf_add mset "\<lambda>pm. pm" length "\<lambda>_. True"
  by unfold_locales (simp_all add: buf_add_def)

end
