(* ===== verification/Promtail.thy ===== *)
theory Promtail
  imports Batching GoError
begin

text \<open>
  The Promtail client (\<open>src/pkg/log/promtail\<close>): levels, labels, the batch of streams, the exchange loop
  over a bounded queue, and the push of a batch to Loki.

  An entry is kept with its time and its text already formatted by \<open>fmt.Sprintf\<close>; a level is the byte it
  is in the code. Label maps are Isabelle maps.
\<close>

section \<open>Levels and labels\<close>

type_synonym level = "8 word"

definition lvDebug :: level where "lvDebug = 0"
definition lvInfo :: level where "lvInfo = 1"
definition lvWarn :: level where "lvWarn = 2"
definition lvError :: level where "lvError = 3"
definition lvFatal :: level where "lvFatal = 4"
definition lvPanic :: level where "lvPanic = 5"

lemmas level_defs = lvDebug_def lvInfo_def lvWarn_def lvError_def lvFatal_def lvPanic_def

definition level_String :: "level \<Rightarrow> string" where
  "level_String l =
     (if l = lvDebug then ''DEBUG'' else if l = lvInfo then ''INFO'' else if l = lvWarn then ''WARN''
      else if l = lvError then ''ERROR'' else if l = lvFatal then ''FATAL'' else if l = lvPanic then ''PANIC''
      else ''unknown'')"

type_synonym labels = "string \<rightharpoonup> string"

definition copyLabels :: "labels \<Rightarrow> labels" where
  "copyLabels src = Map.empty ++ src"

fun copyAndMergeLabels :: "labels list \<Rightarrow> labels" where
  "copyAndMergeLabels [] = Map.empty"
| "copyAndMergeLabels (src # srcs) = src ++ copyAndMergeLabels srcs"

definition logLevelForcedLabel :: string where "logLevelForcedLabel = ''level''"

section \<open>The batch\<close>

record plog_entry =
  pe_time :: int
  pe_text :: string

record packed_entry =
  pk_level :: level
  pk_labels :: labels
  pk_entry :: plog_entry

record log_stream =
  st_level :: level
  st_labels :: labels
  st_entries :: "plog_entry list"

record stream_batch =
  b_size :: nat
  b_labels :: labels
  b_streams :: "log_stream list"

definition newLeveledStream :: "level \<Rightarrow> labels list \<Rightarrow> log_stream" where
  "newLeveledStream l predefined =
     \<lparr>st_level = l,
      st_labels = copyAndMergeLabels (predefined @ [[logLevelForcedLabel \<mapsto> level_String l]]),
      st_entries = []\<rparr>"

definition getLevelIndex :: "level \<Rightarrow> int" where
  "getLevelIndex l =
     (if l = lvDebug then 0 else if l = lvInfo then 1 else if l = lvWarn then 2
      else if l = lvError then 3 else if l = lvPanic then 4 else if l = lvFatal then 5 else - 1)"

definition getCachedLevels :: "level list" where
  "getCachedLevels = [lvDebug, lvInfo, lvWarn, lvError, lvPanic, lvFatal]"

text \<open>\<open>reset\<close> fills the slots in the order of \<open>_getLevelIndex\<close>, which is that of \<open>_getCachedLevels\<close>.\<close>

definition batch_reset :: "stream_batch \<Rightarrow> stream_batch" where
  "batch_reset b =
     b\<lparr>b_size := 0, b_streams := map (\<lambda>l. newLeveledStream l [b_labels b]) getCachedLevels\<rparr>"

definition newBatch :: "labels \<Rightarrow> stream_batch" where
  "newBatch predefined = batch_reset \<lparr>b_size = 0, b_labels = copyLabels predefined, b_streams = []\<rparr>"

text \<open>\<open>len(entry.labels) > 0\<close> is "the map has a key".\<close>

definition batch_add :: "packed_entry \<Rightarrow> stream_batch \<Rightarrow> stream_batch" where
  "batch_add e b =
     (let b1 = b\<lparr>b_size := b_size b + 1\<rparr>; i = getLevelIndex (pk_level e) in
      if pk_labels e \<noteq> Map.empty \<or> i < 0
      then b1\<lparr>b_streams := b_streams b1 @
             [(newLeveledStream (pk_level e) [b_labels b, pk_labels e])\<lparr>st_entries := [pk_entry e]\<rparr>]\<rparr>
      else b1\<lparr>b_streams := (b_streams b1)[nat i :=
             (b_streams b1 ! nat i)\<lparr>st_entries := st_entries (b_streams b1 ! nat i) @ [pk_entry e]\<rparr>]\<rparr>)"

section \<open>What is sent\<close>

definition formatMessage :: "level \<Rightarrow> string \<Rightarrow> string" where
  "formatMessage l t = level_String l @ '': '' @ t"

text \<open>\<open>transformLogStreamsToDTO\<close>: streams without entries are left out.\<close>

definition transformLogStreamsToDTO :: "log_stream list \<Rightarrow> (labels \<times> (int \<times> string) list) list" where
  "transformLogStreamsToDTO streams =
     map (\<lambda>s. (st_labels s, map (\<lambda>e. (pe_time e, formatMessage (st_level s) (pe_text e))) (st_entries s)))
       (filter (\<lambda>s. st_entries s \<noteq> []) streams)"

text \<open>The exchanger's \<open>Push\<close>: the request that is sent, with credentials when both are set, and the result.\<close>

record loki_request =
  lr_url :: string
  lr_auth :: "(string \<times> string) option"
  lr_streams :: "(labels \<times> (int \<times> string) list) list"

definition exchanger_request :: "string \<Rightarrow> string \<Rightarrow> string \<Rightarrow> log_stream list \<Rightarrow> loki_request" where
  "exchanger_request lokiAddress username password streams =
     \<lparr>lr_url = lokiAddress @ ''/loki/api/v1/push'',
      lr_auth = (if username \<noteq> [] \<and> password \<noteq> [] then Some (username, password) else None),
      lr_streams = transformLogStreamsToDTO streams\<rparr>"

definition isSuccessHTTPCode :: "int \<Rightarrow> bool" where
  "isSuccessHTTPCode code \<longleftrightarrow> 199 < code \<and> code < 300"

text \<open>\<open>answer\<close>: the transport error, or status and body.\<close>

definition exchanger_Push :: "go_error + int \<times> string \<Rightarrow> go_error option" where
  "exchanger_Push answer =
     (case answer of
        Inl err \<Rightarrow> Some (TextError (''failed to send push message: '' @ Error err))
      | Inr (code, body) \<Rightarrow>
          if \<not> (199 < code \<and> code < 300)
          then Some (TextError (''unexpected response code [code='' @ itoa code @ ''], message: '' @ body))
          else None)"

definition exchanger_Ping :: "go_error + int \<Rightarrow> go_error + bool" where
  "exchanger_Ping answer =
     (case answer of
        Inl err \<Rightarrow> Inl (TextError (''pong is not received: '' @ Error err))
      | Inr code \<Rightarrow> Inr (isSuccessHTTPCode code))"

section \<open>The batch keeps every entry\<close>

text \<open>An entry as Loki gets it: the labels of its stream, its time and its line.\<close>

definition labels_of :: "labels \<Rightarrow> packed_entry \<Rightarrow> labels" where
  "labels_of predefined e =
     (predefined ++ pk_labels e)(logLevelForcedLabel \<mapsto> level_String (pk_level e))"

definition sent_item :: "labels \<Rightarrow> packed_entry \<Rightarrow> labels \<times> int \<times> string" where
  "sent_item predefined e =
     (labels_of predefined e, pe_time (pk_entry e), formatMessage (pk_level e) (pe_text (pk_entry e)))"

definition stream_items :: "log_stream \<Rightarrow> (labels \<times> int \<times> string) list" where
  "stream_items s =
     map (\<lambda>e. (st_labels s, pe_time e, formatMessage (st_level s) (pe_text e))) (st_entries s)"

definition dto_items :: "(labels \<times> (int \<times> string) list) list \<Rightarrow> (labels \<times> int \<times> string) multiset" where
  "dto_items dto = mset (concat (map (\<lambda>(ls, vs). map (\<lambda>v. (ls, v)) vs) dto))"

definition batch_items :: "stream_batch \<Rightarrow> (labels \<times> int \<times> string) multiset" where
  "batch_items b = dto_items (transformLogStreamsToDTO (b_streams b))"

lemma batch_items_eq: "batch_items b = mset (concat (map stream_items (b_streams b)))"
proof -
  have "concat (map (\<lambda>(ls, vs). map (\<lambda>v. (ls, v)) vs) (transformLogStreamsToDTO ss)) =
      concat (map stream_items ss)" for ss
    by (induction ss) (auto simp: transformLogStreamsToDTO_def stream_items_def comp_def)
  then show ?thesis by (simp add: batch_items_def dto_items_def)
qed

definition batch_wf :: "labels \<Rightarrow> stream_batch \<Rightarrow> bool" where
  "batch_wf predefined b \<longleftrightarrow> b_labels b = predefined \<and> 6 \<le> length (b_streams b) \<and>
     (\<forall>i < 6. st_level (b_streams b ! i) = getCachedLevels ! i \<and>
        st_labels (b_streams b ! i) = st_labels (newLeveledStream (getCachedLevels ! i) [predefined]))"

lemma stream_labels:
  "st_labels (newLeveledStream l [predefined]) = predefined(logLevelForcedLabel \<mapsto> level_String l)"
  "st_labels (newLeveledStream l [predefined, ls]) = (predefined ++ ls)(logLevelForcedLabel \<mapsto> level_String l)"
  by (simp_all add: newLeveledStream_def map_add_assoc)

lemma getLevelIndex_cases:
  assumes "0 \<le> getLevelIndex l"
  shows "nat (getLevelIndex l) < 6 \<and> getCachedLevels ! nat (getLevelIndex l) = l"
  using assms by (auto simp: getLevelIndex_def getCachedLevels_def split: if_splits)

lemma batch_wf_new: "batch_wf predefined (newBatch predefined)"
  by (auto simp: batch_wf_def newBatch_def batch_reset_def copyLabels_def getCachedLevels_def
      newLeveledStream_def nth_Cons' less_Suc_eq_le)

lemma mset_concat_update:
  "i < length xs \<Longrightarrow> f y = f (xs ! i) @ [z] \<Longrightarrow>
     mset (concat (map f (xs[i := y]))) = add_mset z (mset (concat (map f xs)))"
proof (induction xs arbitrary: i)
  case Nil
  then show ?case by simp
next
  case (Cons x xs)
  then show ?case by (cases i) auto
qed

lemma batch_items_add:
  assumes "batch_wf predefined b"
  shows "batch_items (batch_add e b) = add_mset (sent_item predefined e) (batch_items b)"
proof (cases "pk_labels e \<noteq> Map.empty \<or> getLevelIndex (pk_level e) < 0")
  case True
  then show ?thesis
    using assms
    by (simp add: batch_items_eq batch_add_def stream_items_def sent_item_def labels_of_def
        stream_labels batch_wf_def)
      (simp add: newLeveledStream_def)
next
  case False
  let ?i = "nat (getLevelIndex (pk_level e))"
  have i: "?i < 6" "getCachedLevels ! ?i = pk_level e" using getLevelIndex_cases False by auto
  then have "?i < length (b_streams b)" "st_level (b_streams b ! ?i) = pk_level e"
    "st_labels (b_streams b ! ?i) = predefined(logLevelForcedLabel \<mapsto> level_String (pk_level e))"
    using assms by (auto simp: batch_wf_def stream_labels)
  then show ?thesis
    using False
    by (simp add: batch_items_eq batch_add_def Let_def)
      (rule mset_concat_update, simp_all add: stream_items_def sent_item_def labels_of_def)
qed

lemma batch_wf_add:
  assumes "batch_wf predefined b"
  shows "batch_wf predefined (batch_add e b)"
proof (cases "pk_labels e \<noteq> Map.empty \<or> getLevelIndex (pk_level e) < 0")
  case True
  then show ?thesis using assms by (auto simp: batch_wf_def batch_add_def Let_def nth_append)
next
  case False
  then have i: "nat (getLevelIndex (pk_level e)) < length (b_streams b)"
    using getLevelIndex_cases [of "pk_level e"] assms by (simp add: batch_wf_def)
  have keep: "st_level ((b_streams b)[nat (getLevelIndex (pk_level e)) := (b_streams b ! nat (getLevelIndex (pk_level e)))\<lparr>st_entries := es\<rparr>] ! j) =
        st_level (b_streams b ! j)"
      "st_labels ((b_streams b)[nat (getLevelIndex (pk_level e)) := (b_streams b ! nat (getLevelIndex (pk_level e)))\<lparr>st_entries := es\<rparr>] ! j) =
        st_labels (b_streams b ! j)" for j es
    using i by (cases "j = nat (getLevelIndex (pk_level e))"; simp)+
  show ?thesis using assms False by (simp add: batch_wf_def batch_add_def Let_def keep)
qed

lemma batch_items_new: "batch_items (newBatch predefined) = {#}"
  by (simp add: batch_items_eq newBatch_def batch_reset_def stream_items_def newLeveledStream_def
      getCachedLevels_def)

interpretation pb: batching "newBatch predefined" batch_add batch_items "sent_item predefined" b_size
  "batch_wf predefined" for predefined
  by unfold_locales
    (simp_all add: batch_wf_new batch_wf_add batch_items_new batch_items_add,
     simp_all add: newBatch_def batch_reset_def batch_add_def Let_def)

lemma batch_items_fold:
  "batch_items (fold batch_add es (newBatch predefined)) = image_mset (sent_item predefined) (mset es) \<and>
   b_size (fold batch_add es (newBatch predefined)) = length es"
proof -
  have "batch_wf predefined b \<Longrightarrow>
      batch_items (fold batch_add es b) = batch_items b + image_mset (sent_item predefined) (mset es) \<and>
      b_size (fold batch_add es b) = b_size b + length es" for b
    by (induction es arbitrary: b) (simp_all add: pb.items_add pb.wf_add pb.len_add)
  from this [OF pb.wf_fresh] show ?thesis
    by (simp add: batch_items_new pb.len_fresh)
qed

text \<open>
  Whatever is logged, a batch sends each entry exactly once, on a stream whose labels are the
  client's, overridden by the entry's own, with the level forced on top, and counts it: entries without
  labels of their own share their level's stream, all others get one of their own.
\<close>

theorem batch_sends_every_entry:
  "batch_items (fold batch_add es (newBatch predefined)) = image_mset (sent_item predefined) (mset es) \<and>
   b_size (fold batch_add es (newBatch predefined)) = length es"
  by (rule batch_items_fold)

section \<open>The client\<close>

definition exchangeQueueSize :: nat where "exchangeQueueSize = 1024"
definition defaultSendBatchSize :: nat where "defaultSendBatchSize = 5"
definition defaultSendBatchTimeout :: int where "defaultSendBatchTimeout = 5000000000"

record client_conf =
  cc_batchSize :: nat
  cc_timeout :: int
  cc_queueCap :: nat

datatype clientOption = WithSendBatchSize nat | WithSendBatchTimeout int | WithQueueSize int

fun apply_option :: "clientOption \<Rightarrow> client_conf \<Rightarrow> client_conf" where
  "apply_option (WithSendBatchSize n) c = c\<lparr>cc_batchSize := n\<rparr>"
| "apply_option (WithSendBatchTimeout t) c = (if t \<le> 0 then c else c\<lparr>cc_timeout := t\<rparr>)"
| "apply_option (WithQueueSize n) c =
     (if n \<le> 0 then c else c\<lparr>cc_queueCap := exchangeQueueSize\<rparr>)"

definition NewClient_conf :: "clientOption list \<Rightarrow> client_conf" where
  "NewClient_conf options =
     fold apply_option options
       \<lparr>cc_batchSize = defaultSendBatchSize, cc_timeout = defaultSendBatchTimeout,
        cc_queueCap = exchangeQueueSize\<rparr>"

definition json_client_address :: "string \<Rightarrow> string" where
  "json_client_address lokiAddress =
     (if \<not> (prefix ''http://'' lokiAddress \<or> prefix ''https://'' lokiAddress)
      then ''http://'' @ lokiAddress else lokiAddress)"

text \<open>The size given to \<open>WithQueueSize\<close> is never used.\<close>

lemma queue_size_ignored: "cc_queueCap (NewClient_conf options) = 1024"
proof -
  have "cc_queueCap c = exchangeQueueSize \<Longrightarrow> cc_queueCap (fold apply_option options c) = exchangeQueueSize" for c
  proof (induction options arbitrary: c)
    case Nil
    then show ?case by simp
  next
    case (Cons opt options)
    then show ?case by (cases opt) simp_all
  qed
  then show ?thesis by (simp add: NewClient_conf_def exchangeQueueSize_def)
qed

record promtail_client =
  pc_conf :: client_conf
  pc_queue :: "packed_entry list"
  pc_batch :: stream_batch
  pc_pushed :: "stream_batch list"     \<comment> \<open>the pushes made, failed ones included\<close>
  pc_stopped :: bool                   \<comment> \<open>\<open>isStopped\<close>, and the stop signal is closed\<close>
  pc_ended :: bool                     \<comment> \<open>the exchange loop has returned\<close>
  pc_queued :: "packed_entry list"     \<comment> \<open>the entries the queue took\<close>

definition NewClient :: "clientOption list \<Rightarrow> labels \<Rightarrow> promtail_client" where
  "NewClient options defaultLabels =
     \<lparr>pc_conf = NewClient_conf options, pc_queue = [], pc_batch = newBatch (copyLabels defaultLabels),
      pc_pushed = [], pc_stopped = False, pc_ended = False, pc_queued = []\<rparr>"

definition LogfWithLabels :: "packed_entry \<Rightarrow> promtail_client \<Rightarrow> promtail_client" where
  "LogfWithLabels e c =
     (if pc_stopped c then c
      else if length (pc_queue c) < cc_queueCap (pc_conf c)
      then c\<lparr>pc_queue := pc_queue c @ [e\<lparr>pk_labels := copyLabels (pk_labels e)\<rparr>],
             pc_queued := pc_queued c @ [e\<lparr>pk_labels := copyLabels (pk_labels e)\<rparr>]\<rparr>
      else c)"

definition client_Close :: "promtail_client \<Rightarrow> promtail_client" where
  "client_Close c = c\<lparr>pc_stopped := True\<rparr>"

text \<open>The three branches of the exchange loop; a push that fails only calls the error handler.\<close>

definition exchange_receive :: "promtail_client \<Rightarrow> promtail_client" where
  "exchange_receive c =
     (case pc_queue c of
        [] \<Rightarrow> c
      | e # es \<Rightarrow>
          if pc_ended c then c
          else
            (let b = batch_add e (pc_batch c); c1 = c\<lparr>pc_queue := es, pc_batch := b\<rparr>
             in if b_size b \<ge> cc_batchSize (pc_conf c)
                then c1\<lparr>pc_pushed := pc_pushed c @ [b], pc_batch := batch_reset b\<rparr> else c1))"

definition exchange_timeout :: "promtail_client \<Rightarrow> promtail_client" where
  "exchange_timeout c =
     (if pc_ended c \<or> b_size (pc_batch c) = 0 then c
      else c\<lparr>pc_pushed := pc_pushed c @ [pc_batch c], pc_batch := batch_reset (pc_batch c)\<rparr>)"

definition exchange_stop :: "promtail_client \<Rightarrow> promtail_client" where
  "exchange_stop c =
     (if pc_ended c \<or> \<not> pc_stopped c then c
      else (if b_size (pc_batch c) > 0 then c\<lparr>pc_pushed := pc_pushed c @ [pc_batch c]\<rparr> else c)\<lparr>pc_ended := True\<rparr>)"

datatype client_event = Logged packed_entry | CloseCalled | Receives | TimesOut | Stops

fun on_client_event :: "client_event \<Rightarrow> promtail_client \<Rightarrow> promtail_client" where
  "on_client_event (Logged e) = LogfWithLabels e"
| "on_client_event CloseCalled = client_Close"
| "on_client_event Receives = exchange_receive"
| "on_client_event TimesOut = exchange_timeout"
| "on_client_event Stops = exchange_stop"

text \<open>
  The loop refines the shared batch: what it has taken off the queue, as events of the interface, leads to
  its batch and its pushes.
\<close>

definition limit_of :: "promtail_client \<Rightarrow> nat" where
  "limit_of c = max 1 (cc_batchSize (pc_conf c))"

definition client_inv :: "labels \<Rightarrow> promtail_client \<Rightarrow> bool" where
  "client_inv predefined c \<longleftrightarrow>
     (\<exists>evs. pc_queued c = arrivals evs @ pc_queue c \<and>
        (if pc_ended c then snd (pb.on_events predefined (limit_of c) (evs @ [Flush]) (newBatch predefined, []))
             = pc_pushed c
         else pb.on_events predefined (limit_of c) evs (newBatch predefined, []) = (pc_batch c, pc_pushed c)))"

lemma batch_reset_new: "b_labels b = predefined \<Longrightarrow> batch_reset b = newBatch predefined"
  by (simp add: newBatch_def batch_reset_def copyLabels_def)

lemma batch_labels [simp]: "b_labels (batch_add e b) = b_labels b"
  by (simp add: batch_add_def Let_def)

lemma on_events_labels:
  "b_labels (fst s) = predefined \<Longrightarrow> b_labels (fst (pb.on_events predefined limit evs s)) = predefined"
proof (induction evs arbitrary: s)
  case Nil
  then show ?case by simp
next
  case (Cons ev evs)
  have "b_labels (newBatch predefined) = predefined"
    by (simp add: newBatch_def batch_reset_def copyLabels_def)
  then have "b_labels (fst (pb.on_event predefined limit ev s)) = predefined"
    using Cons.prems by (cases ev; cases s) (auto simp: Let_def)
  then show ?case using Cons.IH by simp
qed

lemma new_labels [simp]: "b_labels (newBatch predefined) = predefined"
  by (simp add: newBatch_def batch_reset_def copyLabels_def)

lemma client_inv_start: "client_inv (copyLabels defaultLabels) (NewClient options defaultLabels)"
  by (auto simp: client_inv_def NewClient_def intro!: exI [of _ "[]"])

lemma client_inv_event [inv_intros]:
  assumes "client_inv predefined c"
  shows "client_inv predefined (on_client_event ev c)"
proof -
  obtain evs where q: "pc_queued c = arrivals evs @ pc_queue c"
    and e: "pc_ended c \<Longrightarrow> snd (pb.on_events predefined (limit_of c) (evs @ [Flush]) (newBatch predefined, [])) = pc_pushed c"
    and r: "\<not> pc_ended c \<Longrightarrow> pb.on_events predefined (limit_of c) evs (newBatch predefined, []) = (pc_batch c, pc_pushed c)"
    using assms by (auto simp: client_inv_def)
  have lab: "\<not> pc_ended c \<Longrightarrow> b_labels (pc_batch c) = predefined"
    using on_events_labels [of "(newBatch predefined, [])" predefined "limit_of c" evs] r by simp
  show ?thesis
  proof (cases ev)
    case (Logged x)
    have "limit_of (LogfWithLabels x c) = limit_of c" "pc_ended (LogfWithLabels x c) = pc_ended c"
      "pc_pushed (LogfWithLabels x c) = pc_pushed c" "pc_batch (LogfWithLabels x c) = pc_batch c"
      by (simp_all add: LogfWithLabels_def limit_of_def)
    moreover have "pc_queued (LogfWithLabels x c) = arrivals evs @ pc_queue (LogfWithLabels x c)"
      using q by (simp add: LogfWithLabels_def)
    ultimately show ?thesis using e r Logged by (auto simp: client_inv_def intro!: exI [of _ evs])
  next
    case CloseCalled
    then show ?thesis
      using q e r by (auto simp: client_Close_def client_inv_def limit_of_def intro!: exI [of _ evs])
  next
    case Receives
    show ?thesis
    proof (cases "pc_queue c = [] \<or> pc_ended c")
      case True
      then have "exchange_receive c = c" by (auto simp: exchange_receive_def split: list.split)
      then show ?thesis using assms Receives by simp
    next
      case False
      then obtain x xs where qs: "pc_queue c = x # xs" by (cases "pc_queue c") auto
      have len: "b_size (batch_add x (pc_batch c)) = Suc (b_size (pc_batch c))" by (rule pb.len_add)
      have "pb.on_events predefined (limit_of c) (evs @ [Arrive x]) (newBatch predefined, []) =
          (if b_size (batch_add x (pc_batch c)) \<ge> cc_batchSize (pc_conf c)
           then (newBatch predefined, pc_pushed c @ [batch_add x (pc_batch c)])
           else (batch_add x (pc_batch c), pc_pushed c))"
        unfolding pb.on_events_snoc using r False by (auto simp: limit_of_def len)
      moreover have "batch_reset (batch_add x (pc_batch c)) = newBatch predefined"
        using lab False by (intro batch_reset_new) simp
      ultimately show ?thesis
        using qs q False Receives
        by (auto simp: client_inv_def exchange_receive_def limit_of_def Let_def
            intro!: exI [of _ "evs @ [Arrive x]"])
    qed
  next
    case TimesOut
    show ?thesis
    proof (cases "pc_ended c \<or> b_size (pc_batch c) = 0")
      case True
      then show ?thesis using assms TimesOut by (simp add: exchange_timeout_def)
    next
      case False
      then have "pb.on_events predefined (limit_of c) (evs @ [Flush]) (newBatch predefined, []) =
          (newBatch predefined, pc_pushed c @ [pc_batch c])"
        unfolding pb.on_events_snoc using r by simp
      moreover have "batch_reset (pc_batch c) = newBatch predefined"
        using lab False by (intro batch_reset_new) simp
      ultimately show ?thesis
        using q False TimesOut
        by (auto simp: client_inv_def exchange_timeout_def limit_of_def intro!: exI [of _ "evs @ [Flush]"])
    qed
  next
    case Stops
    show ?thesis
    proof (cases "pc_ended c \<or> \<not> pc_stopped c")
      case True
      then show ?thesis using assms Stops by (simp add: exchange_stop_def)
    next
      case False
      then have "snd (pb.on_events predefined (limit_of c) (evs @ [Flush]) (newBatch predefined, [])) =
          (if b_size (pc_batch c) > 0 then pc_pushed c @ [pc_batch c] else pc_pushed c)"
        unfolding pb.on_events_snoc using r by simp
      then show ?thesis
        using q False Stops
        by (auto simp: client_inv_def exchange_stop_def limit_of_def intro!: exI [of _ evs])
    qed
  qed
qed

lemma client_run_inv:
  "client_inv predefined c \<Longrightarrow> client_inv predefined (fold on_client_event evs c)"
  by (induction evs arbitrary: c) (simp_all add: client_inv_event)

definition pushed_items :: "promtail_client \<Rightarrow> (labels \<times> int \<times> string) multiset" where
  "pushed_items c = sum_list (map batch_items (pc_pushed c))"

lemma promtail_run:
  assumes "c = fold on_client_event evs (NewClient options defaultLabels)"
  shows "image_mset (sent_item defaultLabels) (mset (pc_queued c)) =
       pushed_items c + (if pc_ended c then {#} else batch_items (pc_batch c)) +
       image_mset (sent_item defaultLabels) (mset (pc_queue c)) \<and>
     list_all (\<lambda>b. 0 < b_size b \<and> b_size b \<le> limit_of c) (pc_pushed c)"
proof -
  have l: "copyLabels defaultLabels = defaultLabels" by (simp add: copyLabels_def)
  have "client_inv defaultLabels c"
    unfolding assms by (rule client_run_inv) (use client_inv_start l in metis)
  then obtain tr where q: "pc_queued c = arrivals tr @ pc_queue c"
    and e: "pc_ended c \<Longrightarrow> snd (pb.on_events defaultLabels (limit_of c) (tr @ [Flush]) (newBatch defaultLabels, [])) = pc_pushed c"
    and r: "\<not> pc_ended c \<Longrightarrow> pb.on_events defaultLabels (limit_of c) tr (newBatch defaultLabels, []) = (pc_batch c, pc_pushed c)"
    by (auto simp: client_inv_def)
  have pos: "0 < limit_of c" by (simp add: limit_of_def)
  show ?thesis
  proof (cases "pc_ended c")
    case False
    then show ?thesis
      using pb.batches_conserve [OF pos, of defaultLabels tr] r q
      by (simp add: pb.all_items_def pb.batch_ok_def pushed_items_def list_all_iff ac_simps)
  next
    case True
    obtain b ds where s: "pb.on_events defaultLabels (limit_of c) (tr @ [Flush]) (newBatch defaultLabels, []) = (b, ds)"
      by fastforce
    have "b_size b = 0"
      using s unfolding pb.on_events_snoc
      by (cases "pb.on_events defaultLabels (limit_of c) tr (newBatch defaultLabels, [])")
        (auto simp: pb.len_fresh split: if_splits)
    moreover have "size (batch_items b) = b_size b"
      using pb.batches_conserve [OF pos, of defaultLabels "tr @ [Flush]"] s by (simp add: pb.batch_ok_def)
    ultimately have "batch_items b = {#}" by simp
    then show ?thesis
      using pb.batches_conserve [OF pos, of defaultLabels "tr @ [Flush]"] e True s q
      by (simp add: pb.all_items_def pb.batch_ok_def pushed_items_def list_all_iff ac_simps)
  qed
qed

text \<open>
  C32. In every run of the client, the entries its queue took are exactly those in the pushes made, in the
  current batch and still in the queue; once \<open>Close\<close> has ended the loop only the pushes and the queue
  are left, so entries that were waiting then are lost. No push is empty, and none is larger than the
  batch size.
\<close>

theorem promtail_conserves_entries:
  "let c = fold on_client_event evs (NewClient options defaultLabels) in
     image_mset (sent_item defaultLabels) (mset (pc_queued c)) =
       pushed_items c + (if pc_ended c then {#} else batch_items (pc_batch c)) +
       image_mset (sent_item defaultLabels) (mset (pc_queue c)) \<and>
     list_all (\<lambda>b. 0 < b_size b \<and> b_size b \<le> limit_of c) (pc_pushed c)"
  unfolding Let_def by (rule promtail_run [OF refl])

text \<open>
  A client of batches of five: one entry logged and still queued when the loop takes the stop signal is
  never sent.
\<close>

lemma close_loses_queue:
  "pc_pushed (fold on_client_event [Logged e, CloseCalled, Stops, Receives, TimesOut] (NewClient [] ls)) = []"
  by (simp add: NewClient_def NewClient_conf_def LogfWithLabels_def client_Close_def exchange_stop_def
      exchange_receive_def exchange_timeout_def exchangeQueueSize_def pb.len_fresh)

end
