(* ===== verification/LogWriters.thy ===== *)
theory LogWriters
  imports LogBridge Promtail
begin

text \<open>
  The log writers behind go-zero's \<open>logx.Writer\<close> (\<open>src/pkg/log\<close>): the JetStream writer, the Loki writer,
  the console writer, the fan-out writer, and the set-up that chooses among them.

  A logged value is kept as its \<open>%v\<close> text and a field as its key and the text of its value.
\<close>

datatype log_kind = LgAlert | LgSevere | LgStack | LgStat | LgDebug | LgError | LgInfo | LgSlow

type_synonym log_fields = "(string \<times> string) list"

section \<open>The JetStream writer\<close>

fun formatFields :: "log_fields \<Rightarrow> string" where
  "formatFields [] = []"
| "formatFields ((k, v) # fs) = '' '' @ k @ ''='' @ v @ formatFields fs"

fun joinUrls :: "string list \<Rightarrow> string" where
  "joinUrls [] = ''nats://127.0.0.1:4222''"
| "joinUrls (u # us) = u @ concat (map (\<lambda>v. '','' @ v) us)"

lemma join_with_Cons: "join_with s ((c # u) # us) = c # join_with s (u # us)"
  by (cases us) simp_all

lemma joinUrls_split:
  assumes "us \<noteq> []"
  shows "joinUrls us = join_with '','' us"
proof -
  have "u @ concat (map (\<lambda>v. '','' @ v) us) = join_with '','' (u # us)" for u us
    by (induction us arbitrary: u) (simp_all add: join_with_Cons)
  note this [of "hd us" "tl us"]
  moreover have "joinUrls us = hd us @ concat (map (\<lambda>v. '','' @ v) (tl us))"
    using assms by (cases us) (simp_all only: joinUrls.simps list.sel)
  ultimately show ?thesis using assms by simp
qed

definition lb_streamNameFromSubject :: "string \<Rightarrow> string" where
  "lb_streamNameFromSubject subj =
     map to_upper (replace_byte (CHR ''-'') (CHR ''_'') (replace_byte (CHR ''.'') (CHR ''_'') subj))"

definition lb_ensureStream ::
  "(string \<Rightarrow> 'w \<Rightarrow> go_error option \<times> 'w) \<Rightarrow> (string \<Rightarrow> string list \<Rightarrow> 'w \<Rightarrow> go_error option \<times> 'w) \<Rightarrow>
     string \<Rightarrow> 'w \<Rightarrow> go_error option \<times> 'w" where
  "lb_ensureStream info add_stream subj w =
     (case info (lb_streamNameFromSubject subj) w of
        (None, w1) \<Rightarrow> (None, w1)
      | (Some _, w1) \<Rightarrow>
          (case add_stream (lb_streamNameFromSubject subj) [subj] w1 of
             (Some err, w2) \<Rightarrow> (Some err, w2)
           | (None, w2) \<Rightarrow> (None, w2)))"

record bridge_writer =
  bw_subject :: string
  bw_source :: string
  bw_job :: string
  bw_closed :: bool

fun kind_level :: "log_kind \<Rightarrow> string" where
  "kind_level LgAlert = ''alert''"
| "kind_level LgSevere = ''severe''"
| "kind_level LgStack = ''stack''"
| "kind_level LgStat = ''stat''"
| "kind_level LgDebug = ''debug''"
| "kind_level LgError = ''error''"
| "kind_level LgInfo = ''info''"
| "kind_level LgSlow = ''slow''"

definition takes_fields :: "log_kind \<Rightarrow> bool" where
  "takes_fields k \<longleftrightarrow> k \<in> {LgDebug, LgError, LgInfo, LgSlow}"

text \<open>\<open>write\<close>: the subject and the data published, if any; \<open>t\<close> is the clock, in nanoseconds since the epoch.\<close>

definition bw_write :: "int \<Rightarrow> string \<Rightarrow> string \<Rightarrow> bridge_writer \<Rightarrow> (string \<times> string) option" where
  "bw_write t level msg l =
     (if bw_closed l then None
      else Some (bw_subject l, encode_entry \<lparr>le_timestamp = rfc3339nano t, le_level = level, le_source = bw_source l,
                                le_job = bw_job l, le_message = msg\<rparr>))"

definition bw_log ::
  "int \<Rightarrow> log_kind \<Rightarrow> string \<Rightarrow> log_fields \<Rightarrow> bridge_writer \<Rightarrow> (string \<times> string) option" where
  "bw_log t k v fs l =
     bw_write t (kind_level k) (if takes_fields k then v @ formatFields fs else v) l"

definition bw_Close :: "bridge_writer \<Rightarrow> bridge_writer" where
  "bw_Close l = l\<lparr>bw_closed := True\<rparr>"

section \<open>The Loki writer\<close>

fun kind_promtail :: "log_kind \<Rightarrow> level \<times> string" where
  "kind_promtail LgAlert = (lvError, ''alert: '')"
| "kind_promtail LgSevere = (lvError, ''severe: '')"
| "kind_promtail LgStack = (lvInfo, ''stack: '')"
| "kind_promtail LgStat = (lvInfo, ''stat: '')"
| "kind_promtail LgDebug = (lvDebug, ''debug: '')"
| "kind_promtail LgError = (lvError, ''error: '')"
| "kind_promtail LgInfo = (lvInfo, ''info: '')"
| "kind_promtail LgSlow = (lvWarn, ''slow: '')"

definition loki_packed :: "int \<Rightarrow> log_kind \<Rightarrow> string \<Rightarrow> log_fields \<Rightarrow> packed_entry" where
  "loki_packed now k v fs =
     (case kind_promtail k of (lv, p) \<Rightarrow>
       \<lparr>pk_level = lv, pk_labels = Map.empty,
        pk_entry = \<lparr>pe_time = now, pe_text = p @ v @ (if takes_fields k then formatFields fs else [])\<rparr>\<rparr>)"

record loki_conf =
  lc_enable :: bool
  lc_mode :: string
  lc_url :: string
  lc_source :: string
  lc_job :: string
  lc_batchWait :: int
  lc_batchSize :: int
  lc_subject :: string
  lc_console :: bool

definition logloki_options :: "loki_conf \<Rightarrow> clientOption list" where
  "logloki_options cfg =
     (let wait = lc_batchWait cfg * 1000000000;
          batchWait = (if wait \<le> 0 then 5 * 1000000000 else wait);
          batchSize = (if lc_batchSize cfg \<le> 0 then 10000 else lc_batchSize cfg)
      in [WithSendBatchSize (nat batchSize), WithSendBatchTimeout batchWait])"

definition logloki_labels :: "loki_conf \<Rightarrow> labels" where
  "logloki_labels cfg = [''source'' \<mapsto> lc_source cfg, ''job'' \<mapsto> lc_job cfg]"

definition logloki_NewLogWrite :: "int \<Rightarrow> loki_conf \<Rightarrow> promtail_client" where
  "logloki_NewLogWrite now cfg =
     LogfWithLabels
       \<lparr>pk_level = lvInfo, pk_labels = Map.empty,
        pk_entry = \<lparr>pe_time = now,
          pe_text = ''loki writer ready: source='' @ lc_source cfg @ '' job='' @ lc_job cfg\<rparr>\<rparr>
       (NewClient (logloki_options cfg) (logloki_labels cfg))"

definition loki_log :: "int \<Rightarrow> log_kind \<Rightarrow> string \<Rightarrow> log_fields \<Rightarrow> promtail_client \<Rightarrow> promtail_client" where
  "loki_log now k v fs c = LogfWithLabels (loki_packed now k v fs) c"

section \<open>Console and fan-out\<close>

fun kind_colour :: "log_kind \<Rightarrow> string \<times> string" where
  "kind_colour LgAlert = (''35'', ''ALERT'')"
| "kind_colour LgSevere = (''31;1'', ''SEVERE'')"
| "kind_colour LgError = (''31'', ''ERROR'')"
| "kind_colour LgInfo = (''32'', ''INFO'')"
| "kind_colour LgSlow = (''33'', ''SLOW'')"
| "kind_colour LgDebug = (''36'', ''DEBUG'')"
| "kind_colour LgStack = (''37'', ''STACK'')"
| "kind_colour LgStat = (''34'', ''STAT'')"

definition console_line :: "log_kind \<Rightarrow> string \<Rightarrow> string" where
  "console_line k v =
     (case kind_colour k of (colour, name) \<Rightarrow>
       CHR 0x1B # ''['' @ colour @ ''m['' @ name @ '']'' @ CHR 0x1B # ''[0m '' @ v @ [CHR 0x0A])"

text \<open>A writer is what a log call and \<open>Close\<close> do to the world.\<close>

record 'w log_writer =
  lw_log :: "log_kind \<Rightarrow> string \<Rightarrow> log_fields \<Rightarrow> 'w \<Rightarrow> 'w"
  lw_close :: "'w \<Rightarrow> 'w"

definition NewMultiWriter :: "'w log_writer list \<Rightarrow> 'w log_writer" where
  "NewMultiWriter writers =
     \<lparr>lw_log = (\<lambda>k v fs w. fold (\<lambda>l. lw_log l k v fs) writers w),
      lw_close = (\<lambda>w. fold lw_close writers w)\<rparr>"

section \<open>Set-up\<close>

definition LokiModeBridge :: string where "LokiModeBridge = ''bridge''"

definition bridge_writer_subject :: "loki_conf \<Rightarrow> string" where
  "bridge_writer_subject cfg = (if lc_subject cfg = [] then ''rainiot.logs'' else lc_subject cfg)"

text \<open>
  \<open>Setup\<close>: the console mode of go-zero's own logger, and the writer put in its place, if any. \<open>new_bridge\<close>
  and \<open>new_loki\<close> create the two remote writers.
\<close>

definition Setup ::
  "(string list \<Rightarrow> string \<Rightarrow> string \<Rightarrow> string \<Rightarrow> go_error + 'w log_writer) \<Rightarrow>
   (loki_conf \<Rightarrow> go_error + 'w log_writer) \<Rightarrow> loki_conf \<Rightarrow> string list
     \<Rightarrow> bool \<times> (go_error + 'w log_writer option)" where
  "Setup new_bridge new_loki cfg natsUrls =
     (lc_console cfg,
      if \<not> lc_enable cfg then Inr None
      else
        (case (if lc_mode cfg = LokiModeBridge
               then (case new_bridge natsUrls (bridge_writer_subject cfg) (lc_source cfg) (lc_job cfg) of
                       Inl err \<Rightarrow> Inl (WrapError ''setup loki bridge'' err)
                     | Inr w \<Rightarrow> Inr w)
               else new_loki cfg) of
           Inl err \<Rightarrow> Inl err
         | Inr remote \<Rightarrow> Inr (Some (NewMultiWriter [remote]))))"

text \<open>
  The mode "dual" is the mode "direct": no file writer is part of what replaces go-zero's own.
\<close>

lemma dual_is_direct:
  "Setup nb nl (cfg\<lparr>lc_mode := ''dual''\<rparr>) urls =
     (lc_console cfg, if \<not> lc_enable cfg then Inr None
      else (case nl (cfg\<lparr>lc_mode := ''dual''\<rparr>) of Inl e \<Rightarrow> Inl e | Inr r \<Rightarrow> Inr (Some (NewMultiWriter [r]))))"
  by (simp add: Setup_def LokiModeBridge_def)

section \<open>From a log call to Loki\<close>

lemma digit_plain:
  assumes "digit_value c \<noteq> None"
  shows "plain_char True c"
proof -
  have b: "48 \<le> byte c" "byte c \<le> 57"
    using assms by (auto simp: digit_value_def byte_def Let_def split: if_split_asm)
  then have "c \<noteq> d" if "57 < byte d \<or> byte d < 48" for d using that by auto
  note this [of quote] this [of backslash] this [of "CHR ''<''"] this [of "CHR ''>''"] this [of "CHR ''&''"]
  then show ?thesis using b by (simp add: plain_char_def) (simp add: byte_def quote_def backslash_def)
qed

lemma rfc3339nano_valid: "to_valid (rfc3339nano t) = rfc3339nano t"
proof (rule to_valid_plain [of True])
  have p: "list_all (plain_char True) (pad w n)" for w n
    using pad_digits [of w n] digit_plain by (auto simp: list_all_iff)
  have c: "plain_char True (CHR ''-'')" "plain_char True (CHR '':'')" "plain_char True (CHR ''T'')"
    "plain_char True (CHR ''Z'')" "plain_char True (CHR ''.'')"
    by (simp_all add: plain_char_def byte_def quote_def backslash_def)
  have "list_all (plain_char True) (frac_text ns)" for ns
    using p [of 9 ns] c by (auto simp: frac_text_def list_all_iff dest!: set_dropWhileD)
  then show "list_all (plain_char True) (rfc3339nano t)"
    using p c by (simp add: rfc3339nano_def Let_def split: prod.split)
qed

text \<open>
  C24. A log call in bridge mode reaches Loki under its own labels and at its own time: what the writer
  publishes is decoded by the bridge and queued while the channel has room, and its push is one stream with the
  service's source and job and the call's level, holding one value - the very nanosecond of the call, which the
  writer wrote as RFC 3339 text and the bridge read back, and the line with that text and the message -, all
  as valid UTF-8.
\<close>

theorem logged_entry_reaches_loki:
  assumes "\<not> bw_closed l" and "length (chan b) < cap" and "fits_i64 t"
    and "msg = to_valid (if takes_fields k then v @ formatFields fs else v)"
  shows "\<exists>data e. bw_log t k v fs l = Some (bw_subject l, data) \<and>
     chan (on_message cap i data b) = chan b @ [\<lparr>pm_id = i, pm_entry = e\<rparr>] \<and>
     loki_push now [e] =
       [\<lparr>ls_labels = [(''job'', to_valid (bw_job l)), (''level'', kind_level k),
                       (''source'', to_valid (bw_source l))],
         ls_values = [(t, marshal_strings True [(''@timestamp'', rfc3339nano t), (''msg'', msg)])]\<rparr>]"
proof -
  have lv: "to_valid (kind_level k) = kind_level k"
    by (rule to_valid_plain [of True]) (cases k; simp add: plain_char_def byte_def quote_def backslash_def)
  have "rfc3339nano t \<noteq> []" by (auto simp: rfc3339nano_def Let_def split: prod.splits)
  then have "unix_nano (parseTimestamp (now 0) (rfc3339nano t)) = t"
    using assms(3) by (simp add: parseTimestamp_def parse_rfc3339nano printable_i64 unix_nano_fits)
  then show ?thesis
    using assms(1,2,4) lv rfc3339nano_valid [of t]
    by (simp add: bw_log_def bw_write_def on_message_def entry_decoded valid_entry_def loki_push_def
        keyed_values_def stream_key_of_def stream_of_def log_line_def)
qed

text \<open>An entry of the first of January 2026, a fifth of a second after midnight.\<close>

theorem logged_entry_reaches_loki_witness:
  "\<exists>data e. bw_log 1767225600200000000 LgInfo ''up'' [(''k'', ''1'')] \<lparr>bw_subject = ''s'', bw_source = ''ws'', bw_job = ''j'',
        bw_closed = False\<rparr> = Some (''s'', data) \<and>
     chan (on_message 2 0 data bridge_start) = [\<lparr>pm_id = 0, pm_entry = e\<rparr>] \<and>
     map ls_labels (loki_push (\<lambda>_. 0) [e]) = [[(''job'', ''j''), (''level'', ''info''), (''source'', ''ws'')]] \<and>
     map (map fst \<circ> ls_values) (loki_push (\<lambda>_. 0) [e]) = [[1767225600200000000]]"
proof -
  let ?l = "\<lparr>bw_subject = ''s'', bw_source = ''ws'', bw_job = ''j'', bw_closed = False\<rparr>"
  have v: "to_valid ''ws'' = ''ws''" "to_valid ''j'' = ''j''" "to_valid ''up k=1'' = ''up k=1''"
    by (rule to_valid_plain [of True]; simp add: plain_char_def byte_def quote_def backslash_def)+
  have "length (chan bridge_start) < 2" by (simp add: bridge_start_def)
  moreover have "fits_i64 1767225600200000000" by (simp add: fits_i64_def)
  ultimately show ?thesis
    using logged_entry_reaches_loki [where l = ?l and b = bridge_start and cap = 2 and t = 1767225600200000000
      and k = LgInfo and v = "''up''" and fs = "[(''k'', ''1'')]" and i = 0
      and now = "\<lambda>_. 0" and msg = "''up k=1''"] v
    by (auto simp: takes_fields_def bridge_start_def)
qed

end
