(* ===== verification/Registry.thy ===== *)
theory Registry
  imports GoError "HOL-Library.List_Lexorder" "HOL-Library.Char_ord"
begin

text \<open>
  Finding services: the two gRPC name resolvers (\<open>src/pkg/devicecli/grpc/instances\<close>, \<open>.../rpcn\<close>), the Nacos
  registry (\<open>src/pkg/registry\<close>), the configuration client (\<open>src/pkg/configcli\<close>), the configuration
  (\<open>src/pkg/openconfig\<close>) and the parameters of a registration (\<open>src/pkg/util\<close>).

  The Nacos client is a parameter: \<open>select\<close> is \<open>SelectInstances\<close>, \<open>register\<close> is \<open>RegisterInstance\<close>. An
  interface value that is nil is \<open>None\<close>; calling a method on it panics.
\<close>

section \<open>Configuration\<close>

record nacos_config =
  nc_ipAddress :: "string list"
  nc_port :: nat
  nc_namespaceId :: string
  nc_username :: string
  nc_password :: string
  nc_dataId :: string
  nc_group :: string

definition BuildConfigUrl :: "nacos_config \<Rightarrow> string \<Rightarrow> string" where
  "BuildConfigUrl n service =
     (let addr0 = (case nc_ipAddress n of [] \<Rightarrow> [] | ip # _ \<Rightarrow> ip @ '':'' @ show_nat (nc_port n));
          addr = (if nc_username n \<noteq> [] \<and> nc_password n \<noteq> []
                  then nc_username n @ '':'' @ nc_password n @ ''@'' @ addr0 else addr0);
          urlStr = ''nacos://'' @ addr @ ''/'' @ service;
          params = (if nc_namespaceId n \<noteq> [] then [''namespaceid='' @ nc_namespaceId n] else []) @
                   (if nc_group n \<noteq> [] then [''group='' @ nc_group n] else [])
      in if params \<noteq> [] then urlStr @ ''?'' @ join_with ''&'' params else urlStr)"

definition groupOrDefault :: "string \<Rightarrow> string" where
  "groupOrDefault groupName = (if groupName = [] then ''DEFAULT_GROUP'' else groupName)"

text \<open>
  \<open>SyncConfig\<close>: \<open>new_client\<close> creates the Nacos configuration client, \<open>get\<close> reads the configuration,
  \<open>listen\<close> registers for changes.
\<close>

definition nacos_SyncConfig ::
  "('w \<Rightarrow> (go_error + string) \<times> 'w) \<Rightarrow> ('w \<Rightarrow> go_error option \<times> 'w) \<Rightarrow> 'w \<Rightarrow> (go_error + string) \<times> 'w" where
  "nacos_SyncConfig get listen w =
     (case get w of
        (Inl err, w1) \<Rightarrow> (Inl err, w1)
      | (Inr cf, w1) \<Rightarrow>
          (case listen w1 of
             (Some err, w2) \<Rightarrow> (Inl err, w2)
           | (None, w2) \<Rightarrow> (Inr cf, w2)))"

text \<open>The result: text, whether there is a configuration client, and the error.\<close>

definition SyncConfig ::
  "string \<Rightarrow> go_error option \<Rightarrow> ('w \<Rightarrow> (go_error + string) \<times> 'w) \<Rightarrow> ('w \<Rightarrow> go_error option \<times> 'w) \<Rightarrow> 'w
     \<Rightarrow> (string \<times> bool \<times> go_error option) \<times> 'w" where
  "SyncConfig model new_client get listen w =
     (if model = ''nacos''
      then (case new_client of
              Some err \<Rightarrow> (([], False, Some err), w)
            | None \<Rightarrow>
                (case nacos_SyncConfig get listen w of
                   (Inl err, w') \<Rightarrow> (([], True, Some err), w')
                 | (Inr cf, w') \<Rightarrow> ((cf, True, None), w')))
      else (([], False, None), w))"

section \<open>Registration parameters\<close>

text \<open>The environment, \<open>''''\<close> for an unset variable; \<open>local\<close> is \<open>getLocalIP\<close>.\<close>

definition GetRegistryParameters ::
  "(string \<Rightarrow> string) \<Rightarrow> string \<Rightarrow> string \<Rightarrow> int \<Rightarrow> string \<times> string \<times> string" where
  "GetRegistryParameters env local_ip name port =
     (let service = (if env ''SERVICE_NAME'' = [] then name else env ''SERVICE_NAME'');
          ip = (if env ''SERVICE_IP'' = []
                then (if local_ip = [] then ''127.0.0.1'' else local_ip) else env ''SERVICE_IP'');
          portStr = (if env ''SERVICE_PORT'' = [] then itoa port else env ''SERVICE_PORT'')
      in (service, ip, portStr))"

text \<open>\<open>split\<close> is \<open>net.SplitHostPort\<close>.\<close>

definition GetGrpcRegistryParameters ::
  "(string \<Rightarrow> string) \<Rightarrow> string \<Rightarrow> (string \<Rightarrow> (string \<times> string) option) \<Rightarrow> string \<Rightarrow> string \<times> string" where
  "GetGrpcRegistryParameters env local_ip split listenOn =
     (let ip = (if env ''SERVICE_IP'' = []
                then (if local_ip = [] then ''127.0.0.1'' else local_ip) else env ''SERVICE_IP'');
          portStr = (if env ''SERVICE_GRPC_PORT'' = []
                     then (case split listenOn of Some (_, port) \<Rightarrow> port | None \<Rightarrow> ''8080'')
                     else env ''SERVICE_GRPC_PORT'')
      in (ip, portStr))"

text \<open>
  \<open>getLocalIP\<close>: the address of an outgoing connection, if there is one (its text and whether it is a
  loopback address), else the first interface address that is IPv4 and not loopback.
\<close>

record if_addr =
  ia_text :: string
  ia_loopback :: bool
  ia_ipv4 :: bool
  ia_ipnet :: bool

definition first_ipv4 :: "if_addr list option \<Rightarrow> string" where
  "first_ipv4 addrs =
     (case addrs of
        None \<Rightarrow> []
      | Some as \<Rightarrow>
          (case first_some
                  (\<lambda>a. if ia_ipnet a \<and> \<not> ia_loopback a \<and> ia_ipv4 a then Some (ia_text a) else None) as of
             None \<Rightarrow> []
           | Some t \<Rightarrow> t))"

definition getLocalIP :: "(string \<times> bool) option \<Rightarrow> if_addr list option \<Rightarrow> string" where
  "getLocalIP dialed addrs =
     (case dialed of
        Some (ip, loopback) \<Rightarrow>
          if ip \<noteq> [] \<and> ip \<noteq> ''::1'' \<and> \<not> loopback then ip else first_ipv4 addrs
      | None \<Rightarrow> first_ipv4 addrs)"

section \<open>Resolvers\<close>

record nacos_instance =
  in_ip :: string
  in_port :: nat
  in_metadata :: "string \<rightharpoonup> string"

definition urlForInstance :: "nacos_instance \<Rightarrow> string" where
  "urlForInstance s =
     (case in_metadata s ''gRPC_port'' of
        Some p \<Rightarrow> if p \<noteq> [] then in_ip s @ '':'' @ p else in_ip s @ '':'' @ show_nat (in_port s)
      | None \<Rightarrow> in_ip s @ '':'' @ show_nat (in_port s))"

definition instancesToAddresses :: "nacos_instance list \<Rightarrow> string list" where
  "instancesToAddresses services = filter (\<lambda>a. a \<noteq> []) (map urlForInstance services)"

text \<open>
  One update: the set of the names is built as a map, ranged over in the order \<open>order\<close> gives, and the
  addresses are sorted by their bytes.
\<close>

datatype address = Address (Addr: string)

instantiation address :: linorder
begin

definition less_eq_address :: "address \<Rightarrow> address \<Rightarrow> bool" where
  "less_eq_address p q \<longleftrightarrow> Addr p \<le> Addr q"

definition less_address :: "address \<Rightarrow> address \<Rightarrow> bool" where
  "less_address p q \<longleftrightarrow> Addr p < Addr q"

instance
  by standard (auto simp: less_eq_address_def less_address_def address.expand)

end

definition conns_set :: "string list \<Rightarrow> string \<rightharpoonup> unit" where
  "conns_set cc = fold (\<lambda>c m. m(c \<mapsto> ())) cc Map.empty"

definition endpoint_state :: "((string \<rightharpoonup> unit) \<Rightarrow> string list) \<Rightarrow> string list \<Rightarrow> address list" where
  "endpoint_state order cc = sort (map Address (order (conns_set cc)))"

text \<open>
  The loop of \<open>populateEndpoints\<close> over what its select meets: a list of names, or \<open>None\<close> when the context
  is done. It gives the updates and whether the loop has returned.
\<close>

fun populateEndpoints ::
  "((string \<rightharpoonup> unit) \<Rightarrow> string list) \<Rightarrow> string list option list \<Rightarrow> address list list \<times> bool" where
  "populateEndpoints order [] = ([], False)"
| "populateEndpoints order (None # es) = ([], True)"
| "populateEndpoints order (Some cc # es) =
     (case populateEndpoints order es of (us, returned) \<Rightarrow> (endpoint_state order cc # us, returned))"

lemma dom_conns_set: "dom (conns_set cc) = set cc"
proof -
  have "dom (fold (\<lambda>c m. m(c \<mapsto> ())) cc m) = dom m \<union> set cc" for m :: "string \<rightharpoonup> unit"
    by (induction cc arbitrary: m) auto
  then show ?thesis by (simp add: conns_set_def)
qed

lemma populateEndpoints_until_done:
  "populateEndpoints order (map Some ccs @ None # later) = (map (endpoint_state order) ccs, True)"
  by (induction ccs) simp_all

text \<open>
  The address list handed to the balancer is canonical: sorted, without duplicates, exactly the names
  of the input, and the same for every visiting order and every input with the same names, so an update
  that changes nothing hands over an equal list; and every list received before the resolver is closed is
  handed over, none after it.
\<close>

theorem endpoints_canonical:
  assumes "visits (order (conns_set cc)) (conns_set cc)"
  shows "endpoint_state order cc = sorted_list_of_set (Address ` set cc) \<and> sorted (endpoint_state order cc) \<and>
     distinct (endpoint_state order cc) \<and> set (endpoint_state order cc) = Address ` set cc \<and>
     populateEndpoints order (Some cc # map Some ccs @ None # later) =
       (sorted_list_of_set (Address ` set cc) # map (endpoint_state order) ccs, True)"
proof -
  let ?ks = "map Address (order (conns_set cc))"
  have o: "distinct ?ks" "set ?ks = Address ` set cc"
    using assms by (auto simp: visits_def dom_conns_set distinct_map inj_on_def)
  have "sorted_list_of_set (set ?ks) = sort (remdups ?ks)" by (rule sorted_list_of_set_sort_remdups)
  moreover have "remdups ?ks = ?ks" using o(1) by simp
  ultimately have "sort ?ks = sorted_list_of_set (Address ` set cc)" using o(2) by metis
  moreover have "sorted (sort ?ks)" "distinct (sort ?ks)" "set (sort ?ks) = Address ` set cc" using o by simp_all
  ultimately have e: "endpoint_state order cc = sorted_list_of_set (Address ` set cc)"
    "sorted (endpoint_state order cc)" "distinct (endpoint_state order cc)"
    "set (endpoint_state order cc) = Address ` set cc"
    unfolding endpoint_state_def by metis+
  then show ?thesis by (simp add: populateEndpoints_until_done)
qed

theorem endpoints_canonical_witness:
  "endpoint_state (\<lambda>_. [''b:1'', ''a:2'']) [''a:2'', ''b:1'', ''a:2''] =
     sorted_list_of_set (Address ` set [''a:2'', ''b:1'', ''a:2''])"
proof -
  have "visits [''b:1'', ''a:2''] (conns_set [''a:2'', ''b:1'', ''a:2''])"
    unfolding visits_def dom_conns_set by auto
  from conjunct1 [OF endpoints_canonical [where order = "\<lambda>_. [''b:1'', ''a:2'']", OF this]] show ?thesis .
qed

section \<open>The Nacos registry\<close>

text \<open>\<open>nz_logger\<close>: the embedded logger interface is not nil. The constructor leaves it nil.\<close>

record nacos_client =
  nz_logger :: bool
  nz_config :: nacos_config
  nz_instances :: "string \<rightharpoonup> string list"

definition NewNacosClient :: "nacos_config \<Rightarrow> go_error option \<Rightarrow> go_error + nacos_client" where
  "NewNacosClient config sdk =
     (case sdk of
        Some err \<Rightarrow> Inl err
      | None \<Rightarrow> Inr \<lparr>nz_logger = False, nz_config = config, nz_instances = Map.empty\<rparr>)"

definition nil_logger :: string where "nil_logger = ''nil pointer dereference''"

type_synonym 'w select = "string \<Rightarrow> string \<Rightarrow> 'w \<Rightarrow> (go_error + nacos_instance list) \<times> 'w"

definition service_key :: "string \<Rightarrow> string \<Rightarrow> string" where
  "service_key service grp = service @ '':'' @ grp"

definition HasSeverCli :: "'w select \<Rightarrow> string \<Rightarrow> nacos_client \<times> 'w \<Rightarrow> (bool \<times> go_error option) go \<times> 'w" where
  "HasSeverCli select service cw =
     (let (n, w) = cw in
      if \<not> nz_logger n then (Panic nil_logger, w)
      else
        (case select service (groupOrDefault (nc_group (nz_config n))) w of
           (Inl err, w') \<Rightarrow> (Ret (False, Some err), w')
         | (Inr instances, w') \<Rightarrow> (Ret (0 < length instances, None), w')))"

definition GetSeverCli :: "'w select \<Rightarrow> string \<Rightarrow> nacos_client \<times> 'w \<Rightarrow> go_error option go \<times> (nacos_client \<times> 'w)" where
  "GetSeverCli select service cw =
     (let (n, w) = cw; groupName = groupOrDefault (nc_group (nz_config n)) in
      if \<not> nz_logger n then (Panic nil_logger, (n, w))
      else
        (case select service groupName w of
           (Inl err, w') \<Rightarrow> (Ret (Some err), (n, w'))
         | (Inr instances, w') \<Rightarrow>
             (let addrs = map (\<lambda>i. in_ip i @ '':'' @ show_nat (in_port i)) instances
              in (Ret None, (n\<lparr>nz_instances := (nz_instances n)(service_key service groupName \<mapsto> addrs)\<rparr>, w')))))"

text \<open>One tick of \<open>autoRefresh\<close> over the keys in visiting order; a panic ends the goroutine.\<close>

fun autoRefresh :: "'w select \<Rightarrow> string list \<Rightarrow> nacos_client \<times> 'w \<Rightarrow> unit go \<times> (nacos_client \<times> 'w)" where
  "autoRefresh select [] cw = (Ret (), cw)"
| "autoRefresh select (k # ks) cw =
     (case split_on (CHR '':'') k of
        [service, _] \<Rightarrow>
          (case GetSeverCli select service cw of
             (Panic p, cw') \<Rightarrow> (Panic p, cw')
           | (Ret _, cw') \<Rightarrow> autoRefresh select ks cw')
      | _ \<Rightarrow> autoRefresh select ks cw)"

definition nacos_GetHealthyInstances ::
  "'w select \<Rightarrow> string \<Rightarrow> nacos_client \<times> 'w \<Rightarrow> string list go \<times> (nacos_client \<times> 'w)" where
  "nacos_GetHealthyInstances select service cw =
     (let (n, w) = cw; key = service_key service (nc_group (nz_config n)) in
      case nz_instances n key of
        Some addrs \<Rightarrow> (Ret addrs, (n, w))
      | None \<Rightarrow>
          (case GetSeverCli select service (n, w) of
             (Panic p, cw') \<Rightarrow> (Panic p, cw')
           | (Ret (Some err), cw') \<Rightarrow> (Ret [], cw')
           | (Ret None, (n', w')) \<Rightarrow>
               (case nz_instances n' key of
                  None \<Rightarrow> (Ret [], (n', w'))
                | Some addrs \<Rightarrow> (Ret addrs, (n', w')))))"

text \<open>
  \<open>InitRegisterInstance\<close> and \<open>InitRegisterInstanceGrpc\<close>: \<open>register\<close> takes service, group, address and port.
\<close>

definition register_at ::
  "string \<Rightarrow> string \<Rightarrow> (string \<Rightarrow> string \<Rightarrow> string \<Rightarrow> nat \<Rightarrow> 'w \<Rightarrow> go_error option \<times> 'w) \<Rightarrow> go_error \<Rightarrow>
     string \<Rightarrow> string \<times> string \<Rightarrow> nacos_client \<times> 'w \<Rightarrow> go_error option go \<times> 'w" where
  "register_at bad_port failed register parse_err service addr cw =
     (let (n, w) = cw; (ip, portStr) = addr in
      case parse_uint portStr of
        None \<Rightarrow> (Ret (Some (WrapError bad_port parse_err)), w)
      | Some port \<Rightarrow>
          (case register service (groupOrDefault (nc_group (nz_config n))) ip port w of
             (Some err, w') \<Rightarrow> (Ret (Some (WrapError failed err)), w')
           | (None, w') \<Rightarrow> if nz_logger n then (Ret None, w') else (Panic nil_logger, w')))"

definition InitRegisterInstance ::
  "(string \<Rightarrow> string \<Rightarrow> string \<Rightarrow> nat \<Rightarrow> 'w \<Rightarrow> go_error option \<times> 'w) \<Rightarrow> go_error \<Rightarrow> (string \<Rightarrow> string) \<Rightarrow> string
     \<Rightarrow> string \<Rightarrow> int \<Rightarrow> nacos_client \<times> 'w \<Rightarrow> go_error option go \<times> 'w" where
  "InitRegisterInstance register parse_err env local_ip name port cw =
     (case GetRegistryParameters env local_ip name port of
        (_, ip, portStr) \<Rightarrow>
          register_at ''invalid SERVICE_PORT'' ''failed to register service'' register parse_err
            (nc_dataId (nz_config (fst cw))) (ip, portStr) cw)"

definition InitRegisterInstanceGrpc ::
  "(string \<Rightarrow> string \<Rightarrow> string \<Rightarrow> nat \<Rightarrow> 'w \<Rightarrow> go_error option \<times> 'w) \<Rightarrow> go_error \<Rightarrow> (string \<Rightarrow> string) \<Rightarrow> string
     \<Rightarrow> (string \<Rightarrow> (string \<times> string) option) \<Rightarrow> string \<Rightarrow> string \<Rightarrow> nacos_client \<times> 'w \<Rightarrow> go_error option go \<times> 'w" where
  "InitRegisterInstanceGrpc register parse_err env local_ip split name listenOn cw =
     register_at ''invalid gRPC port'' ''failed to register gRPC service'' register parse_err name
       (GetGrpcRegistryParameters env local_ip split listenOn) cw"

text \<open>\<open>NewRegistry\<close>: a registry only for the model "nacos".\<close>

definition NewRegistry :: "string \<Rightarrow> nacos_config \<Rightarrow> go_error option \<Rightarrow> go_error + nacos_client option" where
  "NewRegistry model config sdk =
     (if model = ''nacos''
      then (case NewNacosClient config sdk of Inl err \<Rightarrow> Inl err | Inr n \<Rightarrow> Inr (Some n))
      else Inr None)"

text \<open>
  Building the Nacos resolver: \<open>group\<close> is the query parameter of the target. The first list goes to the
  balancer; a failing subscription is only logged. A later answer that is an error is dropped.
\<close>

definition rpcn_Build ::
  "'w select \<Rightarrow> (string \<Rightarrow> string \<Rightarrow> 'w \<Rightarrow> go_error option \<times> 'w) \<Rightarrow> string \<Rightarrow> 'w
     \<Rightarrow> (go_error + string list \<times> bool) \<times> 'w" where
  "rpcn_Build select subscribe grp w =
     (let groupName = groupOrDefault grp in
      case select ''iotdevice.grpc'' groupName w of
        (Inl err, w1) \<Rightarrow> (Inl err, w1)
      | (Inr initial, w1) \<Rightarrow>
          (case subscribe ''iotdevice.grpc'' groupName w1 of
             (e, w2) \<Rightarrow> (Inr (instancesToAddresses initial, e = None), w2)))"

definition rpcn_callback :: "go_error + nacos_instance list \<Rightarrow> string list option" where
  "rpcn_callback answer =
     (case answer of Inl err \<Rightarrow> None | Inr services \<Rightarrow> Some (instancesToAddresses services))"

definition SetGrpcConfig :: "nacos_client \<Rightarrow> string \<Rightarrow> string" where
  "SetGrpcConfig n service = BuildConfigUrl (nz_config n) service"

text \<open>
  A registry built by its constructor cannot be used: its embedded logger is nil, so a registration
  that Nacos accepts panics right after it, and so does every look-up of a service.
\<close>

theorem new_registry_panics:
  assumes "NewRegistry ''nacos'' config None = Inr (Some n)"
    and "parse_uint (snd (snd (GetRegistryParameters env local_ip name port))) = Some p"
    and "register (nc_dataId config) (groupOrDefault (nc_group config))
           (fst (snd (GetRegistryParameters env local_ip name port))) p w = (None, w')"
  shows "InitRegisterInstance register parse_err env local_ip name port (n, w) = (Panic nil_logger, w') \<and>
     nacos_GetHealthyInstances select service (n, w) = (Panic nil_logger, (n, w))"
proof -
  have n: "n = \<lparr>nz_logger = False, nz_config = config, nz_instances = Map.empty\<rparr>"
    using assms(1) by (simp add: NewRegistry_def NewNacosClient_def)
  obtain sv ip portStr where g: "GetRegistryParameters env local_ip name port = (sv, ip, portStr)"
    by (cases "GetRegistryParameters env local_ip name port")
  show ?thesis
    using assms(2,3) g
    by (simp add: n InitRegisterInstance_def register_at_def nacos_GetHealthyInstances_def GetSeverCli_def Let_def)
qed

definition demo_config :: nacos_config where
  "demo_config = \<lparr>nc_ipAddress = [''10.0.0.1''], nc_port = 8848, nc_namespaceId = [], nc_username = [],
     nc_password = [], nc_dataId = ''iotws'', nc_group = []\<rparr>"

theorem new_registry_panics_witness:
  "\<exists>n. NewRegistry ''nacos'' demo_config None = Inr (Some n) \<and>
     fst (InitRegisterInstance (\<lambda>s g i p w. (None, Suc w)) (TextError []) (\<lambda>_. []) ''10.0.0.2'' ''ws'' 80 (n, 0)) =
       Panic nil_logger"
proof -
  let ?n = "\<lparr>nz_logger = False, nz_config = demo_config, nz_instances = Map.empty\<rparr>"
  have r: "NewRegistry ''nacos'' demo_config None = Inr (Some ?n)"
    by (simp add: NewRegistry_def NewNacosClient_def)
  have p: "parse_uint (snd (snd (GetRegistryParameters (\<lambda>_. []) ''10.0.0.2'' ''ws'' 80))) = Some 80"
    using parse_uint_itoa [of 80] by (simp add: GetRegistryParameters_def)
  show ?thesis
    using new_registry_panics [OF r p, where register = "\<lambda>s g i p w. (None, Suc w)" and w = 0 and w' = 1]
      r by simp
qed

text \<open>
  Even with a logger the look-up fails for the default group: with no group configured the list is
  stored under \<open>service:DEFAULT_GROUP\<close> but looked up under \<open>service:\<close>, so the answer is empty whatever
  instances Nacos has; with a group the answer is the list, and it is remembered.
\<close>

theorem healthy_instances_of_group:
  assumes "nz_logger n" and "nz_instances n (service_key service (nc_group (nz_config n))) = None"
    and "select service (groupOrDefault (nc_group (nz_config n))) w = (Inr instances, w')"
    and "nacos_GetHealthyInstances select service (n, w) = (r, (n', w2))"
  shows "w2 = w' \<and>
     (if nc_group (nz_config n) = [] then r = Ret []
      else r = Ret (map (\<lambda>i. in_ip i @ '':'' @ show_nat (in_port i)) instances) \<and>
        nacos_GetHealthyInstances select service (n', w2) = (r, (n', w2)))"
  using assms
  by (auto simp: nacos_GetHealthyInstances_def GetSeverCli_def groupOrDefault_def service_key_def Let_def
      split: if_splits)

theorem healthy_instances_of_group_witness:
  "\<exists>n'. nacos_GetHealthyInstances (\<lambda>s g w. (Inr [\<lparr>in_ip = ''10.0.0.3'', in_port = 80, in_metadata = Map.empty\<rparr>], Suc w))
      ''iotdevice'' (\<lparr>nz_logger = True, nz_config = demo_config, nz_instances = Map.empty\<rparr>, 0) = (Ret [], (n', 1))"
proof -
  let ?n = "\<lparr>nz_logger = True, nz_config = demo_config, nz_instances = Map.empty\<rparr>"
  let ?sel = "\<lambda>s g w. (Inr [\<lparr>in_ip = ''10.0.0.3'', in_port = 80, in_metadata = Map.empty\<rparr>], Suc w)"
  obtain r n' w2 where g: "nacos_GetHealthyInstances ?sel ''iotdevice'' (?n, 0) = (r, (n', w2))"
    by (cases "nacos_GetHealthyInstances ?sel ''iotdevice'' (?n, 0)") auto
  have "w2 = 1 \<and> (if nc_group (nz_config ?n) = [] then r = Ret [] else
      r = Ret (map (\<lambda>i. in_ip i @ '':'' @ show_nat (in_port i))
            [\<lparr>in_ip = ''10.0.0.3'', in_port = 80, in_metadata = Map.empty\<rparr>]) \<and>
        nacos_GetHealthyInstances ?sel ''iotdevice'' (n', w2) = (r, (n', w2)))"
    by (rule healthy_instances_of_group [OF _ _ _ g]) simp_all
  then show ?thesis using g by (simp add: demo_config_def)
qed

end
