(* ===== verification/Queues.thy ===== *)
theory Queues
  imports DeviceNats
begin

text \<open>
  The message queues (\<open>src/pkg/queue\<close>): the choice of a broker, the RabbitMQ client, the AMQP wrapper and
  the settings of the NATS client. The broker libraries are parameters.
\<close>

section \<open>The choice of a broker\<close>

datatype broker = RabbitBroker | NatsBroker

definition NewBrokerFromConfig ::
  "string \<Rightarrow> go_error option \<Rightarrow> go_error option \<Rightarrow> go_error + broker" where
  "NewBrokerFromConfig kind rabbit nats =
     (if kind = ''rabbitmq'' then (case rabbit of Some err \<Rightarrow> Inl err | None \<Rightarrow> Inr RabbitBroker)
      else if kind = ''nats'' then (case nats of Some err \<Rightarrow> Inl err | None \<Rightarrow> Inr NatsBroker)
      else Inl (TextError (''unsupported MQ type: '' @ kind)))"

section \<open>RabbitMQ\<close>

text \<open>
  The client: whether its context and its cancel function are set, what it has been told to close, and how
  many consume loops run. A nil function that is called panics, and so does \<open>context.WithCancel\<close> of nil.
\<close>

record rabbit_client =
  rq_has_ctx :: bool
  rq_has_cancel :: bool
  rq_exchange :: string
  rq_closed :: bool
  rq_conn_closes :: nat
  rq_loops :: nat

definition NewRabbitMQConnect :: "go_error option \<Rightarrow> go_error + rabbit_client" where
  "NewRabbitMQConnect conn =
     (case conn of
        Some err \<Rightarrow> Inl err
      | None \<Rightarrow> Inr \<lparr>rq_has_ctx = False, rq_has_cancel = False, rq_exchange = [], rq_closed = False,
                     rq_conn_closes = 0, rq_loops = 0\<rparr>)"

text \<open>The headers of a message: its metadata, and the content type on top.\<close>

definition rabbit_headers :: "qmsg \<Rightarrow> string \<rightharpoonup> string" where
  "rabbit_headers msg = (msg_metadata msg)(''content-type'' \<mapsto> ''application/octet-stream'')"

text \<open>\<open>publish\<close> is the publisher's \<open>Publish\<close>: payload, routing key, exchange and headers.\<close>

fun publish_all ::
  "(string \<Rightarrow> string \<Rightarrow> string \<Rightarrow> (string \<rightharpoonup> string) \<Rightarrow> 'w \<Rightarrow> go_error option \<times> 'w) \<Rightarrow> string \<Rightarrow> string \<Rightarrow> qmsg list
     \<Rightarrow> 'w \<Rightarrow> go_error option \<times> 'w" where
  "publish_all publish exchange topic [] w = (None, w)"
| "publish_all publish exchange topic (m # ms) w =
     (case publish (msg_payload m) topic exchange (rabbit_headers m) w of
        (Some err, w') \<Rightarrow> (Some err, w')
      | (None, w') \<Rightarrow> publish_all publish exchange topic ms w')"

definition rabbit_Publish ::
  "(string \<Rightarrow> string \<Rightarrow> string \<Rightarrow> (string \<rightharpoonup> string) \<Rightarrow> 'w \<Rightarrow> go_error option \<times> 'w) \<Rightarrow> rabbit_client \<Rightarrow> string
     \<Rightarrow> qmsg list \<Rightarrow> 'w \<Rightarrow> go_error option \<times> 'w" where
  "rabbit_Publish publish q topic messages w =
     (if rq_closed q then (Some (TextError ''queue is closed''), w)
      else publish_all publish (rq_exchange q) topic messages w)"

definition rabbit_Subscribe :: "rabbit_client \<Rightarrow> unit go \<times> rabbit_client" where
  "rabbit_Subscribe q =
     (if \<not> rq_has_ctx q then (Panic ''cannot create context from nil parent'', q)
      else (Ret (), q\<lparr>rq_loops := rq_loops q + 1\<rparr>))"

text \<open>\<open>conn_close\<close> is the error of closing the connection.\<close>

definition rabbit_Close :: "go_error option \<Rightarrow> rabbit_client \<Rightarrow> go_error option go \<times> rabbit_client" where
  "rabbit_Close conn_close q =
     (if rq_closed q then (Ret None, q)
      else
        (let q1 = q\<lparr>rq_closed := True\<rparr> in
         if \<not> rq_has_cancel q1 then (Panic ''nil pointer dereference'', q1)
         else (Ret conn_close, q1\<lparr>rq_loops := 0, rq_conn_closes := rq_conn_closes q1 + 1\<rparr>)))"

text \<open>
  One turn of \<open>consumeLoop\<close> as what it meets: the context already done, a consumer that cannot be created
  or whose run failed - each with the select after it, \<open>True\<close> when the context was done first - or a run
  that ended well. The result says how often a consumer was created and how often closed.
\<close>

datatype consume_turn = CtxDone | ConsumerFails bool | RunFails bool | RunEnds

fun consumeLoop :: "consume_turn list \<Rightarrow> nat \<times> nat \<Rightarrow> bool \<times> nat \<times> nat" where
  "consumeLoop [] (made, closed) = (False, made, closed)"
| "consumeLoop (CtxDone # ts) (made, closed) = (True, made, closed)"
| "consumeLoop (ConsumerFails done # ts) (made, closed) =
     (if done then (True, made, closed) else consumeLoop ts (made, closed))"
| "consumeLoop (RunFails done # ts) (made, closed) =
     (if done then (True, Suc made, Suc closed) else consumeLoop ts (Suc made, Suc closed))"
| "consumeLoop (RunEnds # ts) (made, closed) = (True, Suc made, Suc closed)"

text \<open>Every consumer the loop makes it closes.\<close>

lemma consumeLoop_balanced:
  "consumeLoop ts (made, closed) = (returned, made', closed') \<Longrightarrow> made' + closed = closed' + made"
  by (induction ts "(made, closed)" arbitrary: made closed rule: consumeLoop.induct) (auto split: if_splits)

text \<open>
  A RabbitMQ client as its constructor leaves it can neither subscribe nor be closed: subscribing
  panics on the nil context; the first \<open>Close\<close> panics on the nil cancel function after it has marked the
  client closed, the second reports success, and the connection is never closed.
\<close>

theorem rabbit_client_unusable:
  assumes "NewRabbitMQConnect None = Inr q"
  shows "is_panic (fst (rabbit_Subscribe q)) \<and>
     (let (r1, q1) = rabbit_Close e q; (r2, q2) = rabbit_Close e q1
      in is_panic r1 \<and> r2 = Ret None \<and> rq_conn_closes q2 = 0 \<and>
         fst (rabbit_Publish publish q2 topic messages w) = Some (TextError ''queue is closed''))"
  using assms
  by (auto simp: NewRabbitMQConnect_def rabbit_Subscribe_def rabbit_Close_def rabbit_Publish_def)

theorem rabbit_client_unusable_witness:
  "\<exists>q. NewRabbitMQConnect None = Inr q \<and> is_panic (fst (rabbit_Subscribe q)) \<and>
     is_panic (fst (rabbit_Close None q))"
proof -
  obtain q where q: "NewRabbitMQConnect None = Inr q" by (simp add: NewRabbitMQConnect_def)
  from rabbit_client_unusable [OF q, where e = None and publish = "\<lambda>_ _ _ _ w. (None, w)" and w = "()"] q
  show ?thesis by (auto simp: Let_def case_prod_beta)
qed

section \<open>The AMQP wrapper\<close>

record amqp_queue =
  aq_has_publisher :: bool
  aq_has_subscriber :: bool
  aq_once :: bool
  aq_closes :: nat

definition amqp_Close :: "go_error option \<Rightarrow> go_error option \<Rightarrow> amqp_queue \<Rightarrow> go_error option \<times> amqp_queue" where
  "amqp_Close pub_close sub_close q =
     (if aq_once q then (None, q)
      else
        (let e1 = (if aq_has_publisher q then pub_close else None);
             e2 = (if aq_has_subscriber q then (case sub_close of Some e \<Rightarrow> Some e | None \<Rightarrow> e1) else e1)
         in (e2, q\<lparr>aq_once := True,
                   aq_closes := aq_closes q + (if aq_has_publisher q then 1 else 0) +
                     (if aq_has_subscriber q then 1 else 0)\<rparr>)))"

text \<open>The URI of the only node that is ever tried.\<close>

definition dialCluster :: "string list \<Rightarrow> string" where
  "dialCluster uris = (case uris of [] \<Rightarrow> [] | uri # _ \<Rightarrow> uri)"

lemma amqp_Close_once:
  "amqp_Close a b (snd (amqp_Close c d q)) = (None, snd (amqp_Close c d q))"
  by (simp add: amqp_Close_def Let_def)

section \<open>NATS\<close>

record nats_settings =
  ns_addresses :: string
  ns_durable :: string
  ns_maxAckPending :: "int option"
  ns_stream :: "(string \<times> string list) option"
  ns_pub_provision :: bool
  ns_sub_provision :: bool

definition NewNatsConnect_settings ::
  "string list \<Rightarrow> string \<Rightarrow> string \<Rightarrow> int \<Rightarrow> bool \<Rightarrow> nats_settings" where
  "NewNatsConnect_settings addresses subj durable maxAck autoProvision =
     \<lparr>ns_addresses = join_with '','' addresses,
      ns_durable = (if durable = [] then subj else durable),
      ns_maxAckPending = (if maxAck > 0 then Some maxAck else None),
      ns_stream = (if autoProvision then Some (subj, [subj, subj @ ''.>'']) else None),
      ns_pub_provision = False, ns_sub_provision = autoProvision\<rparr>"

end
