(* ===== verification/Boot.thy ===== *)
theory Boot
  imports NodeSetup Balance DeviceCli DeviceService LogWriters Registry Queues
begin

text \<open>
  How the services are put together: the \<open>main\<close> functions of \<open>iotdevice\<close>, \<open>iotws\<close> and \<open>iotcron\<close>
  (\<open>src/app/*/cmd/*.go\<close>), their \<open>NewServiceContext\<close> (\<open>.../internal/svc\<close>), the routes and cron jobs they
  register, the queue router of the device service (\<open>.../handler/nats/routes.go\<close>) and the shutdown handler
  of the registry client.

  A run of such a function ends with a value, by \<open>log.Fatalf\<close>, by a panic, or not at all. The world is the
  list of what the process has brought up so far and the state of the libraries, which are the fields of a
  platform.
\<close>

section \<open>Runs\<close>

datatype 'a run = Done 'a | Fatal string go_error | Crash string | Forever

datatype boot_event =
    Routes "string list" "(string \<times> string) list"   \<comment> \<open>middlewares; method and path\<close>
  | Consumes string                    \<comment> \<open>a consumer of this subject\<close>
  | Job string string                  \<comment> \<open>a cron job: its schedule and what it runs\<close>
  | FnWired                            \<comment> \<open>the callback of the gateway is set\<close>
  | CronUp                             \<comment> \<open>the scheduler runs\<close>
  | ShutdownListener "string list"     \<comment> \<open>what it will call\<close>
  | GrpcUp | HttpUp

type_synonym 'w proc = "boot_event list \<times> 'w"

fun run_bind :: "'a run \<times> 's \<Rightarrow> ('a \<Rightarrow> 's \<Rightarrow> 'b run \<times> 's) \<Rightarrow> 'b run \<times> 's" where
  "run_bind (Done x, s) f = f x s"
| "run_bind (Fatal what err, s) f = (Fatal what err, s)"
| "run_bind (Crash p, s) f = (Crash p, s)"
| "run_bind (Forever, s) f = (Forever, s)"

definition boot :: "boot_event \<Rightarrow> 'w proc \<Rightarrow> 'w proc" where
  "boot e p = (fst p @ [e], snd p)"

lemma boot_simps [simp]: "fst (boot e p) = fst p @ [e]" "snd (boot e p) = snd p"
  by (simp_all add: boot_def)

section \<open>The platform\<close>

text \<open>
  The libraries the start-up calls: the environment, the two Nacos clients, registering and subscribing.
  Decoding a configuration over the present one is an argument of its own: it gives the error and the
  configuration it leaves, which may be partly changed when there is an error.
\<close>

record 'w platform =
  pf_env :: "string \<Rightarrow> string"
  pf_local_ip :: string
  pf_split :: "string \<Rightarrow> (string \<times> string) option"
  pf_cfg_client :: "go_error option"
  pf_cfg_get :: "'w \<Rightarrow> (go_error + string) \<times> 'w"
  pf_cfg_listen :: "'w \<Rightarrow> go_error option \<times> 'w"
  pf_naming :: "go_error option"
  pf_register :: "string \<Rightarrow> string \<Rightarrow> string \<Rightarrow> nat \<Rightarrow> 'w \<Rightarrow> go_error option \<times> 'w"
  pf_parse_err :: go_error
  pf_grpc_dial :: "go_error option"
  pf_rabbit :: "go_error option"
  pf_nats :: "go_error option"
  pf_subscribe :: "string \<Rightarrow> 'w \<Rightarrow> go_error option \<times> 'w"
  pf_bridge :: "string list \<Rightarrow> string \<Rightarrow> string \<Rightarrow> string \<Rightarrow> go_error + 'w log_writer"
  pf_loki :: "loki_conf \<Rightarrow> go_error + 'w log_writer"

text \<open>The error of setting up the log, on the two remote writers of the platform.\<close>

definition log_setup :: "'w platform \<Rightarrow> loki_conf \<Rightarrow> string list \<Rightarrow> go_error option" where
  "log_setup pf cfg urls =
     (case snd (Setup (pf_bridge pf) (pf_loki pf) cfg urls) of Inl err \<Rightarrow> Some err | Inr w \<Rightarrow> None)"

record open_config =
  oc_configModel :: string
  oc_registryModel :: string
  oc_registryConfig :: nacos_config

section \<open>The device service\<close>

record dev_config =
  dcf_name :: string
  dcf_port :: int
  dcf_rpc_name :: string
  dcf_rpc_listen :: string
  dcf_driver :: string
  dcf_redis :: string
  dcf_mq_type :: string
  dcf_subject :: string
  dcf_nats :: "string list"
  dcf_loki :: loki_conf

record dev_svc =
  sc_config :: dev_config
  sc_driver :: string
  sc_redis_addrs :: "string list"
  sc_registry :: "nacos_client option"
  sc_queue :: broker

text \<open>The start of \<open>NewServiceContext\<close>: the configuration of the configuration centre over the present one.\<close>

definition synced ::
  "'w platform \<Rightarrow> open_config \<Rightarrow> (string \<Rightarrow> 'c \<Rightarrow> go_error option \<times> 'c) \<Rightarrow> 'c \<Rightarrow> 'w proc \<Rightarrow> 'c run \<times> 'w proc" where
  "synced pf oc unmarshal c p =
     (case SyncConfig (oc_configModel oc) (pf_cfg_client pf) (pf_cfg_get pf) (pf_cfg_listen pf) (snd p) of
        ((cf, ok, Some err), w') \<Rightarrow> (Fatal ''init sync config err'' err, (fst p, w'))
      | ((cf, ok, None), w') \<Rightarrow>
          if \<not> ok then (Done c, (fst p, w'))
          else (case unmarshal cf c of
                  (Some err, c') \<Rightarrow> (Fatal ''init sync config err'' err, (fst p, w'))
                | (None, c') \<Rightarrow> (Done c', (fst p, w'))))"

text \<open>
  The registry, and the registrations made with it: their errors are dropped, a panic ends the process.
\<close>

definition registered ::
  "'w platform \<Rightarrow> open_config \<Rightarrow> (nacos_client \<Rightarrow> 'w \<Rightarrow> go_error option go \<times> 'w) list \<Rightarrow> 'w proc
     \<Rightarrow> nacos_client option run \<times> 'w proc" where
  "registered pf oc regs p =
     (case NewRegistry (oc_registryModel oc) (oc_registryConfig oc) (pf_naming pf) of
        Inl err \<Rightarrow> (Fatal ''init registry err'' err, p)
      | Inr None \<Rightarrow> (Done None, p)
      | Inr (Some n) \<Rightarrow>
          fold (\<lambda>reg r. run_bind r (\<lambda>_ q.
                  case reg n (snd q) of
                    (Panic x, w') \<Rightarrow> (Crash x, (fst q, w'))
                  | (Ret _, w') \<Rightarrow> (Done (Some n), (fst q, w'))))
            regs (Done (Some n), p))"

definition dev_NewServiceContext ::
  "'w platform \<Rightarrow> (string \<Rightarrow> dev_config \<Rightarrow> go_error option \<times> dev_config) \<Rightarrow> open_config \<Rightarrow> dev_config \<Rightarrow> 'w proc
     \<Rightarrow> dev_svc run \<times> 'w proc" where
  "dev_NewServiceContext pf unmarshal oc c0 p =
     run_bind (synced pf oc unmarshal c0 p) (\<lambda>c p1.
     run_bind (registered pf oc
         [\<lambda>n w. InitRegisterInstance (pf_register pf) (pf_parse_err pf) (pf_env pf) (pf_local_ip pf)
                  (dcf_name c) (dcf_port c) (n, w),
          \<lambda>n w. InitRegisterInstanceGrpc (pf_register pf) (pf_parse_err pf) (pf_env pf) (pf_local_ip pf)
                  (pf_split pf) (dcf_rpc_name c) (dcf_rpc_listen c) (n, w)] p1) (\<lambda>reg p2.
     let driverName = trim_space (dcf_driver c);
         driver = (if driverName = [] then ''postgres'' else driverName)
     in case NewBrokerFromConfig (dcf_mq_type c) (pf_rabbit pf) (pf_nats pf) of
          Inl err \<Rightarrow> (Fatal ''new broker from fonfig'' err, p2)
        | Inr mq \<Rightarrow> (Done \<lparr>sc_config = c, sc_driver = driver, sc_redis_addrs = split_on (CHR '','') (dcf_redis c),
                           sc_registry = reg, sc_queue = mq\<rparr>, p2)))"

text \<open>\<open>Queue.Subscribe\<close>: the RabbitMQ client is as its constructor left it.\<close>

definition queue_Subscribe :: "'w platform \<Rightarrow> broker \<Rightarrow> string \<Rightarrow> 'w \<Rightarrow> go_error option go \<times> 'w" where
  "queue_Subscribe pf q topic w =
     (case q of
        RabbitBroker \<Rightarrow>
          (case NewRabbitMQConnect None of
             Inl err \<Rightarrow> (Ret (Some err), w)
           | Inr client \<Rightarrow>
               (case rabbit_Subscribe client of
                  (Panic x, _) \<Rightarrow> (Panic x, w)
                | (Ret (), _) \<Rightarrow> (Ret None, w)))
      | NatsBroker \<Rightarrow> (case pf_subscribe pf topic w of (e, w') \<Rightarrow> (Ret e, w')))"

text \<open>
  The loop over the commands, in visiting order: a subscription that fails is skipped.
\<close>

fun start_workers ::
  "'w platform \<Rightarrow> broker \<Rightarrow> string \<Rightarrow> string list \<Rightarrow> 'w proc \<Rightarrow> unit run \<times> 'w proc" where
  "start_workers pf q subj [] p = (Done (), p)"
| "start_workers pf q subj (cmd # cmds) p =
     (case queue_Subscribe pf q (subj @ ''_'' @ cmd) (snd p) of
        (Panic x, w') \<Rightarrow> (Crash x, (fst p, w'))
      | (Ret (Some err), w') \<Rightarrow> start_workers pf q subj cmds (fst p, w')
      | (Ret None, w') \<Rightarrow> start_workers pf q subj cmds (boot (Consumes (subj @ ''_'' @ cmd)) (fst p, w')))"

text \<open>\<open>StartRouter\<close> ends in \<open>select {}\<close>: it returns only when the first subscription fails.\<close>

definition StartRouter ::
  "'w platform \<Rightarrow> string list \<Rightarrow> dev_svc \<Rightarrow> 'w proc \<Rightarrow> unit run \<times> 'w proc" where
  "StartRouter pf cmds sc p =
     (let subj = dcf_subject (sc_config sc) in
      case queue_Subscribe pf (sc_queue sc) subj (snd p) of
        (Panic x, w') \<Rightarrow> (Crash x, (fst p, w'))
      | (Ret (Some err), w') \<Rightarrow> (Done (), (fst p, w'))
      | (Ret None, w') \<Rightarrow>
          run_bind (start_workers pf (sc_queue sc) subj cmds (boot (Consumes subj) (fst p, w')))
            (\<lambda>_ p'. (Forever, p')))"

definition dev_middlewares :: "string list" where
  "dev_middlewares = [''RequestBodyLog'']"

definition dev_routes :: "(string \<times> string) list" where
  "dev_routes = [(''POST'', ''/device/connect'')]"

text \<open>\<open>main\<close> of the device service; serving HTTP never returns.\<close>

definition dev_main ::
  "'w platform \<Rightarrow> (string \<Rightarrow> dev_config \<Rightarrow> go_error option \<times> dev_config) \<Rightarrow> string list \<Rightarrow> open_config \<Rightarrow> dev_config
     \<Rightarrow> 'w proc \<Rightarrow> unit run \<times> 'w proc" where
  "dev_main pf unmarshal cmds oc c p =
     (case log_setup pf (dcf_loki c) (dcf_nats c) of
        Some err \<Rightarrow> (Fatal ''log setup'' err, p)
      | None \<Rightarrow>
          run_bind (dev_NewServiceContext pf unmarshal oc c p) (\<lambda>sc p1.
          run_bind (StartRouter pf cmds sc (boot (Routes dev_middlewares dev_routes) p1)) (\<lambda>_ p2.
            (Forever, boot HttpUp (boot GrpcUp p2)))))"

section \<open>The WebSocket node\<close>

record ws_config =
  wcf_name :: string
  wcf_port :: int
  wcf_redis :: string
  wcf_rpc_model :: string
  wcf_rpc_target :: string
  wcf_servers :: "string \<rightharpoonup> string list"
  wcf_transport :: string
  wcf_nats :: "string list"
  wcf_loki :: loki_conf
  wcf_ws :: ws_conf

text \<open>\<open>ws_resolver\<close>: the \<open>instances\<close> resolver has been registered.\<close>

record 'f ws_svc =
  ws_cfg :: ws_config
  ws_service :: string
  ws_redis_addrs :: "string list"
  ws_resolver :: bool
  ws_cli :: dev_cli
  ws_gateway :: "'f gateway"
  ws_upgrader :: server_option

text \<open>The error of decoding is ignored here.\<close>

definition ws_unmarshal ::
  "(string \<Rightarrow> 'c \<Rightarrow> go_error option \<times> 'c) \<Rightarrow> string \<Rightarrow> 'c \<Rightarrow> go_error option \<times> 'c" where
  "ws_unmarshal unmarshal cf c = (None, snd (unmarshal cf c))"

text \<open>
  The gRPC client is made with \<open>zrpc.MustNewClient\<close>, which ends the process when it cannot be; the HTTP client
  cannot fail, a failing queue client is left out (\<open>nats_fails\<close> of \<open>NewDeviceCli\<close>).
\<close>

definition new_transports :: "'w platform \<Rightarrow> string \<Rightarrow> string \<Rightarrow> unit run" where
  "new_transports pf model service =
     (if has_mode (ParseMode model) ModeGRPC
      then (case grpc_NewDeviceCli service (pf_grpc_dial pf) of Inl err \<Rightarrow> Fatal [] err | Inr _ \<Rightarrow> Done ())
      else Done ())"

definition ws_NewServiceContext ::
  "(nat \<Rightarrow> nat \<Rightarrow> nat) \<Rightarrow> bool \<Rightarrow> 'w platform \<Rightarrow> (string \<Rightarrow> ws_config \<Rightarrow> go_error option \<times> ws_config) \<Rightarrow> open_config
     \<Rightarrow> ws_config \<Rightarrow> 'w proc \<Rightarrow> 'f ws_svc run \<times> 'w proc" where
  "ws_NewServiceContext grow nats_fails pf unmarshal oc c0 p =
     run_bind (synced pf oc (ws_unmarshal unmarshal) c0 p) (\<lambda>c p1.
     run_bind (registered pf oc
         [\<lambda>n w. InitRegisterInstance (pf_register pf) (pf_parse_err pf) (pf_env pf) (pf_local_ip pf)
                  (wcf_name c) (wcf_port c) (n, w)] p1) (\<lambda>reg p2.
     let target = rpc_target (reg \<noteq> None) (wcf_rpc_model c) (wcf_rpc_target c)
                    (BuildConfigUrl (oc_registryConfig oc));
         serviceName = fst (GetRegistryParameters (pf_env pf) (pf_local_ip pf) (wcf_name c) (wcf_port c))
     in run_bind (new_transports pf (wcf_transport c) serviceName, p2) (\<lambda>_ p3.
        (Done \<lparr>ws_cfg = c\<lparr>wcf_rpc_target := target\<rparr>, ws_service = serviceName,
               ws_redis_addrs = split_on (CHR '','') (wcf_redis c),
               ws_resolver = (\<not> (reg \<noteq> None \<and> wcf_rpc_model c = ''nacos'') \<and> wcf_rpc_model c = ''instances''),
               ws_cli = NewDeviceCli grow True nats_fails (wcf_transport c),
               ws_gateway = NewGatewayr serviceName, ws_upgrader = upgrader_option (wcf_ws c)\<rparr>, p3))))"

text \<open>The callback on a change of the configuration: the decoded text goes into the configuration only.\<close>

definition ws_config_changed ::
  "(string \<Rightarrow> ws_config \<Rightarrow> go_error option \<times> ws_config) \<Rightarrow> string \<Rightarrow> 'f ws_svc \<Rightarrow> 'f ws_svc" where
  "ws_config_changed unmarshal data s = s\<lparr>ws_cfg := snd (unmarshal data (ws_cfg s))\<rparr>"

definition ws_routes :: "(string \<times> string) list" where
  "ws_routes = [(''GET'', ''/connect''), (''POST'', ''/notice''), (''GET'', ''/ping'')]"

definition RegisterCron :: "'w proc \<Rightarrow> 'w proc" where
  "RegisterCron p =
     boot (Job ''@every 5m'' ''iotconnsnlogic.Iotsync'') (boot (Job ''*/5 * * * * *'' ''iotsyncLogic.Iotsync'') p)"

definition ws_main ::
  "(nat \<Rightarrow> nat \<Rightarrow> nat) \<Rightarrow> bool \<Rightarrow> 'w platform \<Rightarrow> (string \<Rightarrow> ws_config \<Rightarrow> go_error option \<times> ws_config) \<Rightarrow> open_config
     \<Rightarrow> ws_config \<Rightarrow> 'w proc \<Rightarrow> unit run \<times> 'w proc" where
  "ws_main grow nats_fails pf unmarshal oc c p =
     (case log_setup pf (wcf_loki c) (wcf_nats c) of
        Some err \<Rightarrow> (Fatal ''log setup'' err, p)
      | None \<Rightarrow>
          run_bind (ws_NewServiceContext grow nats_fails pf unmarshal oc c p) (\<lambda>s :: unit ws_svc. \<lambda>p1.
            (Forever, boot HttpUp (boot (ShutdownListener [''CloseWs'', ''cron.Stop''])
               (boot CronUp (RegisterCron (boot (Routes [] ws_routes) (boot FnWired p1))))))))"

text \<open>
  Shutdown: the listener closes every socket of the table and stops the jobs; the registry's handler takes
  the instance out of Nacos. It names no group, though the registration did.
\<close>

definition CloseWs :: "conn_val list \<Rightarrow> 'f ws_svc \<Rightarrow> 'f ws_svc" where
  "CloseWs conns s = s\<lparr>ws_gateway := (ws_gateway s)\<lparr>gt_gw := CloseAll conns (gt_gw (ws_gateway s))\<rparr>\<rparr>"

text \<open>The node as it serves, with its callback wired; and the listener: the second component, whether jobs run.\<close>

definition ws_serving :: "'f fn \<Rightarrow> 'f ws_svc \<Rightarrow> 'f ws_svc \<times> bool" where
  "ws_serving fn s = (s\<lparr>ws_gateway := WireWsFn fn (ws_gateway s)\<rparr>, True)"

definition ws_shutdown :: "conn_val list \<Rightarrow> 'f ws_svc \<times> bool \<Rightarrow> 'f ws_svc \<times> bool" where
  "ws_shutdown conns n = (CloseWs conns (fst n), False)"

definition handleShutdown ::
  "(string \<Rightarrow> string \<Rightarrow> string \<Rightarrow> nat \<Rightarrow> 'w \<Rightarrow> go_error option \<times> 'w) \<Rightarrow> string \<Rightarrow> string \<Rightarrow> nat \<Rightarrow> 'w
     \<Rightarrow> string \<times> 'w" where
  "handleShutdown deregister service ip port w =
     (case deregister service [] ip port w of
        (Some err, w') \<Rightarrow> (''[Nacos] Deregister failed'', w')
      | (None, w') \<Rightarrow> (''[Nacos] Deregistered successfully'', w'))"

section \<open>The cron service\<close>

definition CronJob_Register :: "'w proc \<Rightarrow> 'w proc" where
  "CronJob_Register p = boot (Job ''@hourly'' ''println'') (boot (Job ''@every 5m'' ''TryBalance'') p)"

text \<open>The cron service's context: a client of the Redis cluster; the task server is never set.\<close>

record cron_config =
  cr_redisHost :: string
  cr_redisPass :: string
  cr_deviceServer :: string
  cr_devicePort :: int
  cr_loki :: loki_conf

record cron_svc =
  cs_config :: cron_config
  cs_redis :: "string list \<times> string"   \<comment> \<open>addresses, password\<close>
  cs_has_asynq :: bool

definition cron_NewServiceContext :: "cron_config \<Rightarrow> cron_svc" where
  "cron_NewServiceContext c =
     \<lparr>cs_config = c, cs_redis = (split_on (CHR '','') (cr_redisHost c), cr_redisPass c), cs_has_asynq = False\<rparr>"

text \<open>Here a failure of the log set-up is only logged.\<close>

definition cron_main :: "'w platform \<Rightarrow> cron_config \<Rightarrow> 'w proc \<Rightarrow> unit run \<times> 'w proc" where
  "cron_main pf c p =
     (case log_setup pf (cr_loki c) [] of
        Some err \<Rightarrow> (Forever, CronJob_Register p)
      | None \<Rightarrow> (Forever, CronJob_Register p))"

section \<open>What comes up\<close>

text \<open>The workers add consumers of command subjects only, and return.\<close>

lemma start_workers_nats:
  "\<exists>cs w'. start_workers pf NatsBroker subj cmds p = (Done (), (fst p @ map Consumes cs, w')) \<and>
     set cs \<subseteq> (\<lambda>cmd. subj @ ''_'' @ cmd) ` set cmds"
proof (induction cmds arbitrary: p)
  case Nil
  have "start_workers pf NatsBroker subj [] p = (Done (), (fst p @ map Consumes [], snd p))" by simp
  then show ?case by (intro exI [of _ "[]"] exI [of _ "snd p"]) auto
next
  case (Cons cmd cmds)
  obtain e w1 where e: "pf_subscribe pf (subj @ ''_'' @ cmd) (snd p) = (e, w1)"
    by (cases "pf_subscribe pf (subj @ ''_'' @ cmd) (snd p)")
  show ?case
  proof (cases e)
    case None
    obtain cs w' where "start_workers pf NatsBroker subj cmds (boot (Consumes (subj @ ''_'' @ cmd)) (fst p, w1)) =
        (Done (), (fst p @ map Consumes ((subj @ ''_'' @ cmd) # cs), w'))"
      and "set cs \<subseteq> (\<lambda>cmd. subj @ ''_'' @ cmd) ` set cmds"
      using Cons.IH [of "boot (Consumes (subj @ ''_'' @ cmd)) (fst p, w1)"] by auto
    then show ?thesis
      using e None by (intro exI [of _ "(subj @ ''_'' @ cmd) # cs"] exI [of _ w'])
        (auto simp: queue_Subscribe_def)
  next
    case (Some err)
    obtain cs w' where "start_workers pf NatsBroker subj cmds (fst p, w1) = (Done (), (fst p @ map Consumes cs, w'))"
      and "set cs \<subseteq> (\<lambda>cmd. subj @ ''_'' @ cmd) ` set cmds"
      using Cons.IH [of "(fst p, w1)"] by auto
    then show ?thesis
      using e Some by (intro exI [of _ cs] exI [of _ w']) (auto simp: queue_Subscribe_def)
  qed
qed

text \<open>
  C4. The device service either consumes its queue or serves requests, never both: the router is started
  in the foreground and ends in an endless wait, so with a working queue the HTTP and the gRPC server never
  come up; they come up exactly when subscribing to the queue fails, and then nothing is consumed.
\<close>

theorem device_service_serves_or_consumes:
  assumes "log_setup pf (dcf_loki c) (dcf_nats c) = None"
    and "dev_NewServiceContext pf unmarshal oc c p = (Done sc, p1)" and "sc_queue sc = NatsBroker"
  shows "fst (dev_main pf unmarshal cmds oc c p) = Forever \<and>
     (if fst (pf_subscribe pf (dcf_subject (sc_config sc)) (snd p1)) = None
      then \<exists>cs. fst (snd (dev_main pf unmarshal cmds oc c p)) =
                fst p1 @ Routes dev_middlewares dev_routes # Consumes (dcf_subject (sc_config sc)) # map Consumes cs
      else fst (snd (dev_main pf unmarshal cmds oc c p)) = fst p1 @ [Routes dev_middlewares dev_routes, GrpcUp, HttpUp])"
proof -
  let ?subj = "dcf_subject (sc_config sc)"
  obtain e w' where e: "pf_subscribe pf ?subj (snd p1) = (e, w')" by (cases "pf_subscribe pf ?subj (snd p1)")
  show ?thesis
  proof (cases e)
    case None
    obtain cs w2 where "start_workers pf NatsBroker ?subj cmds
        (boot (Consumes ?subj) (fst p1 @ [Routes dev_middlewares dev_routes], w')) =
        (Done (), (fst p1 @ Routes dev_middlewares dev_routes # Consumes ?subj # map Consumes cs, w2))"
      using start_workers_nats [of pf ?subj cmds "boot (Consumes ?subj) (fst p1 @ [Routes dev_middlewares dev_routes], w')"]
      by auto
    then show ?thesis
      using assms e None by (simp add: dev_main_def StartRouter_def queue_Subscribe_def) blast
  next
    case (Some err)
    then show ?thesis
      using assms e by (simp add: dev_main_def StartRouter_def queue_Subscribe_def)
  qed
qed

definition quiet_loki :: loki_conf where
  "quiet_loki = \<lparr>lc_enable = False, lc_mode = [], lc_url = [], lc_source = [], lc_job = [], lc_batchWait = 0,
     lc_batchSize = 0, lc_subject = [], lc_console = False\<rparr>"

definition quiet_platform :: "nat platform" where
  "quiet_platform = \<lparr>pf_env = (\<lambda>_. []), pf_local_ip = ''10.0.0.2'', pf_split = (\<lambda>_. None),
     pf_cfg_client = None, pf_cfg_get = (\<lambda>w. (Inr [], w)), pf_cfg_listen = (\<lambda>w. (None, w)),
     pf_naming = None, pf_register = (\<lambda>s g i q w. (None, Suc w)), pf_parse_err = TextError [],
     pf_grpc_dial = None, pf_rabbit = None, pf_nats = None, pf_subscribe = (\<lambda>t w. (None, Suc w)), pf_bridge = (\<lambda>u s n j. Inl (TextError [])),
     pf_loki = (\<lambda>c. Inl (TextError []))\<rparr>"

definition local_config :: open_config where
  "local_config = \<lparr>oc_configModel = [], oc_registryModel = ''local'', oc_registryConfig = demo_config\<rparr>"

definition device_config :: dev_config where
  "device_config = \<lparr>dcf_name = ''iotdevice-api'', dcf_port = 8888, dcf_rpc_name = ''iotdevice_grpc'',
     dcf_rpc_listen = ''0.0.0.0:9090'', dcf_driver = [], dcf_redis = ''r'', dcf_mq_type = ''nats'',
     dcf_subject = ''iot_device'', dcf_nats = [''n''], dcf_loki = quiet_loki\<rparr>"

lemma device_context:
  "\<exists>sc. dev_NewServiceContext quiet_platform (\<lambda>d c. (None, c)) local_config device_config ([], 0) = (Done sc, ([], 0)) \<and>
     sc_queue sc = NatsBroker \<and> sc_config sc = device_config"
  by (simp add: dev_NewServiceContext_def synced_def SyncConfig_def registered_def NewRegistry_def
      NewBrokerFromConfig_def local_config_def device_config_def quiet_platform_def Let_def)

theorem device_service_serves_or_consumes_witness:
  "HttpUp \<notin> set (fst (snd (dev_main quiet_platform (\<lambda>d c. (None, c)) [''login''] local_config device_config ([], 0))))"
proof -
  obtain sc where sc: "dev_NewServiceContext quiet_platform (\<lambda>d c. (None, c)) local_config device_config ([], 0) =
      (Done sc, ([], 0))" "sc_queue sc = NatsBroker"
    using device_context by blast
  have log: "log_setup quiet_platform (dcf_loki device_config) (dcf_nats device_config) = None"
    and sub: "pf_subscribe quiet_platform t 0 = (None, 1)" for t
    by (simp_all add: quiet_platform_def log_setup_def Setup_def device_config_def quiet_loki_def)
  from device_service_serves_or_consumes [OF log sc, of "[''login'']"] sub
  show ?thesis by auto
qed

section \<open>With the Nacos registry\<close>

lemma first_registration_panics:
  assumes "NewRegistry (oc_registryModel oc) (oc_registryConfig oc) (pf_naming pf) = Inr (Some n)"
    and "reg n (snd p) = (Panic x, w')"
  shows "registered pf oc (reg # regs) p = (Crash x, (fst p, w'))"
proof -
  have stay: "fold (\<lambda>reg r. run_bind r (\<lambda>_ q.
        case reg n (snd q) of
          (Panic x, w') \<Rightarrow> (Crash x, (fst q, w'))
        | (Ret _, w') \<Rightarrow> (Done (Some n), (fst q, w')))) rs (Crash x, q) = (Crash x, q)"
    for rs :: "(nacos_client \<Rightarrow> 'a \<Rightarrow> go_error option go \<times> 'a) list" and q :: "'a proc"
    by (induction rs) simp_all
  show ?thesis using assms by (simp add: registered_def stay)
qed

lemma InitRegisterInstance_fresh:
  assumes "parse_uint (snd (snd (GetRegistryParameters env local_ip name port))) = Some q"
    and "register (nc_dataId config) (groupOrDefault (nc_group config))
           (fst (snd (GetRegistryParameters env local_ip name port))) q w = (None, w')"
  shows "InitRegisterInstance register parse_err env local_ip name port
           (\<lparr>nz_logger = False, nz_config = config, nz_instances = Map.empty\<rparr>, w) = (Panic nil_logger, w')"
proof -
  obtain sv ip portStr where g: "GetRegistryParameters env local_ip name port = (sv, ip, portStr)"
    by (cases "GetRegistryParameters env local_ip name port")
  show ?thesis using assms g by (simp add: InitRegisterInstance_def register_at_def)
qed

text \<open>
  With the registry of Nacos configured no node stays up: as soon as Nacos accepts the registration of
  its HTTP port the process panics on the registry client's nil logger, before any route or job exists. The
  registration itself stays in Nacos: the world is the one it left.
\<close>

theorem nacos_registry_crashes_node:
  assumes "log_setup pf (wcf_loki c) (wcf_nats c) = None" and "oc_registryModel oc = ''nacos''" and "pf_naming pf = None"
    and "synced pf oc (ws_unmarshal unmarshal) c p = (Done c', p1)"
    and "parse_uint (snd (snd (GetRegistryParameters (pf_env pf) (pf_local_ip pf) (wcf_name c') (wcf_port c')))) = Some q"
    and "pf_register pf (nc_dataId (oc_registryConfig oc)) (groupOrDefault (nc_group (oc_registryConfig oc)))
           (fst (snd (GetRegistryParameters (pf_env pf) (pf_local_ip pf) (wcf_name c') (wcf_port c')))) q (snd p1) =
         (None, w')"
  shows "ws_main grow nats_fails pf unmarshal oc c p = (Crash nil_logger, (fst p1, w'))"
proof -
  let ?n = "\<lparr>nz_logger = False, nz_config = oc_registryConfig oc, nz_instances = Map.empty\<rparr>"
  have r: "NewRegistry (oc_registryModel oc) (oc_registryConfig oc) (pf_naming pf) = Inr (Some ?n)"
    using assms(2,3) by (simp add: NewRegistry_def NewNacosClient_def)
  have "registered pf oc
         [\<lambda>n w. InitRegisterInstance (pf_register pf) (pf_parse_err pf) (pf_env pf) (pf_local_ip pf)
                  (wcf_name c') (wcf_port c') (n, w)] p1 = (Crash nil_logger, (fst p1, w'))"
    by (rule first_registration_panics [OF r]) (rule InitRegisterInstance_fresh, rule assms(5), rule assms(6))
  then show ?thesis using assms(1,4) by (simp add: ws_main_def ws_NewServiceContext_def)
qed

definition node_config :: ws_config where
  "node_config = \<lparr>wcf_name = ''iotws-api'', wcf_port = 8888, wcf_redis = ''r'', wcf_rpc_model = ''instances'',
     wcf_rpc_target = [], wcf_servers = Map.empty, wcf_transport = ''nats'', wcf_nats = [''n''],
     wcf_loki = quiet_loki, wcf_ws = default_ws_conf\<rparr>"

theorem nacos_registry_crashes_node_witness:
  "ws_main exact_grow False quiet_platform (\<lambda>d c. (None, c)) (local_config\<lparr>oc_registryModel := ''nacos''\<rparr>)
     node_config ([], 0) = (Crash nil_logger, ([], 1))"
proof -
  let ?oc = "local_config\<lparr>oc_registryModel := ''nacos''\<rparr>"
  let ?pf = quiet_platform
  have "ws_main exact_grow False ?pf (\<lambda>d c. (None, c)) ?oc node_config ([], 0) =
      (Crash nil_logger, (fst ([] :: boot_event list, 0::nat), 1))"
  proof (rule nacos_registry_crashes_node [where c' = node_config and q = 8888])
    show "synced ?pf ?oc (ws_unmarshal (\<lambda>d c. (None, c))) node_config ([], 0) = (Done node_config, ([], 0))"
      by (simp add: synced_def SyncConfig_def local_config_def)
    show "parse_uint (snd (snd (GetRegistryParameters (pf_env ?pf) (pf_local_ip ?pf) (wcf_name node_config)
        (wcf_port node_config)))) = Some 8888"
      using parse_uint_itoa [of 8888]
      by (simp add: GetRegistryParameters_def quiet_platform_def node_config_def)
  qed (simp_all add: quiet_platform_def log_setup_def Setup_def local_config_def node_config_def quiet_loki_def)
  then show ?thesis by simp
qed

section \<open>A node that comes up and goes down\<close>

text \<open>
  With no registry: a gRPC client that cannot be made ends the process; otherwise the HTTP server is the
  last thing the node brings up, after the callback of the gateway, the routes, the jobs, the scheduler and
  the listener for the shutdown.
\<close>

lemma node_comes_up:
  assumes "log_setup pf (wcf_loki c) (wcf_nats c) = None"
    and "synced pf oc (ws_unmarshal unmarshal) c p = (Done c', p1)" and "oc_registryModel oc \<noteq> ''nacos''"
  shows "ws_main grow nats_fails pf unmarshal oc c p =
     (case (has_mode (ParseMode (wcf_transport c')) ModeGRPC, pf_grpc_dial pf) of
        (True, Some err) \<Rightarrow> (Fatal [] err, p1)
      | _ \<Rightarrow> (Forever, (fst p1 @ [FnWired, Routes [] ws_routes,
            Job ''*/5 * * * * *'' ''iotsyncLogic.Iotsync'', Job ''@every 5m'' ''iotconnsnlogic.Iotsync'', CronUp,
            ShutdownListener [''CloseWs'', ''cron.Stop''], HttpUp], snd p1)))"
  using assms
  by (cases "pf_grpc_dial pf")
    (simp_all add: ws_main_def ws_NewServiceContext_def registered_def NewRegistry_def new_transports_def
      grpc_NewDeviceCli_def RegisterCron_def boot_def Let_def)

text \<open>What closing sockets one after another leaves, and what it calls.\<close>

abbreviation close_each :: "(sock \<times> go_error option) list \<Rightarrow> gw \<Rightarrow> gw" where
  "close_each closes g \<equiv> fold (\<lambda>(s, err). OnClose s err) closes g"

lemma OnClose_out: "out (OnClose s err g) = out g @ (case conn_id g s of
    Some (SStr k) \<Rightarrow> [RedisDel (GetCacheConn k)] | _ \<Rightarrow> [])"
  by (simp add: OnClose_def split: option.split sval.split)

lemma OnClose_table: "soketMap (table (OnClose s err g)) k =
    (if conn_id g s = Some (SStr k) then None else soketMap (table g) k)"
  by (auto simp: OnClose_def split: option.splits sval.splits)

lemma OnClose_sessions: "sessions (OnClose s err g) = sessions g"
  by (simp add: OnClose_def split: option.split sval.split)

lemma close_each_table: "soketMap (table (close_each closes g)) k =
    (if \<exists>s\<in>fst ` set closes. conn_id g s = Some (SStr k) then None else soketMap (table g) k)"
  by (induction closes arbitrary: g) (auto simp: OnClose_table OnClose_sessions)

lemma close_each_out: "\<exists>as. out (close_each closes g) = out g @ as \<and>
    (\<forall>s\<in>fst ` set closes. \<forall>k. conn_id g s = Some (SStr k) \<longrightarrow> RedisDel (GetCacheConn k) \<in> set as)"
proof (induction closes arbitrary: g)
  case (Cons c closes)
  obtain s err where c: "c = (s, err)" by (cases c)
  obtain as where "out (close_each closes (OnClose s err g)) = out (OnClose s err g) @ as"
    "\<forall>t\<in>fst ` set closes. \<forall>k. conn_id g t = Some (SStr k) \<longrightarrow> RedisDel (GetCacheConn k) \<in> set as"
    using Cons.IH [of "OnClose s err g"] by (auto simp: OnClose_sessions)
  then show ?case unfolding c
    by (intro exI [of _ "(case conn_id g s of Some (SStr k) \<Rightarrow> [RedisDel (GetCacheConn k)] | _ \<Rightarrow> []) @ as"])
      (auto simp: OnClose_out)
qed simp

lemma CloseAll_frame: "table (CloseAll vs g) = table g \<and> sessions (CloseAll vs g) = sessions g \<and>
    (\<exists>as. out (CloseAll vs g) = out g @ as \<and>
      (\<forall>s. GwsConn s \<in> set vs \<longrightarrow> {WriteClose s 1001 ''server shutting down'', NetConnClose s} \<subseteq> set as))"
proof (induction vs g rule: CloseAll.induct)
  case (2 s vs g)
  then obtain as where "out (CloseAll (GwsConn s # vs) g) =
      out g @ [WriteClose s 1001 ''server shutting down'', NetConnClose s] @ as"
    "\<forall>s. GwsConn s \<in> set vs \<longrightarrow> {WriteClose s 1001 ''server shutting down'', NetConnClose s} \<subseteq> set as"
    by auto
  with 2 show ?case by (auto intro!: exI [of _ "_ # _ # as"])
qed auto

lemma range_values_member: "v \<in> set (range_values ks c) \<longleftrightarrow> (\<exists>k\<in>set ks. soketMap c k = Some v)"
  by (induction ks) (auto simp: range_values_def List.map_filter_simps split: option.split)

text \<open>
  C15. Shutting a node down clears it, when its handlers have run one after another: once the listener has closed the connections of the table, in
  whatever order the table is visited, and the close callback has run for each of them, in whatever order
  and with whatever error, no id leads to a socket any more, no job runs, and every device that was
  connected has been sent the close frame 1001, its connection has been closed, and its presence key has
  been deleted.
\<close>

theorem shutdown_clears_node:
  assumes "gw_reachable fn w0 (gt_gw (ws_gateway s), w)"
    and "set ks = dom (soketMap (table (gt_gw (ws_gateway s))))"
    and "fst ` set closes = {x. \<exists>k. GetconnByConnId (table (gt_gw (ws_gateway s))) k = Some (GwsConn x)}"
  shows "let g = gt_gw (ws_gateway s);
             (s', jobs) = ws_shutdown (range_values ks (table g)) (s, True);
             g' = close_each closes (gt_gw (ws_gateway s'))
         in \<not> jobs \<and> (\<forall>k. GetconnByConnId (table g') k = None) \<and>
            (\<exists>calls. out g' = out g @ calls \<and>
              (\<forall>k x. GetconnByConnId (table g) k = Some (GwsConn x) \<longrightarrow>
                {WriteClose x 1001 ''server shutting down'', NetConnClose x, RedisDel (GetCacheConn k)} \<subseteq> set calls))"
proof -
  define g where "g = gt_gw (ws_gateway s)"
  let ?vs = "range_values ks (table g)"
  let ?g1 = "CloseAll ?vs g"
  have inv: "gw_inv g" using gw_reachable_inv [OF assms(1)] by (simp add: g_def)
  obtain as where 1: "table ?g1 = table g" "sessions ?g1 = sessions g" "out ?g1 = out g @ as"
    "\<And>s. GwsConn s \<in> set ?vs \<Longrightarrow> {WriteClose s 1001 ''server shutting down'', NetConnClose s} \<subseteq> set as"
    using CloseAll_frame [of ?vs g] by blast
  obtain bs where 2: "out (close_each closes ?g1) = out ?g1 @ bs"
    "\<And>s k. s \<in> fst ` set closes \<Longrightarrow> conn_id g s = Some (SStr k) \<Longrightarrow> RedisDel (GetCacheConn k) \<in> set bs"
    using close_each_out [of closes ?g1] 1(2) by auto
  have entry: "\<exists>x. v = GwsConn x \<and> x \<in> fst ` set closes \<and> conn_id g x = Some (SStr k) \<and> GwsConn x \<in> set ?vs"
    if "soketMap (table g) k = Some v" for k v
    using gw_invD [OF inv that] that assms(2,3)
    by (auto simp: GetconnByConnId_def range_values_member g_def)
  have "soketMap (table (close_each closes ?g1)) k = None" for k
    using entry [of k] by (cases "soketMap (table g) k") (auto simp: close_each_table 1(1,2))
  moreover have "{WriteClose x 1001 ''server shutting down'', NetConnClose x, RedisDel (GetCacheConn k)} \<subseteq> set (as @ bs)"
    if "soketMap (table g) k = Some (GwsConn x)" for k x
    using entry [OF that] 1(4) [of x] 2(2) [of x k] by auto
  ultimately show ?thesis
    by (auto simp: ws_shutdown_def CloseWs_def GetconnByConnId_def Let_def g_def [symmetric] 2(1) 1(3)
        intro!: exI [of _ "as @ bs"])
qed

text \<open>A node with one device.\<close>

definition serving_node :: "unit ws_svc" where
  "serving_node = \<lparr>ws_cfg = node_config, ws_service = ''iotws-api_10.0.0.2'', ws_redis_addrs = [''r''],
     ws_resolver = True, ws_cli = zero_cli,
     ws_gateway = (NewGatewayr ''iotws-api_10.0.0.2'')\<lparr>gt_gw := IotwsHandler ''d1'' (Some 1) gw_start\<rparr>,
     ws_upgrader = upgrader_option default_ws_conf\<rparr>"

theorem shutdown_clears_node_witness:
  "let s' = fst (ws_shutdown [GwsConn 1] (serving_node, True)) in
   GetconnByConnId (table (gt_gw (ws_gateway serving_node))) ''d1'' = Some (GwsConn 1) \<and>
   GetconnByConnId (table (close_each [(1, None)] (gt_gw (ws_gateway s')))) ''d1'' = None"
proof -
  have g: "gt_gw (ws_gateway serving_node) = IotwsHandler ''d1'' (Some 1) gw_start"
    by (simp add: serving_node_def)
  have t: "soketMap (table (IotwsHandler ''d1'' (Some 1) gw_start)) = [''d1'' \<mapsto> GwsConn 1]"
    by (simp add: IotwsHandler_def gw_start_def Let_def)
  have v: "range_values [''d1''] (table (IotwsHandler ''d1'' (Some 1) gw_start)) = [GwsConn 1]"
    unfolding range_values_def t by (simp add: List.map_filter_simps)
  have r: "gw_reachable (\<lambda>_ _ w. (Ret ([], False, None), w)) () (gt_gw (ws_gateway serving_node), ())"
    unfolding g by (rule one_connection)
  have "fst ` set [(1, None)] = {x. \<exists>k. GetconnByConnId (table (gt_gw (ws_gateway serving_node))) k = Some (GwsConn x)}"
    unfolding g GetconnByConnId_def t by (auto split: if_splits)
  from shutdown_clears_node [OF r _ this, where ks = "[''d1'']"] show ?thesis
    unfolding g Let_def v GetconnByConnId_def t by (simp add: Let_def case_prod_beta)
qed

section \<open>The transport of a running node\<close>

lemma new_transports_Done:
  "run_bind (new_transports pf model service, p) (\<lambda>_ q. (Done s, q)) = (Done t, p') \<Longrightarrow> t = s \<and> p' = p"
  by (auto simp: new_transports_def grpc_NewDeviceCli_def split: if_splits option.splits)

text \<open>
  A node keeps the transport it was started with: after any sequence of changes of its configuration
  its client has the mode of the transport setting at the start and the same clients, whatever the changed
  setting says, while the configuration it reads addresses from is the changed one.
\<close>

theorem transport_fixed_at_start:
  assumes "ws_NewServiceContext grow nats_fails pf unmarshal oc c p = (Done s, p')"
    and "synced pf oc (ws_unmarshal unmarshal) c p = (Done c', p1)"
  shows "let t = fold (ws_config_changed unmarshal) changes s in
     ws_cli t = NewDeviceCli grow True nats_fails (wcf_transport c') \<and>
     dc_mode (ws_cli t) = ParseMode (wcf_transport c') \<and>
     ws_cfg t = fold (\<lambda>d cfg. snd (unmarshal d cfg)) changes (ws_cfg s)"
proof -
  have keep: "ws_cli (fold (ws_config_changed unmarshal) changes x) = ws_cli x \<and>
      ws_cfg (fold (ws_config_changed unmarshal) changes x) =
        fold (\<lambda>d cfg. snd (unmarshal d cfg)) changes (ws_cfg x)" for x
    by (induction changes arbitrary: x) (simp_all add: ws_config_changed_def)
  obtain reg p2 where "registered pf oc
         [\<lambda>n w. InitRegisterInstance (pf_register pf) (pf_parse_err pf) (pf_env pf) (pf_local_ip pf)
                  (wcf_name c') (wcf_port c') (n, w)] p1 = (reg, p2)"
    by (cases "registered pf oc
         [\<lambda>n w. InitRegisterInstance (pf_register pf) (pf_parse_err pf) (pf_env pf) (pf_local_ip pf)
                  (wcf_name c') (wcf_port c') (n, w)] p1")
  then have cli: "ws_cli s = NewDeviceCli grow True nats_fails (wcf_transport c')"
    using assms by (cases reg) (auto simp: ws_NewServiceContext_def Let_def dest: new_transports_Done)
  show ?thesis
    by (simp add: keep cli NewDeviceCli_def initLocked_def new_grpc_def new_http_def new_nats_def
        Let_def)
qed

theorem transport_fixed_at_start_witness:
  "let change = (\<lambda>d c. (None, c\<lparr>wcf_transport := d\<rparr>));
       s = fst (ws_NewServiceContext exact_grow False quiet_platform change local_config node_config ([], 0)) :: unit ws_svc run
   in case s of Done t \<Rightarrow> dc_mode (ws_cli (ws_config_changed change ''http'' t)) = ModeNATS | _ \<Rightarrow> False"
proof -
  let ?change = "\<lambda>d c. (None :: go_error option, c\<lparr>wcf_transport := d\<rparr>)"
  have y: "synced quiet_platform local_config (ws_unmarshal ?change) node_config ([], 0) = (Done node_config, ([], 0))"
    by (simp add: synced_def SyncConfig_def local_config_def)
  obtain t :: "unit ws_svc" where t: "ws_NewServiceContext exact_grow False quiet_platform ?change local_config node_config ([], 0) =
      (Done t, ([], 0))"
    using y by (simp add: ws_NewServiceContext_def registered_def NewRegistry_def local_config_def Let_def
        new_transports_def node_config_def mode_words)
  from conjunct1 [OF conjunct2 [OF transport_fixed_at_start [OF t y, where changes = "[''http'']", unfolded Let_def]]]
  have "dc_mode (ws_cli (ws_config_changed ?change ''http'' t)) = ParseMode ''nats''"
    by (simp add: node_config_def)
  then show ?thesis by (simp add: t mode_words ModeNATS_def)
qed

end
