(* ===== verification/Presence.thy ===== *)
theory Presence
  imports WsLogic DeviceService
begin

text \<open>
  The presence of a device over time: a login sets the device's key in Redis for six minutes
  (\<open>iotloginlogic.go\<close>), the node's five-minute job renews the keys of its table
  (\<open>cron/iotconnsnlogic.go\<close>), a close deletes the key (\<open>ws/gateway.go\<close>). The node and Redis are one system
  here, whose steps are the passing of time and the code's operations.

  Redis is a parameter: \<open>rd_ttl\<close> is a key's time to live, 0 for a key that is not there.
\<close>

section \<open>The answer to a login, read back by the gateway\<close>

text \<open>
  The connection id the gateway reads out of the answer to a login: the bytes between the quotes, which are
  the serial number as JSON escapes it, up to the first quote.
\<close>

definition wire_id :: "bool \<Rightarrow> string \<Rightarrow> string" where
  "wire_id html sn = takeWhile (\<lambda>c. c \<noteq> quote) (json_chars html sn)"

lemma wire_id_plain: "list_all (plain_char html) sn \<Longrightarrow> wire_id html sn = sn"
  using plain_no_quote [of html sn] by (auto simp: wire_id_def json_chars_plain takeWhile_eq_all_conv)

lemma quoted_connId:
  assumes "quote \<notin> set sn"
  shows "extractSn (CHR ''{'' # quote # ''trace'' @ [quote, CHR '':'', quote, quote, CHR '','', quote] @ ''cmd'' @
     [quote, CHR '':'', quote, quote, CHR '','', quote] @ ''connId'' @ [quote, CHR '':'', quote] @ sn @
     quote # rest) = sn"
  using index_byte_append [OF assms, of rest]
  by (simp add: extractSn_def quoted_field_def quote_def)

lemma extractSn_response:
  "extractSn (response_json html (empty_response\<lparr>rs_connId := sn\<rparr>)) = wire_id html sn"
proof -
  have p: "json_chars html ''trace'' = ''trace''" "json_chars html ''cmd'' = ''cmd''"
    "json_chars html ''connId'' = ''connId''"
    by (rule json_chars_plain; simp add: plain_char_def byte_def quote_def backslash_def)+
  obtain rest where t: "response_json html (empty_response\<lparr>rs_connId := sn\<rparr>) =
      CHR ''{'' # quote # ''trace'' @ [quote, CHR '':'', quote, quote, CHR '','', quote] @ ''cmd'' @
      [quote, CHR '':'', quote, quote, CHR '','', quote] @ ''connId'' @ [quote, CHR '':'', quote] @
      json_chars html sn @ quote # rest"
    by (simp add: response_json_def empty_response_def marshal_strings_def json_object_def json_quote_def p)
  have "\<exists>r. xs @ quote # rest = takeWhile (\<lambda>c. c \<noteq> quote) xs @ quote # r" for xs
    by (induction xs) auto
  then obtain r where "json_chars html sn @ quote # rest = wire_id html sn @ quote # r"
    unfolding wire_id_def by blast
  moreover have "quote \<notin> set (wire_id html sn)" by (auto simp: wire_id_def dest: set_takeWhileD)
  ultimately show ?thesis unfolding t by (metis quoted_connId)
qed

section \<open>Redis\<close>

record 'r redis =
  rd_exec :: "redis_cmd list \<Rightarrow> 'r \<Rightarrow> (go_error option list \<times> go_error option) \<times> 'r"
  rd_del :: "string \<Rightarrow> 'r \<Rightarrow> 'r"
  rd_elapse :: "duration \<Rightarrow> 'r \<Rightarrow> 'r"
  rd_ttl :: "'r \<Rightarrow> string \<Rightarrow> duration"
  rd_val :: "'r \<Rightarrow> string \<Rightarrow> string"

text \<open>A key is as it was, or as a command has set it.\<close>

definition kept_or_set :: "'r redis \<Rightarrow> redis_cmd list \<Rightarrow> 'r \<Rightarrow> 'r \<Rightarrow> bool" where
  "kept_or_set rd cmds r r' \<longleftrightarrow>
     (\<forall>k. (rd_ttl rd r' k = rd_ttl rd r k \<and> rd_val rd r' k = rd_val rd r k) \<or>
        (\<exists>v t. (k, v, t) \<in> set cmds \<and> rd_ttl rd r' k = t \<and> rd_val rd r' k = v))"

text \<open>
  What is documented of Redis and used. Of a pipeline of \<open>SET XX\<close> commands with positive times: it changes
  the keys it names only; without an error each command is done; a nil reply of the pipeline is the nil reply
  of one of its commands; a command that is done found its key, one with a nil reply did not.
\<close>

definition exec_law :: "'r redis \<Rightarrow> bool" where
  "exec_law rd \<longleftrightarrow>
     (\<forall>cmds r sts err r'. rd_exec rd cmds r = ((sts, err), r') \<longrightarrow> (\<forall>c\<in>set cmds. 0 < snd (snd c)) \<longrightarrow>
        length sts = length cmds \<and> kept_or_set rd cmds r r' \<and>
        (err = None \<longrightarrow> sts = map (\<lambda>_. None) cmds \<and>
           (distinct (map fst cmds) \<longrightarrow>
              (\<forall>k v t. (k, v, t) \<in> set cmds \<longrightarrow> rd_ttl rd r' k = t \<and> rd_val rd r' k = v))) \<and>
        (\<forall>e. err = Some e \<longrightarrow> is_nil_reply e \<longrightarrow>
           (\<exists>j<length cmds. \<exists>e'. sts ! j = Some e' \<and> is_nil_reply e')) \<and>
        (\<forall>j<length cmds. case sts ! j of
            None \<Rightarrow> 0 < rd_ttl rd r (fst (cmds ! j))
          | Some e \<Rightarrow> is_nil_reply e \<longrightarrow> rd_ttl rd r (fst (cmds ! j)) = 0))"

text \<open>Time takes from every time to live, and a deletion concerns its key only.\<close>

definition key_laws :: "'r redis \<Rightarrow> bool" where
  "key_laws rd \<longleftrightarrow>
     (\<forall>d r k. 0 \<le> d \<longrightarrow> rd_ttl rd (rd_elapse rd d r) k = max 0 (rd_ttl rd r k - d)) \<and>
     (\<forall>k r j. rd_ttl rd (rd_del rd k r) j = (if j = k then 0 else rd_ttl rd r j))"

text \<open>Reads change nothing, a \<open>SET\<close> its key only.\<close>

definition login_laws :: "'r redis \<Rightarrow> 'r backend \<Rightarrow> bool" where
  "login_laws rd b \<longleftrightarrow>
     (\<forall>k w r w'. redis_get b k w = (r, w') \<longrightarrow> kept_or_set rd [] w w') \<and>
     (\<forall>q args w r w'. query_row b q args w = (r, w') \<longrightarrow> kept_or_set rd [] w w') \<and>
     (\<forall>k v t w e w'. redis_set b k v t w = (e, w') \<longrightarrow> 0 < t \<longrightarrow> kept_or_set rd [(k, v, t)] w w' \<and>
        (e = None \<longrightarrow> rd_ttl rd w' k = t \<and> rd_val rd w' k = v))"

definition redis_ttl_laws :: "'r redis \<Rightarrow> 'r backend \<Rightarrow> bool" where
  "redis_ttl_laws rd b \<longleftrightarrow> exec_law rd \<and> key_laws rd \<and> login_laws rd b"

lemma laws_elapse: "key_laws rd \<Longrightarrow> 0 \<le> d \<Longrightarrow> rd_ttl rd (rd_elapse rd d r) k = max 0 (rd_ttl rd r k - d)"
  by (simp add: key_laws_def)

lemma laws_del: "key_laws rd \<Longrightarrow> rd_ttl rd (rd_del rd k r) j = (if j = k then 0 else rd_ttl rd r j)"
  by (simp add: key_laws_def)

section \<open>The system\<close>

text \<open>The node, Redis, and the time since the node's job last ran without an error.\<close>

record 'r presence =
  ps_gw :: gw
  ps_redis :: 'r
  ps_since :: duration

text \<open>The deletions among the calls a callback made.\<close>

definition redis_effects :: "'r redis \<Rightarrow> action list \<Rightarrow> 'r \<Rightarrow> 'r" where
  "redis_effects rd as r = fold (\<lambda>a r. case a of RedisDel k \<Rightarrow> rd_del rd k r | _ \<Rightarrow> r) as r"

definition new_calls :: "gw \<Rightarrow> gw \<Rightarrow> action list" where
  "new_calls g g' = drop (length (out g)) (out g')"

text \<open>
  The steps: time passes, the job being run in time; a device logs in - the service's answer goes through
  the gateway -, or fails to; the service handles a login of some other socket, of this node or another; a registered
  socket's message; a close; a run of the job, with whatever result.
\<close>

inductive presence_step ::
  "'r redis \<Rightarrow> 'r backend \<Rightarrow> bool \<Rightarrow> string \<Rightarrow> 'r presence \<Rightarrow> 'r presence \<Rightarrow> bool"
  for rd b html service where
  time_passes: "0 \<le> d \<Longrightarrow> ps_since p + d < ConnTime \<Longrightarrow>
     presence_step rd b html service p
       (p\<lparr>ps_redis := rd_elapse rd d (ps_redis p), ps_since := ps_since p + d\<rparr>)"
| device_logs_in: "login_Iotdevice b req (ps_redis p) = (Inr resp, r') \<Longrightarrow>
     wire_id html (rs_connId resp) = rs_connId resp \<Longrightarrow> conn_id (ps_gw p) s = None \<Longrightarrow>
     presence_step rd b html service p
       (p\<lparr>ps_gw := fst (OnMessage (\<lambda>_ _ w. (Ret (response_json html resp, True, None), w)) s op msg
                          (ps_gw p, ())), ps_redis := r'\<rparr>)"
| login_fails: "login_Iotdevice b req (ps_redis p) = (Inl err, r') \<Longrightarrow> conn_id (ps_gw p) s = None \<Longrightarrow>
     presence_step rd b html service p
       (p\<lparr>ps_gw := fst (OnMessage (\<lambda>_ _ w. (Ret ([], True, Some err), w)) s op msg (ps_gw p, ())),
          ps_redis := r'\<rparr>)"
| login_elsewhere: "login_Iotdevice b req (ps_redis p) = (res, r') \<Longrightarrow>
     presence_step rd b html service p (p\<lparr>ps_redis := r'\<rparr>)"
| message_arrives: "conn_id (ps_gw p) s = Some i \<Longrightarrow>
     presence_step rd b html service p (p\<lparr>ps_gw := fst (OnMessage (fn :: unit fn) s op msg (ps_gw p, ()))\<rparr>)"
| socket_closes: "g' = OnClose s err (ps_gw p) \<Longrightarrow>
     presence_step rd b html service p
       (p\<lparr>ps_gw := g', ps_redis := redis_effects rd (new_calls (ps_gw p) g') (ps_redis p)\<rparr>)"
| job_runs: "visits ids (soketMap (table (ps_gw p))) \<Longrightarrow>
     rd_exec rd (set_cmds service ids) (ps_redis p) = ((sts, err), r1) \<Longrightarrow>
     conn_Iotsync (rd_exec rd) ids service (ps_gw p, ps_redis p) = (g', r') \<Longrightarrow>
     presence_step rd b html service p
       (p\<lparr>ps_gw := g', ps_redis := r', ps_since := if err = None then 0 else ps_since p\<rparr>)"

inductive presence_reachable ::
  "'r redis \<Rightarrow> 'r backend \<Rightarrow> bool \<Rightarrow> string \<Rightarrow> 'r presence \<Rightarrow> bool"
  for rd b html service where
  node_starts: "presence_reachable rd b html service \<lparr>ps_gw = gw_start, ps_redis = r, ps_since = 0\<rparr>"
| node_goes_on: "presence_reachable rd b html service p \<Longrightarrow> presence_step rd b html service p p' \<Longrightarrow>
     presence_reachable rd b html service p'"

inductive_cases presence_stepE: "presence_step rd b html service p p'"

section \<open>Its invariant\<close>

text \<open>
  The entries of the table are sockets, and the key of each lives at least as long as the job may still
  take.
\<close>

definition presence_inv :: "'r redis \<Rightarrow> 'r presence \<Rightarrow> bool" where
  "presence_inv rd p \<longleftrightarrow> gw_inv (ps_gw p) \<and> 0 \<le> ps_since p \<and> ps_since p < ConnTime \<and>
     (\<forall>i v. soketMap (table (ps_gw p)) i = Some v \<longrightarrow>
        ConnTime - ps_since p \<le> rd_ttl rd (ps_redis p) (GetCacheConn i))"

lemma presence_invD:
  "presence_inv rd p \<Longrightarrow> soketMap (table (ps_gw p)) i = Some v \<Longrightarrow>
     ConnTime - ps_since p \<le> rd_ttl rd (ps_redis p) (GetCacheConn i)"
  by (simp add: presence_inv_def)

text \<open>Setting keys of devices for the full time never hurts.\<close>

lemma kept_or_set_lives:
  assumes "kept_or_set rd cmds r r'" and "n \<le> rd_ttl rd r k" and "n \<le> ConnTime"
    and "\<And>c. c \<in> set cmds \<Longrightarrow> snd (snd c) = ConnTime"
  shows "n \<le> rd_ttl rd r' k"
  using assms unfolding kept_or_set_def by (metis snd_conv)

lemma kept_or_set_trans_nil: "kept_or_set rd [] r r' \<Longrightarrow> rd_ttl rd r' k = rd_ttl rd r k"
  by (simp add: kept_or_set_def)

lemma ConnTime_pos: "0 < ConnTime"
  by (simp add: ConnTime_def Minute_def Second_def)

lemma login_redis:
  assumes laws: "login_laws rd b" and "login_Iotdevice b req r = (res, r')"
  shows "(n \<le> rd_ttl rd r k \<longrightarrow> n \<le> ConnTime \<longrightarrow> n \<le> rd_ttl rd r' k) \<and>
     (case res of Inl _ \<Rightarrow> True
      | Inr resp \<Rightarrow> resp = empty_response\<lparr>rs_connId := Sn req\<rparr> \<and> Sn req \<noteq> [] \<and>
          rd_ttl rd r' (GetCacheConn (Sn req)) = ConnTime \<and>
          rd_val rd r' (GetCacheConn (Sn req)) = ServiceName req)"
proof (cases "Sn req = []")
  case True
  then show ?thesis using assms(2) by (auto simp: login_Iotdevice_def)
next
  case False
  obtain v w1 where G: "redis_get b (GetCacheConn (Sn req)) r = (v, w1)"
    by (cases "redis_get b (GetCacheConn (Sn req)) r")
  obtain q w2 where Q: "query_row b (select_by ''sn'') [ArgText (Sn req)] w1 = (q, w2)"
    by (cases "query_row b (select_by ''sn'') [ArgText (Sn req)] w1")
  obtain e w3 where S: "redis_set b (GetCacheConn (Sn req)) (ServiceName req) ConnTime w2 = (e, w3)"
    by (cases "redis_set b (GetCacheConn (Sn req)) (ServiceName req) ConnTime w2")
  have "kept_or_set rd [] r w1" using laws G unfolding login_laws_def by metis
  moreover have "kept_or_set rd [] w1 w2" using laws Q unfolding login_laws_def by metis
  ultimately have same: "rd_ttl rd w2 j = rd_ttl rd r j" for j by (simp add: kept_or_set_trans_nil)
  have s: "kept_or_set rd [(GetCacheConn (Sn req), ServiceName req, ConnTime)] w2 w3"
    using laws S ConnTime_pos unfolding login_laws_def by metis
  have t: "e = None \<Longrightarrow> rd_ttl rd w3 (GetCacheConn (Sn req)) = ConnTime \<and>
      rd_val rd w3 (GetCacheConn (Sn req)) = ServiceName req"
    using laws S ConnTime_pos unfolding login_laws_def by metis
  have live: "n \<le> rd_ttl rd r k \<Longrightarrow> n \<le> ConnTime \<Longrightarrow> n \<le> rd_ttl rd w3 k"
    using kept_or_set_lives [OF s, of n k] same by simp
  show ?thesis
    using assms(2) False G Q S same live t
    by (cases q; cases e) (auto simp: login_Iotdevice_def GetOneBySn_def Let_def split: if_splits)
qed

lemma login_other_key:
  assumes laws: "login_laws rd b" and "login_Iotdevice b req r = (res, r')" and "k \<noteq> GetCacheConn (Sn req)"
  shows "rd_ttl rd r' k = rd_ttl rd r k"
proof -
  have "rd_ttl rd w' k = rd_ttl rd w k" if "redis_get b j w = (v, w')" for j v w w'
    using laws that kept_or_set_trans_nil unfolding login_laws_def by metis
  moreover have "rd_ttl rd w' k = rd_ttl rd w k" if "query_row b q args w = (v, w')" for q args v w w'
    using laws that kept_or_set_trans_nil unfolding login_laws_def by metis
  moreover have "rd_ttl rd w' k = rd_ttl rd w k"
    if "redis_set b (GetCacheConn (Sn req)) v ConnTime w = (e, w')" for v e w w'
  proof -
    have "kept_or_set rd [(GetCacheConn (Sn req), v, ConnTime)] w w'"
      using laws that ConnTime_pos unfolding login_laws_def by metis
    then show ?thesis using assms(3) by (auto simp: kept_or_set_def)
  qed
  ultimately show ?thesis
    using assms(2)
    by (auto simp: login_Iotdevice_def GetOneBySn_def Let_def split: if_splits prod.splits sum.splits option.splits)
qed

lemma conn_Iotsync_table:
  assumes "gw_inv g" and "conn_Iotsync exec ids service (g, r) = (g', r')"
    and "exec (set_cmds service ids) r = ((sts, err), r1)"
  shows "table g' = table g \<and> sessions g' = sessions g \<and> r' = r1"
proof -
  have gws: "\<And>k v. soketMap (table g) k = Some v \<Longrightarrow> \<exists>s. v = GwsConn s"
    using gw_invD [OF assms(1)] by blast
  have "table (close_failed xs g) = table g \<and> sessions (close_failed xs g) = sessions g" for xs
    by (simp add: close_failed_gws [OF gws] emit_def split: option.split conn_val.split)
  then show ?thesis
    using assms(2,3)
    by (cases err) (auto simp: conn_Iotsync_def setIfExistsBatchResult_def split: if_splits sum.splits prod.splits)
qed

lemma set_cmds_full_time: "c \<in> set (set_cmds service ids) \<Longrightarrow> snd (snd c) = ConnTime"
  by (auto simp: set_cmds_def)

lemma job_redis:
  assumes law: "exec_law rd" and ids: "distinct ids"
    and x: "rd_exec rd (set_cmds service ids) r = ((sts, err), r1)"
  shows "n \<le> rd_ttl rd r k \<Longrightarrow> n \<le> ConnTime \<Longrightarrow> n \<le> rd_ttl rd r1 k"
    and "length sts = length ids"
    and "err = None \<Longrightarrow> sts = map (\<lambda>_. None) ids"
    and "err = None \<Longrightarrow> i \<in> set ids \<Longrightarrow>
       rd_ttl rd r1 (GetCacheConn i) = ConnTime \<and> rd_val rd r1 (GetCacheConn i) = service"
    and "err = Some e \<Longrightarrow> is_nil_reply e \<Longrightarrow> \<exists>j<length ids. \<exists>e'. sts ! j = Some e' \<and> is_nil_reply e'"
    and "j < length ids \<Longrightarrow> sts ! j = None \<Longrightarrow> 0 < rd_ttl rd r (GetCacheConn (ids ! j))"
    and "j < length ids \<Longrightarrow> sts ! j = Some e' \<Longrightarrow> is_nil_reply e' \<Longrightarrow> rd_ttl rd r (GetCacheConn (ids ! j)) = 0"
proof -
  have d: "distinct (map fst (set_cmds service ids))"
    using ids by (simp add: set_cmds_def comp_def distinct_map inj_on_def)
  have pos: "\<forall>c\<in>set (set_cmds service ids). 0 < snd (snd c)"
    by (simp add: set_cmds_full_time ConnTime_pos)
  note A = mp [OF mp [OF spec [OF spec [OF spec [OF spec [OF spec [OF law [unfolded exec_law_def]]]]]] x] pos]
  note L1 = conjunct1 [OF A] and A2 = conjunct2 [OF A]
  note L2 = conjunct1 [OF A2] and A3 = conjunct2 [OF A2]
  note L3 = conjunct1 [OF A3] and A4 = conjunct2 [OF A3]
  note L4 = conjunct1 [OF A4] and L5 = conjunct2 [OF A4]
  show "n \<le> rd_ttl rd r k \<Longrightarrow> n \<le> ConnTime \<Longrightarrow> n \<le> rd_ttl rd r1 k"
    using kept_or_set_lives [OF L2] set_cmds_full_time by blast
  show "length sts = length ids" using L1 by (simp add: set_cmds_def)
  show "err = None \<Longrightarrow> sts = map (\<lambda>_. None) ids" using L3 by (simp add: set_cmds_def comp_def)
  show "err = None \<Longrightarrow> i \<in> set ids \<Longrightarrow>
      rd_ttl rd r1 (GetCacheConn i) = ConnTime \<and> rd_val rd r1 (GetCacheConn i) = service"
    using L3 d by (fastforce simp: set_cmds_def)
  show "err = Some e \<Longrightarrow> is_nil_reply e \<Longrightarrow> \<exists>j<length ids. \<exists>e'. sts ! j = Some e' \<and> is_nil_reply e'"
    using L4 by (simp add: set_cmds_def)
  show "j < length ids \<Longrightarrow> sts ! j = None \<Longrightarrow> 0 < rd_ttl rd r (GetCacheConn (ids ! j))"
    using spec [OF L5, of j] by (simp add: set_cmds_def)
  show "j < length ids \<Longrightarrow> sts ! j = Some e' \<Longrightarrow> is_nil_reply e' \<Longrightarrow> rd_ttl rd r (GetCacheConn (ids ! j)) = 0"
    using spec [OF L5, of j] by (simp add: set_cmds_def)
qed

lemma OnMessage_known_table: "conn_id g s = Some i \<Longrightarrow> table (fst (OnMessage fn s op msg (g, w))) = table g"
  by (cases i; cases fn "case i of SStr c \<Rightarrow> c | SOther \<Rightarrow> []" msg w rule: fn_cases)
    (simp_all add: OnMessage_def OnMessage_after_def OnMessage_known_def recover_panic_def)

lemma presence_step_inv [inv_intros]:
  assumes all_laws: "redis_ttl_laws rd b" and "presence_step rd b html service p p'" and inv: "presence_inv rd p"
  shows "presence_inv rd p'"
proof -
  have laws: "exec_law rd" "key_laws rd" "login_laws rd b"
    using all_laws by (simp_all add: redis_ttl_laws_def)
  show ?thesis using assms(2)
  proof (cases rule: presence_step.cases)
    case (time_passes d)
    have t: "rd_ttl rd (rd_elapse rd d (ps_redis p)) k = max 0 (rd_ttl rd (ps_redis p) k - d)" for k
      by (rule laws_elapse [OF laws(2) time_passes(2)])
    show ?thesis
      using time_passes inv presence_invD [OF inv] t by (fastforce simp: presence_inv_def)
  next
    case (device_logs_in req resp r' s op msg)
    note R = login_redis [OF laws(3) device_logs_in(2)]
    have id: "resp = empty_response\<lparr>rs_connId := Sn req\<rparr>" "Sn req \<noteq> []" "rd_ttl rd r' (GetCacheConn (Sn req)) = ConnTime"
      using R by simp_all
    have keep: "n \<le> rd_ttl rd (ps_redis p) k \<Longrightarrow> n \<le> ConnTime \<Longrightarrow> n \<le> rd_ttl rd r' k" for n k
      using login_redis [OF laws(3) device_logs_in(2), of n k] by blast
    let ?g = "fst (OnMessage (\<lambda>_ _ w. (Ret (response_json html resp, True, None), w)) s op msg (ps_gw p, ()))"
    have T: "table ?g = Storage (Sn req) (GwsConn s) (table (ps_gw p))"
      using device_logs_in(3,4) id(1,2) extractSn_response [of html "Sn req"]
      by (simp add: OnMessage_def OnMessage_after_def OnMessage_new_def Let_def)
    have G: "gw_inv ?g" by (rule gw_inv_OnMessage) (use inv in \<open>simp add: presence_inv_def\<close>)
    have "ConnTime - ps_since p \<le> rd_ttl rd r' (GetCacheConn i)" if "soketMap (table ?g) i = Some v" for i v
    proof (cases "i = Sn req")
      case True
      then show ?thesis using id(3) inv by (simp add: presence_inv_def)
    next
      case False
      then have "soketMap (table (ps_gw p)) i = Some v" using that T by simp
      then show ?thesis using keep presence_invD [OF inv] inv by (simp add: presence_inv_def)
    qed
    then show ?thesis using device_logs_in(1) G inv by (auto simp: presence_inv_def)
  next
    case (login_fails req err r' s op msg)
    let ?g = "fst (OnMessage (\<lambda>_ _ w. (Ret ([], True, Some err), w)) s op msg (ps_gw p, ()))"
    have T: "table ?g = table (ps_gw p)"
      using login_fails(3) by (simp add: OnMessage_def OnMessage_after_def OnMessage_new_def ServerOnClose_def Let_def)
    have G: "gw_inv ?g" by (rule gw_inv_OnMessage) (use inv in \<open>simp add: presence_inv_def\<close>)
    have "n \<le> rd_ttl rd (ps_redis p) k \<Longrightarrow> n \<le> ConnTime \<Longrightarrow> n \<le> rd_ttl rd r' k" for n k
      using login_redis [OF laws(3) login_fails(2), of n k] by blast
    then show ?thesis using login_fails(1) G T inv by (auto simp: presence_inv_def)
  next
    case (login_elsewhere req res r')
    have "n \<le> rd_ttl rd (ps_redis p) k \<Longrightarrow> n \<le> ConnTime \<Longrightarrow> n \<le> rd_ttl rd r' k" for n k
      using login_redis [OF laws(3) login_elsewhere(2), of n k] by blast
    then show ?thesis using login_elsewhere(1) inv by (auto simp: presence_inv_def)
  next
    case (message_arrives s i fn op msg)
    have "gw_inv (fst (OnMessage fn s op msg (ps_gw p, ())))"
      by (rule gw_inv_OnMessage) (use inv in \<open>simp add: presence_inv_def\<close>)
    moreover have "table (fst (OnMessage fn s op msg (ps_gw p, ()))) = table (ps_gw p)"
      by (rule OnMessage_known_table [OF message_arrives(2)])
    ultimately show ?thesis
      using message_arrives(1) inv by (auto simp: presence_inv_def)
  next
    case (socket_closes g' s err)
    have d: "rd_ttl rd (rd_del rd k r) j = (if j = k then 0 else rd_ttl rd r j)" for k r j
      by (rule laws_del [OF laws(2)])
    have G: "gw_inv g'" unfolding socket_closes(2) by (rule gw_inv_OnClose) (use inv in \<open>simp add: presence_inv_def\<close>)
    show ?thesis
    proof (cases "\<exists>i. conn_id (ps_gw p) s = Some (SStr i)")
      case True
      then obtain i where "conn_id (ps_gw p) s = Some (SStr i)" by blast
      then have "table g' = Del i (table (ps_gw p))" "new_calls (ps_gw p) g' = [RedisDel (GetCacheConn i)]"
        using socket_closes(2) by (simp_all add: OnClose_def new_calls_def emit_def)
      then show ?thesis
        using socket_closes(1) G inv d by (auto simp: presence_inv_def redis_effects_def split: if_splits)
    next
      case False
      then have "g' = ps_gw p"
        using socket_closes(2) by (auto simp: OnClose_def split: option.split sval.split)
      then show ?thesis
        using socket_closes(1) inv by (simp add: presence_inv_def redis_effects_def new_calls_def)
    qed
  next
    case (job_runs ids sts err r1 g' r')
    have ids: "distinct ids" "set ids = dom (soketMap (table (ps_gw p)))" using job_runs(2) by (simp_all add: visits_def)
    have g: "gw_inv (ps_gw p)" using inv by (simp add: presence_inv_def)
    have T: "table g' = table (ps_gw p)" "sessions g' = sessions (ps_gw p)" "r' = r1"
      using conn_Iotsync_table [OF g job_runs(4,3)] by simp_all
    have G: "gw_inv g'" using g T by (simp add: gw_inv_def)
    note J = job_redis [OF laws(1) ids(1) job_runs(3)]
    have renewed: "rd_ttl rd r1 (GetCacheConn i) = ConnTime" if "err = None" "soketMap (table (ps_gw p)) i = Some v" for i v
      using J(4) that ids(2) by (simp add: domI)
    show ?thesis
    proof (cases err)
      case None
      then show ?thesis using job_runs(1) T G inv renewed by (auto simp: presence_inv_def ConnTime_def Minute_def Second_def)
    next
      case (Some e)
      then show ?thesis using job_runs(1) T G inv J(1) by (auto simp: presence_inv_def)
    qed
  qed
qed

lemma presence_reachable_inv:
  assumes "redis_ttl_laws rd b"
  shows "presence_reachable rd b html service p \<Longrightarrow> presence_inv rd p"
proof (induction rule: presence_reachable.induct)
  case (node_starts r)
  show ?case by (simp add: presence_inv_def gw_inv_def ConnTime_pos gw_start_def)
next
  case (node_goes_on p p')
  then show ?case using presence_step_inv [OF assms] by blast
qed

lemma presence_alive:
  assumes "presence_inv rd p" and "soketMap (table (ps_gw p)) i = Some v"
  shows "0 < rd_ttl rd (ps_redis p) (GetCacheConn i)"
  using presence_invD [OF assms] assms(1) by (simp add: presence_inv_def)

text \<open>What the job does, in terms of its statuses.\<close>

lemma conn_Iotsync_out:
  assumes "gw_inv g" and "conn_Iotsync exec ids service (g, r) = (g', r')"
    and "exec (set_cmds service ids) r = ((sts, err), r1)"
  shows "out g' =
     (if \<exists>e. err = Some e \<and> \<not> is_nil_reply e then out g
      else out g @
        (case first_some (soketMap (table g)) (map fst (filter (\<lambda>x. snd x \<noteq> None) (zip ids sts))) of
           Some (GwsConn s) \<Rightarrow> [NetConnClose s]
         | _ \<Rightarrow> []))"
proof -
  have gws: "\<And>k v. soketMap (table g) k = Some v \<Longrightarrow> \<exists>s. v = GwsConn s"
    using gw_invD [OF assms(1)] by blast
  let ?failed = "map fst (filter (\<lambda>x. snd x \<noteq> None) (zip ids sts))"
  have "g' = (if \<exists>e. err = Some e \<and> \<not> is_nil_reply e then g else close_failed ?failed g)"
    using assms(2,3)
    by (cases err) (auto simp: conn_Iotsync_def setIfExistsBatchResult_def split_status_eq split: if_splits)
  then show ?thesis
    by (simp add: close_failed_gws [OF gws] split: option.split conn_val.split)
qed


text \<open>A pipeline in which every command had its reply: those that failed are those of the missing keys.\<close>

lemma failed_are_missing:
  assumes "length sts = length ids"
    and "\<And>j. j < length ids \<Longrightarrow> sts ! j = None \<Longrightarrow> alive (ids ! j)"
    and "\<And>j e. j < length ids \<Longrightarrow> sts ! j = Some e \<Longrightarrow> \<not> alive (ids ! j)"
  shows "map fst (filter (\<lambda>x. snd x \<noteq> None) (zip ids sts)) = filter (\<lambda>i. \<not> alive i) ids"
  using assms
proof (induction ids sts rule: list_induct2')
  case (4 i ids st sts)
  have "map fst (filter (\<lambda>x. snd x \<noteq> None) (zip ids sts)) = filter (\<lambda>i. \<not> alive i) ids"
    using "4.prems"(1) "4.prems"(2,3) [of "Suc _"] by (intro "4.IH") auto
  moreover have "(st \<noteq> None) = (\<not> alive i)" using "4.prems"(2,3) [of 0] by (cases st) auto
  ultimately show ?case by simp
qed simp_all

lemma filter_one: "distinct xs \<Longrightarrow> i \<in> set xs \<Longrightarrow> (\<And>j. j \<in> set xs \<Longrightarrow> P j = (j = i)) \<Longrightarrow> filter P xs = [i]"
  by (induction xs) (auto simp: filter_empty_conv)

text \<open>
  C40. The close of a device's old socket drops its new connection: a device that reconnected to this
  node \<open>p\<close> while another node \<open>gA\<close> still held its old socket loses its key when that socket closes - \<open>OnClose\<close>
  deletes it whatever node it names -, and then this node's next job, every command having its reply,
  closes the device's live socket, and that one only.
\<close>

theorem foreign_close_drops_device:
  assumes "redis_ttl_laws rd b" and "presence_reachable rd b html service p"
    and "soketMap (table (ps_gw p)) i = Some (GwsConn s)"
    and "conn_id gA sA = Some (SStr i)"
    and "r0 = redis_effects rd (new_calls gA (OnClose sA err gA)) (ps_redis p)"
    and "visits ids (soketMap (table (ps_gw p)))"
    and "rd_exec rd (set_cmds service ids) r0 = ((sts, err'), r1)"
    and "\<forall>st\<in>set (err' # sts). st = None \<or> is_nil_reply (the st)"
    and "conn_Iotsync (rd_exec rd) ids service (ps_gw p, r0) = (g', r')"
  shows "out g' = out (ps_gw p) @ [NetConnClose s]"
proof -
  have inv: "presence_inv rd p" by (rule presence_reachable_inv [OF assms(1,2)])
  have g: "gw_inv (ps_gw p)" using inv by (simp add: presence_inv_def)
  have laws: "exec_law rd" "key_laws rd" using assms(1) by (simp_all add: redis_ttl_laws_def)
  have ids: "distinct ids" "set ids = dom (soketMap (table (ps_gw p)))" using assms(6) by (simp_all add: visits_def)
  note J = job_redis [OF laws(1) ids(1) assms(7)]
  have "r0 = rd_del rd (GetCacheConn i) (ps_redis p)"
    using assms(4,5) by (simp add: OnClose_def new_calls_def emit_def redis_effects_def)
  then have ttl: "rd_ttl rd r0 (GetCacheConn j) = (if j = i then 0 else rd_ttl rd (ps_redis p) (GetCacheConn j))" for j
    by (simp add: laws_del [OF laws(2)])
  have alive: "0 < rd_ttl rd (ps_redis p) (GetCacheConn j)" if "j \<in> set ids" for j
    using presence_alive [OF inv] that ids(2) by auto
  have nil: "is_nil_reply e" if "j < length ids" "sts ! j = Some e" for j e
    using assms(8) that J(2) by (metis nth_mem list.set_intros(2) option.discI option.sel)
  have "map fst (filter (\<lambda>x. snd x \<noteq> None) (zip ids sts)) = filter (\<lambda>j. \<not> 0 < rd_ttl rd r0 (GetCacheConn j)) ids"
    by (rule failed_are_missing) (use J(2) J(6,7) nil in \<open>auto\<close>)
  also have "\<dots> = [i]"
    by (rule filter_one [OF ids(1)]) (use assms(3) ids(2) ttl alive in \<open>auto\<close>)
  finally have f: "map fst (filter (\<lambda>x. snd x \<noteq> None) (zip ids sts)) = [i]" .
  have "\<not> (\<exists>e. err' = Some e \<and> \<not> is_nil_reply e)" using assms(8) by auto
  then show ?thesis using conn_Iotsync_out [OF g assms(9,7)] f assms(3) by simp
qed

text \<open>
  The job of the node a device left takes its presence back: after a login on another node \<open>ServiceName req\<close> has set
  the device's key to that node, a successful run of the job on a node whose table still has the device
  sets the key to its own name.
\<close>

theorem renewal_steals_presence:
  assumes "redis_ttl_laws rd b" and "login_Iotdevice b req (ps_redis p) = (Inr resp, r1)"
    and "soketMap (table (ps_gw p)) (Sn req) = Some v" and "gw_inv (ps_gw p)"
    and "visits ids (soketMap (table (ps_gw p)))"
    and "rd_exec rd (set_cmds service ids) r1 = ((sts, None), r2)"
    and "conn_Iotsync (rd_exec rd) ids service (ps_gw p, r1) = (g', r')"
  shows "rd_val rd r1 (GetCacheConn (Sn req)) = ServiceName req \<and>
     rd_val rd r' (GetCacheConn (Sn req)) = service"
proof -
  have laws: "exec_law rd" "login_laws rd b" using assms(1) by (simp_all add: redis_ttl_laws_def)
  have ids: "distinct ids" "set ids = dom (soketMap (table (ps_gw p)))" using assms(5) by (simp_all add: visits_def)
  have "r' = r2" using conn_Iotsync_table [OF assms(4,7,6)] by simp
  then show ?thesis
    using login_redis [OF laws(2) assms(2)] job_redis(4) [OF laws(1) ids(1) assms(6), of "Sn req"] assms(3) ids(2)
    by (simp add: domI)
qed

text \<open>
  A device whose serial number JSON escapes is dropped: it logs in to a node with an empty table, and
  the answer is read back under another id than the one whose key the service has set; unless that id's key is
  there by chance, the first run of the job that gets its replies closes the device's socket.
\<close>

theorem escaped_device_dropped:
  assumes "redis_ttl_laws rd b" and "login_Iotdevice b req r = (Inr resp, r1)"
    and "wire_id html (Sn req) \<noteq> []" and "wire_id html (Sn req) \<noteq> Sn req"
    and "rd_ttl rd r (GetCacheConn (wire_id html (Sn req))) = 0"
    and "g = fst (OnMessage (\<lambda>_ _ w. (Ret (response_json html resp, True, None), w)) s op msg (gw_start, ()))"
    and "rd_exec rd (set_cmds service [wire_id html (Sn req)]) r1 = ((sts, err), r2)"
    and "\<forall>st\<in>set (err # sts). st = None \<or> is_nil_reply (the st)"
    and "conn_Iotsync (rd_exec rd) [wire_id html (Sn req)] service (g, r1) = (g', r')"
  shows "visits [wire_id html (Sn req)] (soketMap (table g)) \<and> out g' = out g @ [NetConnClose s] \<and>
     rd_ttl rd r1 (GetCacheConn (Sn req)) = ConnTime"
proof -
  have laws: "exec_law rd" "login_laws rd b" using assms(1) by (simp_all add: redis_ttl_laws_def)
  let ?i = "wire_id html (Sn req)"
  have L: "resp = empty_response\<lparr>rs_connId := Sn req\<rparr>" "rd_ttl rd r1 (GetCacheConn (Sn req)) = ConnTime"
    using login_redis [OF laws(2) assms(2)] by simp_all
  have x: "extractSn (response_json html resp) = ?i" using L(1) extractSn_response by simp
  have g: "soketMap (table g) = [?i \<mapsto> GwsConn s]"
    using assms(3,6) x by (simp add: OnMessage_def OnMessage_after_def OnMessage_new_def gw_start_def Let_def)
  have inv: "gw_inv g"
    unfolding assms(6) by (rule gw_inv_OnMessage) (simp add: gw_inv_def gw_start_def)
  have "GetCacheConn ?i \<noteq> GetCacheConn (Sn req)" using assms(4) by simp
  then have dead: "rd_ttl rd r1 (GetCacheConn ?i) = 0"
    using login_other_key [OF laws(2) assms(2)] assms(5) by simp
  note J = job_redis [OF laws(1) _ assms(7)]
  have len: "length sts = 1" using J(2) by simp
  then obtain st where st: "sts = [st]" by (cases sts) auto
  have "st \<noteq> None" using J(6) [of 0] st dead by auto
  then have "map fst (filter (\<lambda>x. snd x \<noteq> None) (zip [?i] sts)) = [?i]" using st by simp
  moreover have "\<not> (\<exists>e. err = Some e \<and> \<not> is_nil_reply e)" using assms(8) by auto
  ultimately have "out g' = out g @ [NetConnClose s]"
    using conn_Iotsync_out [OF inv assms(9,7)] g by simp
  then show ?thesis using L(2) g by (simp add: visits_def)
qed

section \<open>A Redis in memory\<close>

text \<open>Keys with their values and the rest of their times to live, less one.\<close>

type_synonym mem_redis = "string \<rightharpoonup> string \<times> nat"

definition mem_set :: "redis_cmd \<Rightarrow> mem_redis \<Rightarrow> mem_redis" where
  "mem_set c r = (case c of (k, v, t) \<Rightarrow> if r k = None then r else r(k \<mapsto> (v, nat (t - 1))))"

definition mem_exec :: "redis_cmd list \<Rightarrow> mem_redis \<Rightarrow> (go_error option list \<times> go_error option) \<times> mem_redis" where
  "mem_exec cmds r =
     (let sts = map (\<lambda>c. if r (fst c) = None then Some (LibError NilReply ''redis: nil'') else None) cmds in
      ((sts, if list_all (\<lambda>st. st = None) sts then None else Some (LibError NilReply ''redis: nil'')),
       fold mem_set cmds r))"

definition mem_ttl_redis :: "mem_redis redis" where
  "mem_ttl_redis = \<lparr>
     rd_exec = mem_exec,
     rd_del = (\<lambda>k r. r(k := None)),
     rd_elapse = (\<lambda>d r k. case r k of None \<Rightarrow> None
       | Some (v, n) \<Rightarrow> if int n + 1 \<le> d then None else Some (v, nat (int n - d))),
     rd_ttl = (\<lambda>r k. case r k of None \<Rightarrow> 0 | Some (v, n) \<Rightarrow> int n + 1),
     rd_val = (\<lambda>r k. case r k of None \<Rightarrow> [] | Some (v, n) \<Rightarrow> v)\<rparr>"

text \<open>Every device is known.\<close>

definition mem_ttl_backend :: "mem_redis backend" where
  "mem_ttl_backend = \<lparr>
     redis_get = (\<lambda>k r. (case r k of None \<Rightarrow> Inl (LibError NilReply ''redis: nil'') | Some (v, _) \<Rightarrow> Inr v, r)),
     redis_set = (\<lambda>k v t r. (None, r(k \<mapsto> (v, nat (t - 1))))),
     query_row = (\<lambda>q args r. (Inr \<lparr>dev_id = 1, dev_sn = []\<rparr>, r)),
     exec_sql = (\<lambda>q args r. (None, r))\<rparr>"

lemma mem_set_eq: "mem_set (k, v, t) r = (if r k = None then r else r(k \<mapsto> (v, nat (t - 1))))"
  by (simp add: mem_set_def)

lemma mem_set_key:
  "fold mem_set cmds r k = r k \<or> (\<exists>v t. (k, v, t) \<in> set cmds \<and> fold mem_set cmds r k = Some (v, nat (t - 1)))"
proof (induction cmds arbitrary: r)
  case (Cons c cmds)
  show ?case
    using Cons.IH [of "mem_set c r"] by (cases c) (auto simp: mem_set_eq split: if_splits)
qed simp

lemma mem_set_other: "k \<notin> fst ` set cmds \<Longrightarrow> fold mem_set cmds r k = r k"
  using mem_set_key [of cmds r k] by force

lemma mem_set_named:
  assumes "distinct (map fst cmds)" and "(k, v, t) \<in> set cmds" and "r k \<noteq> None"
  shows "fold mem_set cmds r k = Some (v, nat (t - 1))"
  using assms
proof (induction cmds arbitrary: r)
  case (Cons c cmds)
  show ?case
  proof (cases "c = (k, v, t)")
    case True
    have "k \<notin> fst ` set cmds" using Cons.prems(1) True by simp
    then have "fold mem_set cmds (mem_set c r) k = mem_set c r k" by (rule mem_set_other)
    then show ?thesis using True Cons.prems(3) by (auto simp: mem_set_eq)
  next
    case False
    then have "(k, v, t) \<in> set cmds" using Cons.prems(2) by simp
    moreover have "mem_set c r k \<noteq> None" using Cons.prems(3) by (cases c) (simp add: mem_set_eq)
    ultimately show ?thesis using Cons.IH Cons.prems(1) by simp
  qed
qed simp

lemma mem_exec_parts:
  assumes "mem_exec cmds r = ((sts, err), r')"
  shows "sts = map (\<lambda>c. if r (fst c) = None then Some (LibError NilReply ''redis: nil'') else None) cmds"
    and "err = (if list_all (\<lambda>st. st = None) sts then None else Some (LibError NilReply ''redis: nil''))"
    and "r' = fold mem_set cmds r"
  using assms by (auto simp: mem_exec_def Let_def)

lemma mem_ttl_zero: "rd_ttl mem_ttl_redis r k = 0 \<longleftrightarrow> r k = None" "0 < rd_ttl mem_ttl_redis r k \<longleftrightarrow> r k \<noteq> None"
  by (auto simp: mem_ttl_redis_def split: option.split)

lemma mem_exec_law: "exec_law mem_ttl_redis"
  unfolding exec_law_def
proof (intro allI impI)
  fix cmds r sts err r'
  assume x: "rd_exec mem_ttl_redis cmds r = ((sts, err), r')" and pos: "\<forall>c\<in>set cmds. 0 < snd (snd c)"
  have "mem_exec cmds r = ((sts, err), r')" using x by (simp add: mem_ttl_redis_def)
  note P = mem_exec_parts [OF this]
  have kept: "kept_or_set mem_ttl_redis cmds r r'"
    unfolding kept_or_set_def P(3)
  proof
    fix k
    show "(rd_ttl mem_ttl_redis (fold mem_set cmds r) k = rd_ttl mem_ttl_redis r k \<and>
        rd_val mem_ttl_redis (fold mem_set cmds r) k = rd_val mem_ttl_redis r k) \<or>
       (\<exists>v t. (k, v, t) \<in> set cmds \<and> rd_ttl mem_ttl_redis (fold mem_set cmds r) k = t \<and>
          rd_val mem_ttl_redis (fold mem_set cmds r) k = v)"
      using mem_set_key [of cmds r k] pos by (force simp: mem_ttl_redis_def)
  qed
  have named: "rd_ttl mem_ttl_redis r' k = t \<and> rd_val mem_ttl_redis r' k = v"
    if "distinct (map fst cmds)" "(k, v, t) \<in> set cmds" "r k \<noteq> None" for k v t
  proof -
    have "r' k = Some (v, nat (t - 1))" using mem_set_named [OF that(1,2), of r] that(3) P(3) by simp
    moreover have "0 < t" using pos that(2) by fastforce
    ultimately show ?thesis by (simp add: mem_ttl_redis_def)
  qed
  have ok: "r (fst c) \<noteq> None" if "err = None" "c \<in> set cmds" for c
  proof -
    have "list_all (\<lambda>st. st = None) sts" using P(2) that(1) by (simp split: if_split_asm)
    then have "(if r (fst c) = None then Some (LibError NilReply ''redis: nil'') else None) = None"
      using that(2) unfolding P(1) list_all_iff by (simp only: set_map ball_simps)
    then show ?thesis by (simp split: if_split_asm)
  qed
  have done_all: "err = None \<longrightarrow> sts = map (\<lambda>_. None) cmds \<and>
      (distinct (map fst cmds) \<longrightarrow>
        (\<forall>k v t. (k, v, t) \<in> set cmds \<longrightarrow> rd_ttl mem_ttl_redis r' k = t \<and> rd_val mem_ttl_redis r' k = v))"
  proof (intro impI conjI allI)
    assume e: "err = None"
    show "sts = map (\<lambda>_. None) cmds" using P(1) ok [OF e] by simp
    fix k v t
    assume "distinct (map fst cmds)" and "(k, v, t) \<in> set cmds"
    moreover have "r k \<noteq> None" using ok [OF e \<open>(k, v, t) \<in> set cmds\<close>] by simp
    ultimately show "rd_ttl mem_ttl_redis r' k = t" and "rd_val mem_ttl_redis r' k = v"
      using named by blast+
  qed
  have nil: "\<forall>e. err = Some e \<longrightarrow> is_nil_reply e \<longrightarrow> (\<exists>j<length cmds. \<exists>e'. sts ! j = Some e' \<and> is_nil_reply e')"
  proof (intro allI impI)
    fix e
    assume "err = Some e"
    then have "\<not> list_all (\<lambda>st. st = None) sts" using P(2) by (simp split: if_split_asm)
    then obtain j where j: "j < length sts" "sts ! j \<noteq> None" by (auto simp: list_all_length)
    then have "sts ! j = Some (LibError NilReply ''redis: nil'')" using P(1) by (simp split: if_split_asm)
    then show "\<exists>j<length cmds. \<exists>e'. sts ! j = Some e' \<and> is_nil_reply e'" using j(1) P(1) by auto
  qed
  have each: "\<forall>j<length cmds. case sts ! j of
      None \<Rightarrow> 0 < rd_ttl mem_ttl_redis r (fst (cmds ! j))
    | Some e \<Rightarrow> is_nil_reply e \<longrightarrow> rd_ttl mem_ttl_redis r (fst (cmds ! j)) = 0"
    using P(1) by (simp add: mem_ttl_zero)
  show "length sts = length cmds \<and> kept_or_set mem_ttl_redis cmds r r' \<and>
     (err = None \<longrightarrow> sts = map (\<lambda>_. None) cmds \<and>
       (distinct (map fst cmds) \<longrightarrow>
         (\<forall>k v t. (k, v, t) \<in> set cmds \<longrightarrow> rd_ttl mem_ttl_redis r' k = t \<and> rd_val mem_ttl_redis r' k = v))) \<and>
     (\<forall>e. err = Some e \<longrightarrow> is_nil_reply e \<longrightarrow> (\<exists>j<length cmds. \<exists>e'. sts ! j = Some e' \<and> is_nil_reply e')) \<and>
     (\<forall>j<length cmds. case sts ! j of
         None \<Rightarrow> 0 < rd_ttl mem_ttl_redis r (fst (cmds ! j))
       | Some e \<Rightarrow> is_nil_reply e \<longrightarrow> rd_ttl mem_ttl_redis r (fst (cmds ! j)) = 0)"
    using kept done_all nil each P(1) by simp
qed

lemma mem_ttl_laws: "redis_ttl_laws mem_ttl_redis mem_ttl_backend"
proof -
  have "key_laws mem_ttl_redis"
    by (auto simp: key_laws_def mem_ttl_redis_def split: option.splits)
  moreover have "login_laws mem_ttl_redis mem_ttl_backend"
    by (auto simp: login_laws_def kept_or_set_def mem_ttl_backend_def mem_ttl_redis_def split: option.splits)
  ultimately show ?thesis by (simp add: redis_ttl_laws_def mem_exec_law)
qed

section \<open>One device on one node\<close>

definition device_req :: "string \<Rightarrow> string \<Rightarrow> DeviceConnectReq" where
  "device_req sn service = empty_req\<lparr>Cmd := ''login'', Sn := sn, ServiceName := service\<rparr>"

definition login_answer :: "bool \<Rightarrow> string \<Rightarrow> unit fn" where
  "login_answer html sn = (\<lambda>_ _ w. (Ret (response_json html (empty_response\<lparr>rs_connId := sn\<rparr>), True, None), w))"

lemma mem_login:
  "sn \<noteq> [] \<Longrightarrow> login_Iotdevice mem_ttl_backend (device_req sn service) r =
     (Inr (empty_response\<lparr>rs_connId := sn\<rparr>), r(GetCacheConn sn \<mapsto> (service, nat (ConnTime - 1))))"
  by (simp add: login_Iotdevice_def device_req_def empty_req_def mem_ttl_backend_def GetOneBySn_def Let_def
      split: option.split)

definition one_device :: "mem_redis presence" where
  "one_device = \<lparr>ps_gw = fst (OnMessage (login_answer True ''d1'') 1 OpcodeText ''m'' (gw_start, ())),
     ps_redis = [GetCacheConn ''d1'' \<mapsto> (''ws'', nat (ConnTime - 1))], ps_since = 0\<rparr>"

lemma wire_d1: "wire_id html ''d1'' = ''d1''"
  by (rule wire_id_plain) (simp add: plain_char_def byte_def quote_def backslash_def)

lemma one_device_reachable: "presence_reachable mem_ttl_redis mem_ttl_backend True ''ws'' one_device"
proof -
  have "presence_step mem_ttl_redis mem_ttl_backend True ''ws''
      \<lparr>ps_gw = gw_start, ps_redis = Map.empty, ps_since = 0\<rparr> one_device"
    using presence_step.device_logs_in [where rd = mem_ttl_redis and service = "''ws''" and s = 1
        and op = OpcodeText and msg = "''m''" and p = "\<lparr>ps_gw = gw_start, ps_redis = Map.empty, ps_since = 0\<rparr>",
        unfolded presence.simps, OF mem_login [of "''d1''" "''ws''" Map.empty], of True] wire_d1
    by (simp add: one_device_def login_answer_def gw_start_def)
  then show ?thesis by (rule node_goes_on [OF node_starts])
qed

lemma one_device_table: "soketMap (table (ps_gw one_device)) = [''d1'' \<mapsto> GwsConn 1]"
  "conn_id (ps_gw one_device) 1 = Some (SStr ''d1'')" "gw_inv (ps_gw one_device)"
proof -
  have x: "extractSn (response_json True (empty_response\<lparr>rs_connId := ''d1''\<rparr>)) = ''d1''"
    using extractSn_response wire_d1 by simp
  show "soketMap (table (ps_gw one_device)) = [''d1'' \<mapsto> GwsConn 1]"
    "conn_id (ps_gw one_device) 1 = Some (SStr ''d1'')"
    using x by (simp_all add: one_device_def login_answer_def OnMessage_def OnMessage_after_def OnMessage_new_def
        gw_start_def Let_def)
  show "gw_inv (ps_gw one_device)"
    using presence_reachable_inv [OF mem_ttl_laws one_device_reachable] by (simp add: presence_inv_def)
qed

lemma one_device_visits: "visits [''d1''] (soketMap (table (ps_gw one_device)))"
  by (simp add: visits_def one_device_table)


theorem foreign_close_drops_device_witness:
  "\<exists>g' r'. conn_Iotsync mem_exec [''d1''] ''ws'' (ps_gw one_device, Map.empty) = (g', r') \<and>
     out g' = out (ps_gw one_device) @ [NetConnClose 1]"
proof -
  let ?ps = "ps_gw one_device"
  have d: "Map.empty = redis_effects mem_ttl_redis (new_calls ?ps (OnClose 1 None ?ps)) (ps_redis one_device)"
  proof -
    have "new_calls ?ps (OnClose 1 None ?ps) = [RedisDel (GetCacheConn ''d1'')]"
      using one_device_table(2) by (simp add: OnClose_def new_calls_def emit_def)
    moreover have "ps_redis one_device = [GetCacheConn ''d1'' \<mapsto> (''ws'', nat (ConnTime - 1))]"
      by (simp add: one_device_def)
    ultimately show ?thesis by (simp add: redis_effects_def mem_ttl_redis_def)
  qed
  have x: "rd_exec mem_ttl_redis (set_cmds ''ws'' [''d1'']) Map.empty =
      (([Some (LibError NilReply ''redis: nil'')], Some (LibError NilReply ''redis: nil'')), Map.empty)"
    by (simp add: mem_ttl_redis_def mem_exec_def set_cmds_def mem_set_def)
  obtain g' r' where c: "conn_Iotsync (rd_exec mem_ttl_redis) [''d1''] ''ws'' (?ps, Map.empty) = (g', r')"
    by (metis surj_pair)
  have "soketMap (table ?ps) ''d1'' = Some (GwsConn 1)" by (simp add: one_device_table)
  from foreign_close_drops_device [OF mem_ttl_laws one_device_reachable this one_device_table(2) d
      one_device_visits x _ c]
  have "out g' = out ?ps @ [NetConnClose 1]" by simp
  then show ?thesis using c by (simp add: mem_ttl_redis_def)
qed

theorem renewal_steals_presence_witness:
  "\<exists>g' r'. conn_Iotsync mem_exec [''d1''] ''ws''
       (ps_gw one_device, (ps_redis one_device)(GetCacheConn ''d1'' \<mapsto> (''other'', nat (ConnTime - 1)))) = (g', r') \<and>
     rd_val mem_ttl_redis r' (GetCacheConn ''d1'') = ''ws''"
proof -
  let ?r = "(ps_redis one_device)(GetCacheConn ''d1'' \<mapsto> (''other'', nat (ConnTime - 1)))"
  have l: "login_Iotdevice mem_ttl_backend (device_req ''d1'' ''other'') (ps_redis one_device) =
      (Inr (empty_response\<lparr>rs_connId := ''d1''\<rparr>), ?r)"
    by (rule mem_login) simp
  have sn: "Sn (device_req ''d1'' ''other'') = ''d1''" by (simp add: device_req_def)
  have t: "soketMap (table (ps_gw one_device)) (Sn (device_req ''d1'' ''other'')) = Some (GwsConn 1)"
    by (simp add: one_device_table sn)
  obtain r2 where x: "rd_exec mem_ttl_redis (set_cmds ''ws'' [''d1'']) ?r = (([None], None), r2)"
    by (simp add: mem_ttl_redis_def mem_exec_def set_cmds_def)
  obtain g' r' where c: "conn_Iotsync (rd_exec mem_ttl_redis) [''d1''] ''ws'' (ps_gw one_device, ?r) = (g', r')"
    by (metis surj_pair)
  from renewal_steals_presence [OF mem_ttl_laws l t one_device_table(3) one_device_visits x c] c show ?thesis
    by (simp add: sn mem_ttl_redis_def)
qed

lemma wire_angle: "wire_id True ''a<b'' = ''a'' @ backslash # ''u003cb''"
  by (simp add: char_of_def bit_0 wire_id_def json_chars.simps(2) escape_byte_def byte_def quote_def backslash_def
      hex_digit_def)

text \<open>The device "a<b": registered as another id, and closed.\<close>

theorem escaped_device_dropped_witness:
  "\<exists>g' r'. conn_Iotsync mem_exec [wire_id True ''a<b''] ''ws''
       (fst (OnMessage (login_answer True ''a<b'') 1 OpcodeText ''m'' (gw_start, ())),
        [GetCacheConn ''a<b'' \<mapsto> (''ws'', nat (ConnTime - 1))]) = (g', r') \<and>
     NetConnClose 1 \<in> set (out g')"
proof -
  let ?i = "wire_id True ''a<b''"
  let ?r1 = "[GetCacheConn ''a<b'' \<mapsto> (''ws'', nat (ConnTime - 1))]"
  let ?g = "fst (OnMessage (\<lambda>_ _ w. (Ret (response_json True (empty_response\<lparr>rs_connId := ''a<b''\<rparr>), True, None), w))
     1 OpcodeText ''m'' (gw_start, ()))"
  have l: "login_Iotdevice mem_ttl_backend (device_req ''a<b'' ''ws'') Map.empty =
      (Inr (empty_response\<lparr>rs_connId := ''a<b''\<rparr>), ?r1)"
    by (rule mem_login) simp
  have sn: "Sn (device_req ''a<b'' ''ws'') = ''a<b''" by (simp add: device_req_def)
  have n: "?i \<noteq> []" "?i \<noteq> ''a<b''" by (simp_all add: wire_angle backslash_def)
  have z: "rd_ttl mem_ttl_redis Map.empty (GetCacheConn ?i) = 0" by (simp add: mem_ttl_redis_def)
  have "?r1 (GetCacheConn ?i) = None" using n(2) by simp
  then have x: "rd_exec mem_ttl_redis (set_cmds ''ws'' [?i]) ?r1 =
      (([Some (LibError NilReply ''redis: nil'')], Some (LibError NilReply ''redis: nil'')), ?r1)"
    by (simp add: mem_ttl_redis_def mem_exec_def set_cmds_def mem_set_def)
  obtain g' r' where c: "conn_Iotsync (rd_exec mem_ttl_redis) [?i] ''ws'' (?g, ?r1) = (g', r')"
    by (metis surj_pair)
  from escaped_device_dropped [OF mem_ttl_laws l _ _ _ refl, unfolded sn, OF n z x _ c]
  have "out g' = out ?g @ [NetConnClose 1]" by simp
  then show ?thesis using c by (auto simp: mem_ttl_redis_def login_answer_def)
qed

end
