(* ===== verification/Resolver.thy ===== *)
theory Resolver
  imports Registry
begin

text \<open>
  The life of the \<open>instances\<close> resolver (\<open>src/pkg/devicecli/grpc/instances/builder.go\<close>, \<open>resolver.go\<close>): \<open>Build\<close> with
  its first hand-over, the ticker goroutine, the goroutine of \<open>populateEndpoints\<close>, and \<open>Close\<close>. The pipe
  between them is unbuffered: a hand-over is one step of both sides.

  What \<open>b.fn()\<close> gives at a call is any list of names; \<open>order\<close> is the visiting order of the set of names.
\<close>

section \<open>The goroutines\<close>

text \<open>\<open>Build\<close>: before the first hand-over, waiting in it, returned.\<close>

datatype build_pc = BuildAsks | BuildSends "string list" | BuildReturned

text \<open>The ticker goroutine: not started, in its outer select, in the inner one with a list, returned.\<close>

datatype ticker_pc = TickerUnborn | TickerWaits | TickerSends "string list" | TickerReturned

text \<open>\<open>populateEndpoints\<close>: in its select, with a received list, returned.\<close>

datatype populate_pc = PopulateWaits | PopulateUpdates "string list" | PopulateReturned

text \<open>\<open>Close\<close>: not called, between its two statements, done; a second call panics at the closed channel.\<close>

datatype close_pc = CloseUncalled | CloseHalf | CloseDone

record resolver =
  rs_build :: build_pc
  rs_ticker :: ticker_pc
  rs_populate :: populate_pc
  rs_close :: close_pc
  rs_panicked :: bool
  rs_updates :: "address list list"

definition resolver_start :: resolver where
  "resolver_start = \<lparr>rs_build = BuildAsks, rs_ticker = TickerUnborn, rs_populate = PopulateWaits,
     rs_close = CloseUncalled, rs_panicked = False, rs_updates = []\<rparr>"

text \<open>The channel \<open>closeCh\<close> is closed by the first statement of \<open>Close\<close>, the context by the second.\<close>

definition closeCh_closed :: "resolver \<Rightarrow> bool" where
  "closeCh_closed r \<longleftrightarrow> rs_close r \<noteq> CloseUncalled"

definition resolver_done :: "resolver \<Rightarrow> bool" where
  "resolver_done r \<longleftrightarrow> rs_close r = CloseDone"

text \<open>The calls from outside: the ticker fires, or the resolver is closed.\<close>

inductive resolver_call :: "resolver \<Rightarrow> resolver \<Rightarrow> bool" where
  tick: "rs_ticker r = TickerWaits \<Longrightarrow> resolver_call r (r\<lparr>rs_ticker := TickerSends addrs\<rparr>)"
| close_channel: "rs_build r = BuildReturned \<Longrightarrow> rs_close r = CloseUncalled \<Longrightarrow>
     resolver_call r (r\<lparr>rs_close := CloseHalf\<rparr>)"
| close_again: "rs_build r = BuildReturned \<Longrightarrow> closeCh_closed r \<Longrightarrow> resolver_call r (r\<lparr>rs_panicked := True\<rparr>)"

text \<open>What the goroutines do by themselves.\<close>

inductive resolver_step :: "((string \<rightharpoonup> unit) \<Rightarrow> string list) \<Rightarrow> resolver \<Rightarrow> resolver \<Rightarrow> bool" for order where
  build_asks: "rs_build r = BuildAsks \<Longrightarrow> resolver_step order r (r\<lparr>rs_build := BuildSends addrs\<rparr>)"
| build_hands: "rs_build r = BuildSends addrs \<Longrightarrow> rs_populate r = PopulateWaits \<Longrightarrow>
     resolver_step order r
       (r\<lparr>rs_build := BuildReturned, rs_populate := PopulateUpdates addrs, rs_ticker := TickerWaits\<rparr>)"
| ticker_hands: "rs_ticker r = TickerSends addrs \<Longrightarrow> rs_populate r = PopulateWaits \<Longrightarrow>
     resolver_step order r (r\<lparr>rs_ticker := TickerWaits, rs_populate := PopulateUpdates addrs\<rparr>)"
| ticker_gives_up: "rs_ticker r = TickerSends addrs \<Longrightarrow> resolver_done r \<Longrightarrow>
     resolver_step order r (r\<lparr>rs_ticker := TickerReturned\<rparr>)"
| ticker_stops: "rs_ticker r = TickerWaits \<Longrightarrow> closeCh_closed r \<Longrightarrow>
     resolver_step order r (r\<lparr>rs_ticker := TickerReturned\<rparr>)"
| populate_updates: "rs_populate r = PopulateUpdates addrs \<Longrightarrow>
     resolver_step order r
       (r\<lparr>rs_populate := PopulateWaits, rs_updates := rs_updates r @ [endpoint_state order addrs]\<rparr>)"
| populate_stops: "rs_populate r = PopulateWaits \<Longrightarrow> resolver_done r \<Longrightarrow>
     resolver_step order r (r\<lparr>rs_populate := PopulateReturned\<rparr>)"
| close_cancels: "rs_close r = CloseHalf \<Longrightarrow> resolver_step order r (r\<lparr>rs_close := CloseDone\<rparr>)"

inductive resolver_reachable :: "((string \<rightharpoonup> unit) \<Rightarrow> string list) \<Rightarrow> resolver \<Rightarrow> bool" for order where
  resolver_built: "resolver_reachable order resolver_start"
| resolver_steps: "resolver_reachable order r \<Longrightarrow> resolver_step order r r' \<Longrightarrow> resolver_reachable order r'"
| resolver_called: "resolver_reachable order r \<Longrightarrow> resolver_call r r' \<Longrightarrow> resolver_reachable order r'"

inductive_simps resolver_step_iff: "resolver_step order r r'"
inductive_simps resolver_call_iff: "resolver_call r r'"

section \<open>Its invariant\<close>

text \<open>
  The ticker is born when \<open>Build\<close> returns; nothing ends before the resolver is closed; every hand-over
  that \<open>populateEndpoints\<close> has received and finished is an update.
\<close>

definition resolver_inv :: "((string \<rightharpoonup> unit) \<Rightarrow> string list) \<Rightarrow> resolver \<Rightarrow> bool" where
  "resolver_inv order r \<longleftrightarrow>
     (rs_ticker r = TickerUnborn \<longleftrightarrow> rs_build r \<noteq> BuildReturned) \<and>
     (rs_build r \<noteq> BuildReturned \<longrightarrow> rs_close r = CloseUncalled \<and> rs_populate r = PopulateWaits \<and> rs_updates r = []) \<and>
     (rs_ticker r = TickerReturned \<longrightarrow> closeCh_closed r) \<and>
     (rs_populate r = PopulateReturned \<longrightarrow> resolver_done r) \<and>
     (rs_build r = BuildReturned \<longrightarrow> rs_updates r \<noteq> [] \<or> (\<exists>addrs. rs_populate r = PopulateUpdates addrs)) \<and>
     (\<forall>u\<in>set (rs_updates r). \<exists>addrs. u = endpoint_state order addrs)"

lemma resolver_step_inv [inv_intros]: "resolver_step order r r' \<Longrightarrow> resolver_inv order r \<Longrightarrow> resolver_inv order r'"
  by (cases rule: resolver_step.cases, assumption)
    (auto simp: resolver_inv_def resolver_done_def closeCh_closed_def)

lemma resolver_call_inv [inv_intros]: "resolver_call r r' \<Longrightarrow> resolver_inv order r \<Longrightarrow> resolver_inv order r'"
  by (cases rule: resolver_call.cases, assumption)
    (auto simp: resolver_inv_def resolver_done_def closeCh_closed_def)

lemma resolver_reachable_inv: "resolver_reachable order r \<Longrightarrow> resolver_inv order r"
proof (induction rule: resolver_reachable.induct)
  case resolver_built
  show ?case by (simp add: resolver_inv_def resolver_start_def closeCh_closed_def resolver_done_def)
qed (blast intro: inv_intros)+

section \<open>Nothing is left behind\<close>

text \<open>Each step of the goroutines uses up some of this.\<close>

definition resolver_work :: "resolver \<Rightarrow> nat" where
  "resolver_work r =
     (case rs_build r of BuildAsks \<Rightarrow> 6 | BuildSends _ \<Rightarrow> 5 | BuildReturned \<Rightarrow> 0) +
     (case rs_ticker r of TickerUnborn \<Rightarrow> 0 | TickerWaits \<Rightarrow> 1 | TickerSends _ \<Rightarrow> 3 | TickerReturned \<Rightarrow> 0) +
     (case rs_populate r of PopulateWaits \<Rightarrow> 1 | PopulateUpdates _ \<Rightarrow> 2 | PopulateReturned \<Rightarrow> 0) +
     (case rs_close r of CloseHalf \<Rightarrow> 1 | _ \<Rightarrow> 0)"

lemma resolver_step_work: "resolver_step order r r' \<Longrightarrow> resolver_work r' < resolver_work r"
  by (cases rule: resolver_step.cases, assumption) (auto simp: resolver_work_def)

lemma resolver_progress:
  assumes "resolver_inv order r" and "closeCh_closed r" and "\<And>r'. \<not> resolver_step order r r'"
  shows "rs_ticker r = TickerReturned \<and> rs_populate r = PopulateReturned"
proof -
  have b: "rs_build r = BuildReturned" "rs_ticker r \<noteq> TickerUnborn"
    using assms(1,2) by (auto simp: resolver_inv_def closeCh_closed_def)
  have c: "resolver_done r"
    using assms(2,3) resolver_step.close_cancels by (cases "rs_close r") (auto simp: resolver_done_def closeCh_closed_def)
  have "rs_ticker r = TickerReturned"
    using b(2) c assms(2,3) resolver_step.ticker_gives_up resolver_step.ticker_stops
    by (cases "rs_ticker r") blast+
  moreover have "rs_populate r = PopulateReturned"
    using c assms(3) resolver_step.populate_updates resolver_step.populate_stops
    by (cases "rs_populate r") blast+
  ultimately show ?thesis by simp
qed

lemma build_progress:
  assumes "resolver_inv order r" and "rs_build r \<noteq> BuildReturned"
  shows "\<exists>r'. resolver_step order r r'"
proof -
  have "rs_populate r = PopulateWaits" using assms by (simp add: resolver_inv_def)
  then show ?thesis
    using assms(2) resolver_step.build_asks resolver_step.build_hands by (cases "rs_build r") blast+
qed


text \<open>A resolver that was built with one list and is at rest.\<close>

definition resolver_built_once :: resolver where
  "resolver_built_once = resolver_start\<lparr>rs_build := BuildReturned, rs_ticker := TickerWaits,
     rs_updates := [endpoint_state (\<lambda>_. [''a:1'']) [''a:1'']]\<rparr>"


text \<open>The second \<open>Close\<close> of a resolver panics.\<close>

lemma resolver_close_twice:
  assumes "rs_build r = BuildReturned" and "rs_close r = CloseUncalled"
  shows "\<exists>r1 r2. resolver_call r r1 \<and> resolver_call r1 r2 \<and> rs_panicked r2"
  using close_channel [OF assms] close_again [of "r\<lparr>rs_close := CloseHalf\<rparr>"] assms
  by (fastforce simp: closeCh_closed_def)

end
