(* ===== verification/BridgeMain.thy ===== *)
theory BridgeMain
  imports Boot
begin

text \<open>
  The two ends of the log's JetStream: the \<open>main\<close> of the log bridge (\<open>src/app/iotlogbridge/cmd/main.go\<close>) and the
  constructor of the log writer (\<open>src/pkg/log/iotlogbridge/logbridge.go\<close>). The NATS client is a record of
  functions over a world.
\<close>

section \<open>NATS\<close>

text \<open>
  Connecting, opening JetStream, looking up and adding a stream, subscribing - subject, queue group,
  durable name, \<open>MaxAckPending\<close> and \<open>AckWait\<close> -, and closing the connection.
\<close>

record 'w jetstream =
  js_connect :: "string \<Rightarrow> 'w \<Rightarrow> go_error option \<times> 'w"
  js_open :: "'w \<Rightarrow> go_error option \<times> 'w"
  js_info :: "string \<Rightarrow> 'w \<Rightarrow> go_error option \<times> 'w"
  js_add :: "string \<Rightarrow> string list \<Rightarrow> 'w \<Rightarrow> go_error option \<times> 'w"
  js_subscribe :: "string \<Rightarrow> string \<Rightarrow> string \<Rightarrow> nat \<Rightarrow> duration \<Rightarrow> 'w \<Rightarrow> go_error option \<times> 'w"
  js_close :: "'w \<Rightarrow> 'w"

definition nats_DefaultURL :: string where
  "nats_DefaultURL = ''nats://127.0.0.1:4222''"

section \<open>The bridge's main\<close>

record bridge_conf =
  bc_urls :: "string list"
  bc_subject :: string
  bc_queueGroup :: string
  bc_lokiUrl :: string
  bc_batchSize :: int
  bc_flushSec :: int

text \<open>What \<open>main\<close> has settled on when it waits: the flush loop's arguments and the channel's capacity.\<close>

record bridge_running =
  br_lokiURL :: string
  br_batchSize :: nat
  br_interval :: duration
  br_capacity :: nat
  br_maxAckPending :: nat

definition streamAckWait :: duration where
  "streamAckWait = 30 * Second"

text \<open>
  A run that ends in \<open>Forever\<close> has set the running bridge; \<open>log.Fatalf\<close> ends the process without the
  deferred calls.
\<close>

definition bridge_main ::
  "'w jetstream \<Rightarrow> bridge_conf \<Rightarrow> bridge_running option \<times> 'w \<Rightarrow> unit run \<times> (bridge_running option \<times> 'w)" where
  "bridge_main js c p =
     (let urls = (if bc_urls c = [] then [nats_DefaultURL] else bc_urls c) in
      case js_connect js (join_with '','' urls) (snd p) of
        (Some err, w1) \<Rightarrow> (Fatal ''[Bridge] NATS connect'' err, (fst p, w1))
      | (None, w1) \<Rightarrow>
     (case js_open js w1 of
        (Some err, w2) \<Rightarrow> (Fatal ''[Bridge] JetStream context'' err, (fst p, w2))
      | (None, w2) \<Rightarrow>
     (let subj = bridge_subject (bc_subject c); queueGroup = bridge_queueGroup (bc_queueGroup c);
          lokiURL = bridge_lokiURL (bc_lokiUrl c); batchSize = bridge_batchSize (bc_batchSize c);
          flushSec = bridge_flushSec (bc_flushSec c) in
      case ensureStream (js_info js) (js_add js) (streamNameFromSubject subj) subj w2 of
        (Some err, w3) \<Rightarrow> (Fatal ''[Bridge] ensure stream'' err, (fst p, w3))
      | (None, w3) \<Rightarrow>
     (let rb = \<lparr>br_lokiURL = lokiURL, br_batchSize = batchSize, br_interval = flushSec * Second,
                     br_capacity = batchSize * 2, br_maxAckPending = batchSize * 2\<rparr> in
      case js_subscribe js subj queueGroup queueGroup (br_maxAckPending rb) streamAckWait w3 of
        (Some err, w4) \<Rightarrow> (Fatal ''[Bridge] JetStream subscribe'' err, (fst p, w4))
      | (None, w4) \<Rightarrow> (Forever, (Some rb, w4))))))"


definition quiet_jetstream :: "string list jetstream" where
  "quiet_jetstream = \<lparr>js_connect = (\<lambda>u w. (None, w @ [u])), js_open = (\<lambda>w. (None, w)),
     js_info = (\<lambda>n w. (None, w @ [n])), js_add = (\<lambda>n ss w. (None, w)),
     js_subscribe = (\<lambda>s g d n t w. (None, w @ [s])), js_close = (\<lambda>w. w)\<rparr>"

definition empty_bridge_conf :: bridge_conf where
  "empty_bridge_conf = \<lparr>bc_urls = [], bc_subject = [], bc_queueGroup = [], bc_lokiUrl = [], bc_batchSize = 1,
     bc_flushSec = 0\<rparr>"


section \<open>The log writer's constructor\<close>

text \<open>An error after the connection was made closes it.\<close>

definition lb_NewLogWrite ::
  "'w jetstream \<Rightarrow> string list \<Rightarrow> string \<Rightarrow> string \<Rightarrow> string \<Rightarrow> 'w \<Rightarrow> (go_error + bridge_writer) \<times> 'w" where
  "lb_NewLogWrite js natsUrls subj sourceName jobName w =
     (let urls = (if natsUrls = [] then [nats_DefaultURL] else natsUrls) in
      case js_connect js (joinUrls urls) w of
        (Some err, w1) \<Rightarrow> (Inl (WrapError ''logbridge: connect NATS'' err), w1)
      | (None, w1) \<Rightarrow>
     (case js_open js w1 of
        (Some err, w2) \<Rightarrow> (Inl (WrapError ''logbridge: JetStream context'' err), js_close js w2)
      | (None, w2) \<Rightarrow>
     (case lb_ensureStream (js_info js) (js_add js) subj w2 of
        (Some err, w3) \<Rightarrow> (Inl (WrapError ''logbridge: ensure stream'' err), js_close js w3)
      | (None, w3) \<Rightarrow>
          (Inr \<lparr>bw_subject = subj, bw_source = sourceName, bw_job = jobName, bw_closed = False\<rparr>, w3))))"

text \<open>
  Both ends name the stream alike, and both list their servers alike.
\<close>

lemma stream_names_agree: "lb_streamNameFromSubject = streamNameFromSubject"
  by (rule ext) (simp add: lb_streamNameFromSubject_def streamNameFromSubject_def)

lemma urls_agree: "joinUrls (if us = [] then [nats_DefaultURL] else us) = join_with '','' (if us = [] then [nats_DefaultURL] else us)"
  by (rule joinUrls_split) simp



end
