(* ===== verification/Exchanger.thy ===== *)
theory Exchanger
  imports Promtail LokiPush
begin

text \<open>
  The exchanger of the Promtail client (\<open>src/pkg/log/promtail/exchanger.go\<close>) down to the bytes it sends, the
  client's constructors and options, and the logging calls by level (\<open>client.go\<close>).

  \<open>keys\<close> gives the keys of a label map in the order \<open>json.Marshal\<close> writes them, sorted; \<open>new_request\<close> is
  the error of building a request for a URL, \<open>send\<close> the HTTP client.
\<close>

record exchanger =
  ex_address :: string
  ex_username :: string
  ex_password :: string

definition NewJSONv1Exchanger :: "string \<Rightarrow> exchanger" where
  "NewJSONv1Exchanger lokiAddress = \<lparr>ex_address = lokiAddress, ex_username = [], ex_password = []\<rparr>"

definition SetBasicAuth :: "string \<Rightarrow> string \<Rightarrow> exchanger \<Rightarrow> exchanger" where
  "SetBasicAuth username password x = x\<lparr>ex_username := username, ex_password := password\<rparr>"

section \<open>Pushing\<close>

definition label_list :: "(labels \<Rightarrow> string list) \<Rightarrow> labels \<Rightarrow> (string \<times> string) list" where
  "label_list keys m = map (\<lambda>k. (k, case m k of None \<Rightarrow> [] | Some v \<Rightarrow> v)) (keys m)"

definition promtail_body :: "(labels \<Rightarrow> string list) \<Rightarrow> (labels \<times> (int \<times> string) list) list \<Rightarrow> string" where
  "promtail_body keys dto =
     loki_push_text (map (\<lambda>(ls, vs). (label_list keys ls, map (\<lambda>(t, line). (itoa t, line)) vs)) dto)"

record loki_post =
  lp_url :: string
  lp_auth :: "(string \<times> string) option"
  lp_body :: string

definition loki_post_of :: "(labels \<Rightarrow> string list) \<Rightarrow> loki_request \<Rightarrow> loki_post" where
  "loki_post_of keys r = \<lparr>lp_url = lr_url r, lp_auth = lr_auth r, lp_body = promtail_body keys (lr_streams r)\<rparr>"

definition ex_Push ::
  "(labels \<Rightarrow> string list) \<Rightarrow> (string \<Rightarrow> go_error option) \<Rightarrow>
     (loki_post \<Rightarrow> 'w \<Rightarrow> (go_error + int \<times> string) \<times> 'w) \<Rightarrow> exchanger \<Rightarrow> log_stream list \<Rightarrow> 'w
     \<Rightarrow> go_error option \<times> 'w" where
  "ex_Push keys new_request send x streams w =
     (let r = exchanger_request (ex_address x) (ex_username x) (ex_password x) streams in
      case new_request (lr_url r) of
        Some err \<Rightarrow> (Some (TextError (''failed to create request: '' @ Error err)), w)
      | None \<Rightarrow> (case send (loki_post_of keys r) w of (answer, w') \<Rightarrow> (exchanger_Push answer, w')))"

definition ex_Ping ::
  "(string \<Rightarrow> go_error option) \<Rightarrow> (string \<Rightarrow> 'w \<Rightarrow> (go_error + int) \<times> 'w) \<Rightarrow> exchanger \<Rightarrow> 'w
     \<Rightarrow> (go_error + bool) \<times> 'w" where
  "ex_Ping new_request get x w =
     (let u = ex_address x @ ''/ready'' in
      case new_request u of
        Some err \<Rightarrow> (Inl (TextError (''unable to build ping request: '' @ Error err)), w)
      | None \<Rightarrow> (case get u w of (answer, w') \<Rightarrow> (exchanger_Ping answer, w')))"

section \<open>Clients and options\<close>

datatype client_option = ConfOption clientOption | WithErrorCallback | WithBasicAuth string string

fun exchanger_option :: "client_option \<Rightarrow> exchanger \<Rightarrow> exchanger" where
  "exchanger_option (WithBasicAuth username password) x = SetBasicAuth username password x"
| "exchanger_option _ x = x"

fun conf_options :: "client_option list \<Rightarrow> clientOption list" where
  "conf_options [] = []"
| "conf_options (ConfOption opt # opts) = opt # conf_options opts"
| "conf_options (_ # opts) = conf_options opts"

text \<open>\<open>NewClient\<close>: no client without an exchanger; the options act on the client and on its exchanger.\<close>

definition NewClient_with ::
  "exchanger option \<Rightarrow> labels \<Rightarrow> client_option list \<Rightarrow> go_error + exchanger \<times> promtail_client" where
  "NewClient_with x ls opts =
     (case x of
        None \<Rightarrow> Inl (TextError ''exchanger is nil, no operations could be performed'')
      | Some x \<Rightarrow> Inr (fold exchanger_option opts x, NewClient (conf_options opts) ls))"

definition NewJSONv1Client ::
  "string \<Rightarrow> labels \<Rightarrow> client_option list \<Rightarrow> go_error + exchanger \<times> promtail_client" where
  "NewJSONv1Client lokiAddress defaultLabels opts =
     NewClient_with (Some (NewJSONv1Exchanger (json_client_address lokiAddress))) defaultLabels opts"

section \<open>Logging by level\<close>

definition Logf :: "level \<Rightarrow> int \<Rightarrow> string \<Rightarrow> promtail_client \<Rightarrow> promtail_client" where
  "Logf lv now t = LogfWithLabels \<lparr>pk_level = lv, pk_labels = Map.empty, pk_entry = \<lparr>pe_time = now, pe_text = t\<rparr>\<rparr>"

definition Debugf :: "int \<Rightarrow> string \<Rightarrow> promtail_client \<Rightarrow> promtail_client" where "Debugf = Logf lvDebug"
definition Infof :: "int \<Rightarrow> string \<Rightarrow> promtail_client \<Rightarrow> promtail_client" where "Infof = Logf lvInfo"
definition Warnf :: "int \<Rightarrow> string \<Rightarrow> promtail_client \<Rightarrow> promtail_client" where "Warnf = Logf lvWarn"
definition Errorf :: "int \<Rightarrow> string \<Rightarrow> promtail_client \<Rightarrow> promtail_client" where "Errorf = Logf lvError"
definition Fatalf :: "int \<Rightarrow> string \<Rightarrow> promtail_client \<Rightarrow> promtail_client" where "Fatalf = Logf lvFatal"
definition Panicf :: "int \<Rightarrow> string \<Rightarrow> promtail_client \<Rightarrow> promtail_client" where "Panicf = Logf lvPanic"

section \<open>What Loki reads\<close>

text \<open>An entry as Loki's format shows it: its labels, its time and its line.\<close>

definition wire_item :: "(labels \<Rightarrow> string list) \<Rightarrow> labels \<times> int \<times> string \<Rightarrow> (string \<times> string) list \<times> string \<times> string" where
  "wire_item keys x = (map both_valid (label_list keys (fst x)), both_valid (itoa (fst (snd x)), snd (snd x)))"

definition read_items :: "loki_streams \<Rightarrow> ((string \<times> string) list \<times> string \<times> string) list" where
  "read_items streams = concat (map (\<lambda>(ls, vs). map (Pair ls) vs) streams)"

lemma loki_read_promtail_body:
  "\<exists>streams. loki_read (promtail_body keys dto) = Some streams \<and>
     mset (read_items streams) = image_mset (wire_item keys) (dto_items dto)"
proof -
  let ?streams = "valid_streams (map (\<lambda>(ls, vs). (label_list keys ls, map (\<lambda>(t, line). (itoa t, line)) vs)) dto)"
  have "read_items ?streams = map (wire_item keys) (concat (map (\<lambda>(ls, vs). map (\<lambda>v. (ls, v)) vs) dto))"
    by (induction dto) (auto simp: read_items_def valid_streams_def wire_item_def both_valid_def)
  then have "mset (read_items ?streams) = image_mset (wire_item keys) (dto_items dto)"
    by (simp add: dto_items_def)
  moreover have "loki_read (promtail_body keys dto) = Some ?streams"
    by (simp add: promtail_body_def loki_read_push_text)
  ultimately show ?thesis by blast
qed


text \<open>The exchanger of a client has the last credentials given.\<close>

lemma basic_auth_last:
  "NewJSONv1Client a ls (opts @ [WithBasicAuth u p]) = Inr (x, c) \<Longrightarrow> ex_username x = u \<and> ex_password x = p"
  by (auto simp: NewJSONv1Client_def NewClient_with_def SetBasicAuth_def)

end
