(* ===== verification/PushRace.thy ===== *)
theory PushRace
  imports DeviceCli
begin

text \<open>
  Pushes in flight while the client is reloaded (\<open>src/pkg/devicecli/devicecli.go\<close>). A push takes the slice of
  the chain under the read lock and ranges over it outside: each turn of its loop reads one element from
  the shared array and calls it. \<open>race_step\<close> interleaves the turns of any number of pushes with the phases of any
  number of reloads, whose commits write into the same arrays.
\<close>

section \<open>A push, turn by turn\<close>

record push_run =
  pr_chain :: slice
  pr_next :: nat
  pr_err :: "go_error option"
  pr_alarms :: nat
  pr_conn :: string
  pr_msg :: string

definition push_begin :: "string \<Rightarrow> string \<Rightarrow> dev_cli \<Rightarrow> push_run" where
  "push_begin connId message d =
     \<lparr>pr_chain = dc_chain d, pr_next = 0, pr_err = None, pr_alarms = 0, pr_conn = connId, pr_msg = message\<rparr>"

text \<open>One turn: the push goes on, or it ends with a result and the number of its alarms.\<close>

definition push_turn ::
  "'w client_push \<Rightarrow> store \<Rightarrow> push_run \<Rightarrow> 'w \<Rightarrow> (push_run + push_result go \<times> nat) \<times> 'w" where
  "push_turn push h r w =
     (if s_len (pr_chain r) = 0 then (Inr (Ret ([], False, Some ErrNoClientAvailable), 0), w)
      else if s_len (pr_chain r) \<le> pr_next r then (Inr (Ret ([], False, pr_err r), Suc (pr_alarms r)), w)
      else (case arrays h (s_arr (pr_chain r)) ! pr_next r of
              None \<Rightarrow> (Inr (Panic ''nil pointer dereference'', pr_alarms r), w)
            | Some c \<Rightarrow>
                (case push c (pr_conn r) (pr_msg r) w of
                   (Panic p, w') \<Rightarrow> (Inr (Panic p, pr_alarms r), w')
                 | (Ret (resp, shouldRespond, None), w') \<Rightarrow> (Inr (Ret (resp, shouldRespond, None), pr_alarms r), w')
                 | (Ret (_, _, Some e), w') \<Rightarrow>
                     (Inl (r\<lparr>pr_next := Suc (pr_next r), pr_err := Some e, pr_alarms := Suc (pr_alarms r)\<rparr>), w'))))"

text \<open>All turns of a push with nothing in between; the number is that of the turns allowed.\<close>

fun push_turns :: "nat \<Rightarrow> 'w client_push \<Rightarrow> store \<Rightarrow> push_run \<Rightarrow> 'w \<Rightarrow> (push_result go \<times> nat \<times> 'w) option" where
  "push_turns 0 push h r w = None"
| "push_turns (Suc n) push h r w =
     (case push_turn push h r w of
        (Inr (res, alarms), w') \<Rightarrow> Some (res, alarms, w')
      | (Inl r', w') \<Rightarrow> push_turns n push h r' w')"

lemma push_turns_chain:
  assumes "0 < s_len (pr_chain r)" and "pr_next r \<le> s_len (pr_chain r)"
    and "s_len (pr_chain r) \<le> length (arrays h (s_arr (pr_chain r)))"
    and "s_len (pr_chain r) - pr_next r < n"
  shows "push_turns n push h r w =
     Some (push_chain push (pr_conn r) (pr_msg r) (drop (pr_next r) (slice_read (pr_chain r) h)) (pr_err r) (pr_alarms r) w)"
  using assms
proof (induction n push h r w rule: push_turns.induct)
  case (2 n push h r w)
  let ?xs = "slice_read (pr_chain r) h"
  have len: "length ?xs = s_len (pr_chain r)" using "2.prems"(3) by (simp add: slice_read_def)
  show ?case
  proof (cases "pr_next r < s_len (pr_chain r)")
    case False
    then show ?thesis using "2.prems"(1,2) len by (simp add: push_turn_def)
  next
    case True
    have d: "drop (pr_next r) ?xs = arrays h (s_arr (pr_chain r)) ! pr_next r # drop (Suc (pr_next r)) ?xs"
      using True len by (simp add: slice_read_def flip: Cons_nth_drop_Suc)
    show ?thesis
    proof (cases "arrays h (s_arr (pr_chain r)) ! pr_next r")
      case None
      then show ?thesis using True d by (simp add: push_turn_def)
    next
      case (Some c)
      obtain res w1 where p: "push c (pr_conn r) (pr_msg r) w = (res, w1)" by fastforce
      show ?thesis
      proof (cases "\<exists>resp sr e. res = Ret (resp, sr, Some e)")
        case False
        then show ?thesis using True d Some p by (cases res) (auto simp: push_turn_def split: option.split)
      next
        case e: True
        then obtain resp sr e where res: "res = Ret (resp, sr, Some e)" by blast
        let ?r = "r\<lparr>pr_next := Suc (pr_next r), pr_err := Some e, pr_alarms := Suc (pr_alarms r)\<rparr>"
        have t: "push_turn push h r w = (Inl ?r, w1)" using True Some p res by (simp add: push_turn_def)
        have "push_turns n push h ?r w1 =
          Some (push_chain push (pr_conn ?r) (pr_msg ?r) (drop (pr_next ?r) (slice_read (pr_chain ?r) h)) (pr_err ?r) (pr_alarms ?r) w1)"
          using "2.IH" [OF t [symmetric] refl] "2.prems" True by simp
        then show ?thesis using t d Some p res by simp
      qed
    qed
  qed
qed simp


section \<open>Pushes and reloads\<close>

text \<open>
  \<open>rc_failed\<close> records that some reload could not create its queue client and holds the nil pointer instead.
\<close>

record 'w race =
  rc_sys :: dc_sys
  rc_runs :: "push_run list"
  rc_ended :: "(push_result go \<times> nat) list"
  rc_failed :: bool
  rc_world :: 'w

definition holds_nil :: "reload \<Rightarrow> bool" where
  "holds_nil r \<longleftrightarrow> r_oldNats r = Some NatsNil \<or> r_newNats r = Some NatsNil"

inductive race_step :: "(nat \<Rightarrow> nat \<Rightarrow> nat) \<Rightarrow> bool \<Rightarrow> 'w client_push \<Rightarrow> 'w race \<Rightarrow> 'w race \<Rightarrow> bool"
  for grow mq push where
  reload_phase: "dc_step grow mq (rc_sys s) y \<Longrightarrow>
     race_step grow mq push s (s\<lparr>rc_sys := y, rc_failed := rc_failed s \<or> list_ex holds_nil (made y)\<rparr>)"
| push_begins: "race_step grow mq push s
     (s\<lparr>rc_runs := push_begin connId message (sys_cli (rc_sys s)) # rc_runs s\<rparr>)"
| push_goes_on: "r \<in> set (rc_runs s) \<Longrightarrow>
     push_turn push (dc_store (sys_cli (rc_sys s))) r (rc_world s) = (Inl r', w') \<Longrightarrow>
     race_step grow mq push s (s\<lparr>rc_runs := r' # remove1 r (rc_runs s), rc_world := w'\<rparr>)"
| push_ends: "r \<in> set (rc_runs s) \<Longrightarrow>
     push_turn push (dc_store (sys_cli (rc_sys s))) r (rc_world s) = (Inr res, w') \<Longrightarrow>
     race_step grow mq push s
       (s\<lparr>rc_runs := remove1 r (rc_runs s), rc_ended := res # rc_ended s, rc_world := w'\<rparr>)"

inductive race_reachable :: "(nat \<Rightarrow> nat \<Rightarrow> nat) \<Rightarrow> bool \<Rightarrow> 'w client_push \<Rightarrow> 'w race \<Rightarrow> bool"
  for grow mq push where
  race_start: "race_reachable grow mq push
     \<lparr>rc_sys = \<lparr>sys_cli = NewDeviceCli grow mq fails model, begun = [], made = [], finishing = [], snapshots = []\<rparr>,
      rc_runs = [], rc_ended = [], rc_failed = False, rc_world = w\<rparr>"
| race_more: "race_reachable grow mq push s \<Longrightarrow> race_step grow mq push s s' \<Longrightarrow> race_reachable grow mq push s'"

section \<open>The arrays\<close>

text \<open>An array never loses an element: what a commit writes into an old array is a client.\<close>

definition keeps_elements :: "store \<Rightarrow> store \<Rightarrow> bool" where
  "keeps_elements h h' \<longleftrightarrow> next_arr h \<le> next_arr h' \<and>
     (\<forall>a<next_arr h. length (arrays h' a) = length (arrays h a) \<and>
        (\<forall>i<length (arrays h a). arrays h a ! i \<noteq> None \<longrightarrow> arrays h' a ! i \<noteq> None))"

definition without_nil :: "store \<Rightarrow> bool" where
  "without_nil h \<longleftrightarrow> (\<forall>a. Some NatsNil \<notin> set (arrays h a))"

lemma keeps_refl [simp]: "keeps_elements h h"
  by (simp add: keeps_elements_def)

lemma keeps_trans: "keeps_elements h h1 \<Longrightarrow> keeps_elements h1 h2 \<Longrightarrow> keeps_elements h h2"
  by (auto simp: keeps_elements_def)

lemma update_keeps: "i < length xs \<Longrightarrow> xs ! i = Some y \<Longrightarrow> \<exists>z. xs[k := Some x] ! i = Some z"
  by (cases "k = i") auto

lemma append_keeps: "keeps_elements (snd sh) (snd (append_present grow c sh))"
  by (cases c; cases sh)
    (auto simp: append_present_def slice_append_def keeps_elements_def Let_def update_keeps split: if_splits)

lemma append_without_nil:
  "without_nil (snd sh) \<Longrightarrow> c \<noteq> Some NatsNil \<Longrightarrow> without_nil (snd (append_present grow c sh))"
  by (cases c; cases sh)
    (auto simp: append_present_def slice_append_def without_nil_def slice_read_def Let_def
      dest!: set_update_subset_insert [THEN subsetD] in_set_takeD split: if_splits)

lemma rebuild_keeps: "keeps_elements (dc_store d) (dc_store (rebuildChain grow d))"
  unfolding rebuildChain_def Let_def by simp (metis append_keeps keeps_trans snd_conv)

lemma rebuild_without_nil:
  "without_nil (dc_store d) \<Longrightarrow> NatsNil \<notin> set (by_priority d) \<Longrightarrow> without_nil (dc_store (rebuildChain grow d))"
  unfolding rebuildChain_def Let_def by_priority_def
  by (auto intro!: append_without_nil)

section \<open>What a push in flight finds\<close>

definition run_ok :: "store \<Rightarrow> push_run \<Rightarrow> bool" where
  "run_ok h r \<longleftrightarrow>
     s_arr (pr_chain r) < next_arr h \<and> s_len (pr_chain r) \<le> length (arrays h (s_arr (pr_chain r))) \<and>
     (\<forall>i < s_len (pr_chain r). arrays h (s_arr (pr_chain r)) ! i \<noteq> None) \<and>
     pr_next r \<le> s_len (pr_chain r) \<and> s_len (pr_chain r) \<le> 3 \<and> pr_alarms r = pr_next r"

definition nil_free :: "dc_sys \<Rightarrow> bool" where
  "nil_free y \<longleftrightarrow> dc_nats (sys_cli y) \<noteq> Some NatsNil \<and> without_nil (dc_store (sys_cli y)) \<and>
     list_all (Not \<circ> holds_nil) (begun y) \<and> list_all (Not \<circ> holds_nil) (made y)"

lemma run_ok_keeps: "keeps_elements h h' \<Longrightarrow> run_ok h r \<Longrightarrow> run_ok h' r"
  by (force simp: run_ok_def keeps_elements_def)

lemma run_ok_begin:
  assumes "dc_inv mq d"
  shows "run_ok (dc_store d) (push_begin connId message d)"
proof -
  let ?xs = "arrays (dc_store d) (s_arr (dc_chain d))"
  have ok: "slice_ok (dc_chain d) (dc_store d)" and c: "take (s_len (dc_chain d)) ?xs = map Some (by_priority d)"
    using assms by (simp_all add: dc_inv_def chain_of_def slice_read_def)
  have len: "s_len (dc_chain d) \<le> length ?xs" using ok by (simp add: slice_ok_def)
  then have n: "s_len (dc_chain d) = length (by_priority d)" using arg_cong [OF c, of length] by simp
  have "?xs ! i \<noteq> None" if "i < s_len (dc_chain d)" for i
  proof -
    have "?xs ! i = map Some (by_priority d) ! i" using nth_take [OF that, of ?xs] unfolding c by simp
    then show ?thesis using that n by simp
  qed
  moreover have "length (by_priority d) \<le> 3" by (simp add: by_priority_def opt_list_def split: option.split)
  ultimately show ?thesis using ok len n by (simp add: run_ok_def push_begin_def slice_ok_def)
qed

lemma run_ok_turn: "run_ok h r \<Longrightarrow> push_turn push h r w = (Inl r', w') \<Longrightarrow> run_ok h r'"
  by (auto simp: run_ok_def push_turn_def split: if_splits option.splits prod.splits go.splits)

lemma turn_end:
  assumes "run_ok h r" and "push_turn push h r w = (Inr (res, n), w')"
  shows "n \<le> 4" and "\<lbrakk>without_nil h; \<And>c connId m w. c \<noteq> NatsNil \<Longrightarrow> \<not> is_panic (fst (push c connId m w))\<rbrakk> \<Longrightarrow> \<not> is_panic res"
proof -
  show "n \<le> 4"
    using assms by (auto simp: run_ok_def push_turn_def split: if_splits option.splits prod.splits go.splits)
next
  assume nn: "without_nil h" and np: "\<And>c connId m w. c \<noteq> NatsNil \<Longrightarrow> \<not> is_panic (fst (push c connId m w))"
  let ?xs = "arrays h (s_arr (pr_chain r))"
  show "\<not> is_panic res"
  proof (cases "pr_next r < s_len (pr_chain r)")
    case False
    then show ?thesis using assms by (auto simp: push_turn_def split: if_splits)
  next
    case True
    then obtain c where c: "?xs ! pr_next r = Some c" and "Some c \<in> set ?xs"
      using assms(1) by (auto simp: run_ok_def) (metis less_le_trans nth_mem)
    then have "c \<noteq> NatsNil" using nn by (auto simp: without_nil_def)
    with np [of c "pr_conn r" "pr_msg r" w] show ?thesis
      using assms(2) True c by (auto simp: push_turn_def split: option.splits prod.splits go.splits)
  qed
qed

lemma commit_store:
  "reload_commit grow r d = (b, d') \<Longrightarrow> keeps_elements (dc_store d) (dc_store d')"
  using rebuild_keeps [of "d\<lparr>dc_grpc := keep_or_new (r_new r) ModeGRPC (r_oldGrpc r) (r_newGrpc r),
              dc_http := keep_or_new (r_new r) ModeHTTP (r_oldHttp r) (r_newHttp r),
              dc_nats := keep_or_new (r_new r) ModeNATS (r_oldNats r) (r_newNats r),
              dc_mode := r_new r\<rparr>" grow]
  by (auto simp: reload_commit_def split: if_splits)

lemma dc_step_keeps: "dc_step grow mq y y' \<Longrightarrow> keeps_elements (dc_store (sys_cli y)) (dc_store (sys_cli y'))"
proof (cases rule: dc_step.cases, assumption)
  fix r fails r' d' assume "y' = y\<lparr>sys_cli := d', begun := remove1 r (begun y), made := r' # made y\<rparr>"
    "reload_create mq fails (r, sys_cli y) = (r', d')"
  then show ?thesis using reload_create_fields(9) [of mq fails r "sys_cli y" r' d'] by auto
next
  fix b r res d' assume "y' = y\<lparr>sys_cli := d', finishing := remove1 (b, r) (finishing y)\<rparr>"
    "reload_close b r (sys_cli y) = (res, d')"
  then show ?thesis using reload_close_fields [of b r "sys_cli y"] by auto
qed (auto dest: commit_store)

lemma by_priority_nil: "dc_inv mq d \<Longrightarrow> dc_nats d \<noteq> Some NatsNil \<Longrightarrow> NatsNil \<notin> set (by_priority d)"
  by (auto simp: dc_inv_def fields_inv_def by_priority_def opt_list_def split: option.splits)

lemma commit_nil_free:
  assumes "reload_commit grow r d = (b, d')" and "dc_inv mq d'" and "dc_nats d \<noteq> Some NatsNil"
    and "without_nil (dc_store d)" and "\<not> holds_nil r"
  shows "dc_nats d' \<noteq> Some NatsNil \<and> without_nil (dc_store d')"
proof (cases "dc_mode d = r_old r")
  case False
  then show ?thesis using assms by (simp add: reload_commit_def)
next
  case True
  let ?d = "d\<lparr>dc_grpc := keep_or_new (r_new r) ModeGRPC (r_oldGrpc r) (r_newGrpc r),
              dc_http := keep_or_new (r_new r) ModeHTTP (r_oldHttp r) (r_newHttp r),
              dc_nats := keep_or_new (r_new r) ModeNATS (r_oldNats r) (r_newNats r),
              dc_mode := r_new r\<rparr>"
  have d': "d' = rebuildChain grow ?d" using assms(1) True by (simp add: reload_commit_def)
  have n: "dc_nats d' \<noteq> Some NatsNil" using assms(5) by (auto simp: d' keep_or_new_def holds_nil_def)
  have "NatsNil \<notin> set (by_priority ?d)" using by_priority_nil [OF assms(2) n] by (simp add: d')
  then have "without_nil (dc_store d')" unfolding d' using assms(4) by (intro rebuild_without_nil) simp_all
  with n show ?thesis by simp
qed

lemma dc_step_nil_free:
  assumes "grows grow" and "dc_step grow mq y y'" and "dc_sys_inv mq y" and "nil_free y"
    and "\<not> list_ex holds_nil (made y')"
  shows "nil_free y'"
  using assms(2)
proof (cases rule: dc_step.cases)
  case (read model r)
  then show ?thesis using assms(4) by (auto simp: nil_free_def holds_nil_def reload_read_def split: if_splits)
next
  case (create r fails r' d')
  then obtain i where "d' = (sys_cli y)\<lparr>dc_next := i\<rparr>" using reload_create_fields(9) by blast
  then show ?thesis
    using create assms(4,5) by (auto simp: nil_free_def list_all_remove1 list_ex_iff list_all_iff)
next
  case (commit r b d')
  have "dc_inv mq d'" using dc_step_inv [OF assms(1-3)] commit by (simp add: dc_sys_inv_def)
  then show ?thesis
    using commit commit_nil_free [OF commit(3)] assms(4) by (auto simp: nil_free_def list_all_remove1 list_all_iff)
next
  case (finish b r res d')
  then show ?thesis using reload_close_fields [of b r "sys_cli y"] assms(4) by (auto simp: nil_free_def)
next
  case push
  then show ?thesis using assms(4) by (simp add: nil_free_def)
qed

definition race_inv :: "bool \<Rightarrow> 'w race \<Rightarrow> bool" where
  "race_inv mq s \<longleftrightarrow>
     dc_sys_inv mq (rc_sys s) \<and> list_all (run_ok (dc_store (sys_cli (rc_sys s)))) (rc_runs s) \<and>
     (\<forall>e\<in>set (rc_ended s). snd e \<le> 4) \<and>
     (rc_failed s \<or> nil_free (rc_sys s) \<and> (\<forall>e\<in>set (rc_ended s). \<not> is_panic (fst e)))"

lemma nil_free_start:
  "nil_free \<lparr>sys_cli = NewDeviceCli grow mq fails model, begun = [], made = [], finishing = [], snapshots = []\<rparr>"
proof -
  have n: "dc_nats (NewDeviceCli grow mq fails model) \<noteq> Some NatsNil"
    by (simp add: NewDeviceCli_def initLocked_def Let_def new_client_defs zero_cli_def)
  have "without_nil (dc_store (NewDeviceCli grow mq fails model))"
    unfolding NewDeviceCli_def initLocked_def Let_def
    by (rule rebuild_without_nil)
      (auto simp: new_client_defs zero_cli_def empty_store_def without_nil_def by_priority_def opt_list_def)
  with n show ?thesis by (simp add: nil_free_def)
qed

lemma race_step_inv [inv_intros]:
  assumes "grows grow" and "\<And>c connId m w. c \<noteq> NatsNil \<Longrightarrow> \<not> is_panic (fst (push c connId m w))"
    and "race_step grow mq push s s'" and "race_inv mq s"
  shows "race_inv mq s'"
  using assms(3)
proof (cases rule: race_step.cases)
  case (reload_phase y)
  have i: "dc_sys_inv mq (rc_sys s)" using assms(4) by (simp add: race_inv_def)
  have "list_all (run_ok (dc_store (sys_cli y))) (rc_runs s)"
    using assms(4) run_ok_keeps [OF dc_step_keeps [OF reload_phase(2)]] by (auto simp: race_inv_def list_all_iff)
  then show ?thesis
    using assms(4) reload_phase dc_step_inv [OF assms(1) reload_phase(2) i]
      dc_step_nil_free [OF assms(1) reload_phase(2) i]
    by (auto simp: race_inv_def)
next
  case (push_begins connId message)
  have "dc_inv mq (sys_cli (rc_sys s))" using assms(4) by (simp add: race_inv_def dc_sys_inv_def)
  then show ?thesis using push_begins run_ok_begin assms(4) by (auto simp: race_inv_def)
next
  case (push_goes_on r r' w')
  have "run_ok (dc_store (sys_cli (rc_sys s))) r" using assms(4) push_goes_on(2) by (auto simp: race_inv_def list_all_iff)
  from run_ok_turn [OF this push_goes_on(3)] show ?thesis
    using push_goes_on(1) assms(4) by (auto simp: race_inv_def list_all_remove1)
next
  case (push_ends r res w')
  have ok: "run_ok (dc_store (sys_cli (rc_sys s))) r" using assms(4) push_ends(2) by (auto simp: race_inv_def list_all_iff)
  obtain x n where res: "res = (x, n)" by (cases res)
  note e = turn_end [OF ok push_ends(3) [unfolded res]]
  show ?thesis
    using push_ends(1) assms(4) e(1) e(2) [OF _ assms(2)] res
    by (auto simp: race_inv_def list_all_remove1 nil_free_def)
qed

lemma race_reachable_inv:
  assumes "race_reachable grow mq push s" and "grows grow"
    and "\<And>c connId m w. c \<noteq> NatsNil \<Longrightarrow> \<not> is_panic (fst (push c connId m w))"
  shows "race_inv mq s"
  using assms(1)
proof (induction rule: race_reachable.induct)
  case (race_start fails model w)
  show ?case
    using nil_free_start [of grow mq fails model] dc_inv_NewDeviceCli [OF assms(2)]
    by (simp add: race_inv_def dc_sys_inv_def)
next
  case (race_more s s')
  show ?case by (rule race_step_inv [OF assms(2) _ race_more(2,3)]) (rule assms(3))
qed




end
