(* ===== verification/QueuePath.thy ===== *)
theory QueuePath
  imports PushRace WsLogic DeviceService
begin

text \<open>
  The way of a message over the queue, from a socket to Redis: the gateway of a node whose device client
  has the queue mode only (\<open>src/app/iotws\<close>, \<open>src/pkg/devicecli\<close>), the broker with the ingress subject and the one
  of the login command, and the device service's two consumers (\<open>src/app/iotdevice\<close>, \<open>handler/nats\<close>). One step
  is an event of the gateway, a message handled by a goroutine of the ingress consumer or of the login
  consumer; a message that is handed back goes to the end of its queue.

  The broker answers each publish by the next of \<open>qw_outcomes\<close>: a refused message is not stored.
\<close>

section \<open>The node's callback\<close>

text \<open>
  The callback that \<open>main\<close> wires into the gateway: \<open>Iotws\<close> over the fallback client.
\<close>

definition ws_fn :: "'w client_push \<Rightarrow> dev_cli \<Rightarrow> 'w fn" where
  "ws_fn push d =
     Iotws (\<lambda>connId message w. let (r, _, w') = dc_Push push connId message d w in (r, w'))"

lemma ws_fn_world: "snd (ws_fn push d connId message w) = snd (snd (dc_Push push connId message d w))"
  by (simp add: ws_fn_def Iotws_def Let_def case_prod_beta split: go.split option.split)

text \<open>A step of the gateway changes the world of its callback by at most one call of it.\<close>

lemma OnMessage_world:
  "\<exists>c. snd (OnMessage fn s op msg (g, w)) \<in> {w, snd (fn c msg w)}"
proof (cases "conn_id g s")
  case None
  then show ?thesis
    by (intro exI [of _ "[]"], cases fn "[] :: string" msg w rule: fn_cases)
      (simp_all add: OnMessage_def OnMessage_after_def OnMessage_new_def Let_def)
next
  case (Some v)
  show ?thesis
  proof (cases v)
    case (SStr coid)
    then show ?thesis
      using Some by (intro exI [of _ coid], cases fn coid msg w rule: fn_cases)
        (simp_all add: OnMessage_def OnMessage_after_def OnMessage_known_def)
  next
    case SOther
    then show ?thesis using Some by (simp add: OnMessage_def OnMessage_after_def OnMessage_known_def)
  qed
qed

lemma gw_step_world: "gw_step fn x y \<Longrightarrow> snd y = snd x \<or> (\<exists>c m. snd y = snd (fn c m (snd x)))"
proof (induction rule: gw_step.induct)
  case (message g w s op msg)
  show ?case using OnMessage_world [of fn s op msg g w] by auto
qed simp_all

section \<open>The broker and the system\<close>

record 'b queues =
  qw_outcomes :: "go_error option list"
  qw_main :: "qmsg list"        \<comment> \<open>the ingress subject\<close>
  qw_login :: "qmsg list"       \<comment> \<open>the subject of the login command\<close>
  qw_back :: 'b                 \<comment> \<open>the service's database and Redis\<close>
  qw_accepted :: "qmsg list"    \<comment> \<open>what the nodes have published\<close>
  qw_dropped :: "qmsg list"     \<comment> \<open>acknowledged by the ingress consumer without being routed\<close>
  qw_done :: "qmsg list"        \<comment> \<open>acknowledged by the login consumer\<close>

definition broker_answer :: "'b queues \<Rightarrow> go_error option" where
  "broker_answer w = (case qw_outcomes w of [] \<Rightarrow> None | e # _ \<Rightarrow> e)"

text \<open>
  A publish: on the ingress subject it is a node's, on the command's subject the ingress consumer's; nobody
  listens on another.
\<close>

definition broker_publish :: "string \<Rightarrow> string \<Rightarrow> qmsg \<Rightarrow> 'b queues \<Rightarrow> go_error option \<times> 'b queues" where
  "broker_publish subj topic m w =
     (let w1 = w\<lparr>qw_outcomes := tl (qw_outcomes w)\<rparr> in
      case broker_answer w of
        Some err \<Rightarrow> (Some err, w1)
      | None \<Rightarrow>
          (None, if topic = subj then w1\<lparr>qw_main := qw_main w @ [m], qw_accepted := m # qw_accepted w\<rparr>
                 else if topic = subj @ ''_login'' then w1\<lparr>qw_login := qw_login w @ [m]\<rparr>
                 else w1))"

text \<open>A goroutine of the ingress consumer handles a message, whichever it was given.\<close>

definition ingress_turn :: "string \<Rightarrow> qmsg \<Rightarrow> 'b queues \<Rightarrow> 'b queues" where
  "ingress_turn subj m w =
     (let (acts, w') = ingress (broker_publish subj) subj m (w\<lparr>qw_main := remove1 m (qw_main w)\<rparr>) in
      if acts = [Ack]
      then (if extractCmd (msg_payload m) = ''login'' then w' else w'\<lparr>qw_dropped := m # qw_dropped w'\<rparr>)
      else w'\<lparr>qw_main := qw_main w' @ [m]\<rparr>)"

text \<open>A goroutine of the login consumer processes a message, whichever it was given.\<close>

definition login_turn ::
  "(string \<Rightarrow> go_error + DeviceConnectReq) \<Rightarrow> span_ctx \<Rightarrow> 'b backend \<Rightarrow> qmsg \<Rightarrow> 'b queues \<Rightarrow> 'b queues" where
  "login_turn unmarshal ctx b m w =
     (let (st, back) = settle_message unmarshal ctx b m (qw_back w);
          w' = w\<lparr>qw_back := back, qw_login := remove1 m (qw_login w)\<rparr>
      in (case st of
            Ack \<Rightarrow> w'\<lparr>qw_done := m # qw_done w'\<rparr>
          | Nack \<Rightarrow> w'\<lparr>qw_login := qw_login w' @ [m]\<rparr>))"

inductive path_step ::
  "'b queues fn \<Rightarrow> string \<Rightarrow> (string \<Rightarrow> go_error + DeviceConnectReq) \<Rightarrow> span_ctx \<Rightarrow> 'b backend
     \<Rightarrow> gw \<times> 'b queues \<Rightarrow> gw \<times> 'b queues \<Rightarrow> bool" for fn subj unmarshal ctx b where
  at_node: "gw_step fn (g, w) (g', w') \<Longrightarrow> path_step fn subj unmarshal ctx b (g, w) (g', w')"
| at_ingress: "m \<in> set (qw_main w) \<Longrightarrow> path_step fn subj unmarshal ctx b (g, w) (g, ingress_turn subj m w)"
| at_login: "m \<in> set (qw_login w) \<Longrightarrow>
     path_step fn subj unmarshal ctx b (g, w) (g, login_turn unmarshal ctx b m w)"

definition path_start :: "go_error option list \<Rightarrow> 'b \<Rightarrow> 'b queues" where
  "path_start outcomes back = \<lparr>qw_outcomes = outcomes, qw_main = [], qw_login = [], qw_back = back,
     qw_accepted = [], qw_dropped = [], qw_done = []\<rparr>"

inductive path_reachable ::
  "'b queues fn \<Rightarrow> string \<Rightarrow> (string \<Rightarrow> go_error + DeviceConnectReq) \<Rightarrow> span_ctx \<Rightarrow> 'b backend
     \<Rightarrow> gw \<times> 'b queues \<Rightarrow> bool" for fn subj unmarshal ctx b where
  path_init: "path_reachable fn subj unmarshal ctx b (gw_start, path_start outcomes back)"
| path_more: "path_reachable fn subj unmarshal ctx b x \<Longrightarrow> path_step fn subj unmarshal ctx b x y \<Longrightarrow>
     path_reachable fn subj unmarshal ctx b y"

section \<open>What each step does\<close>

text \<open>What the node's pushes do: some messages more on the ingress subject, with the node's service name.\<close>

definition pushed :: "string \<Rightarrow> 'b queues \<Rightarrow> 'b queues \<Rightarrow> bool" where
  "pushed service w w' \<longleftrightarrow>
     (\<exists>ms. qw_main w' = qw_main w @ ms \<and> qw_accepted w' = rev ms @ qw_accepted w \<and>
        (\<forall>m\<in>set ms. metadata m ''ServiceName'' = service)) \<and>
     qw_login w' = qw_login w \<and> qw_back w' = qw_back w \<and> qw_dropped w' = qw_dropped w \<and> qw_done w' = qw_done w"

lemma pushed_refl [simp]: "pushed service w w"
  by (auto simp: pushed_def)

lemma pushed_trans: "pushed service w w1 \<Longrightarrow> pushed service w1 w2 \<Longrightarrow> pushed service w w2"
  by (force simp: pushed_def)

lemma broker_pushed:
  "metadata m ''ServiceName'' = service \<Longrightarrow> pushed service w (snd (broker_publish subj subj m w))"
  by (auto simp: pushed_def broker_publish_def Let_def split: option.split)

lemma nats_loop_pushed:
  assumes "\<And>w. snd (ctx_done w) = w" and "\<And>w. snd (wait w) = w" and "metadata m ''ServiceName'' = service"
  shows "pushed service w (snd (snd (nats_loop (broker_publish subj subj) ctx_done wait m k err w)))"
proof (induction k arbitrary: err w)
  case (Suc k)
  obtain c where c: "ctx_done w = (c, w)" using assms(1) [of w] by (cases "ctx_done w") simp
  obtain e w1 where p: "broker_publish subj subj m w = (e, w1)" by fastforce
  then have w1: "pushed service w w1" using broker_pushed [OF assms(3), of w subj] by simp
  obtain t where t: "wait w1 = (t, w1)" using assms(2) [of w1] by (cases "wait w1") simp
  show ?case
    using c p t w1 pushed_trans [OF w1 Suc.IH]
    by (cases c; cases e; cases t) (simp_all add: Let_def case_prod_beta)
qed simp

lemma nats_transport_pushed:
  assumes "\<And>w. snd (ctx_done w) = w" and "\<And>w. snd (wait w) = w" and "nats_serviceName d = service" and "subject d = subj"
  shows "pushed service w (snd (nats_transport nc (broker_publish subj) ctx_done wait uuid d connId message w))"
proof -
  have m: "metadata (push_msg uuid service connId message) ''ServiceName'' = service"
    by (simp add: metadata_def push_msg_def)
  show ?thesis
    using nats_loop_pushed [OF assms(1,2) m] assms(3,4)
    by (simp add: nats_transport_def nats_Push_def Let_def case_prod_beta del: nats_loop.simps)
qed

lemma push_chain_pushed:
  assumes "\<And>c w. c \<in> set cs \<Longrightarrow> pushed service w (snd (push c connId message w))"
  shows "pushed service w (snd (snd (push_chain push connId message (map Some cs) e k w)))"
  using assms
proof (induction cs arbitrary: e k w)
  case (Cons c cs)
  obtain r w1 where p: "push c connId message w = (r, w1)" by fastforce
  have w1: "pushed service w w1" using Cons.prems [of c w] p by simp
  show ?case
    using p w1 pushed_trans [OF w1 Cons.IH] Cons.prems by (auto split: go.split option.split)
qed simp

text \<open>A node in queue mode only.\<close>

lemma node_pushed:
  assumes "grows grow" and "dc_reachable grow mq sys"
    and "\<not> has_mode (dc_mode (sys_cli sys)) ModeHTTP" and "\<not> has_mode (dc_mode (sys_cli sys)) ModeGRPC"
    and "\<And>w. snd (ctx_done w) = w" and "\<And>w. snd (wait w) = w" and "nats_serviceName d = service" and "subject d = subj"
  shows "pushed service w (snd (ws_fn (client_Push grpc_push
      (\<lambda>i. nats_transport nc (broker_publish subj) ctx_done wait uuid d) http_push) (sys_cli sys) connId message w))"
proof -
  let ?d = "sys_cli sys"
  let ?push = "client_Push grpc_push (\<lambda>i. nats_transport nc (broker_publish subj) ctx_done wait uuid d) http_push"
  have inv: "dc_inv mq ?d" using dc_reachable_inv [OF assms(2,1)] by (simp add: dc_sys_inv_def)
  then have chain: "slice_read (dc_chain ?d) (dc_store ?d) = map Some (by_priority ?d)"
    by (simp add: dc_inv_def chain_of_def)
  have each: "pushed service w (snd (?push c connId message w))" if "c \<in> set (by_priority ?d)" for c w
  proof -
    have "c = NatsNil \<or> (\<exists>i. c = Nats i)"
      using that inv assms(3,4) by (auto simp: dc_inv_def fields_inv_def by_priority_def opt_list_def split: option.splits)
    then show ?thesis using nats_transport_pushed [OF assms(5-8)] by (auto simp: client_Push_def)
  qed
  have "pushed service w (snd (snd (push_chain ?push connId message (map Some (by_priority ?d)) None 0 w)))"
    by (rule push_chain_pushed) (rule each)
  then show ?thesis unfolding ws_fn_world dc_Push_def chain Let_def by simp
qed

text \<open>What the login consumer does with a message of a node.\<close>

definition login_recorded ::
  "('b \<Rightarrow> string set) \<Rightarrow> ('b \<Rightarrow> string \<rightharpoonup> string) \<Rightarrow> (string \<Rightarrow> go_error + DeviceConnectReq) \<Rightarrow> string \<Rightarrow> 'b
     \<Rightarrow> qmsg \<Rightarrow> bool" where
  "login_recorded devs pres unmarshal service back m \<longleftrightarrow>
     (\<exists>req. unmarshal (msg_payload m) = Inr req \<and>
        (Cmd req = ''login'' \<longrightarrow>
           Sn req \<in> devs back \<and> pres back (GetCacheConn (Sn req)) = Some service))"

lemma settle_message_effect:
  assumes "backend_laws b devs pres" and "service \<noteq> []" and "metadata m ''ServiceName'' = service"
    and "settle_message unmarshal ctx b m back = (st, back')"
  shows "devs back' = devs back" and "pres back' k = pres back k \<or> pres back' k = Some service"
    and "st = Ack \<Longrightarrow> login_recorded devs pres unmarshal service back' m"
proof -
  have "devs back' = devs back \<and> (\<forall>k. pres back' k = pres back k \<or> pres back' k = Some service) \<and>
      (st = Ack \<longrightarrow> login_recorded devs pres unmarshal service back' m)"
  proof (cases "unmarshal (msg_payload m)")
    case (Inl err)
    then show ?thesis using assms(4) by (simp add: settle_message_def processMessage_def)
  next
    case (Inr req)
    define req' where "req' = (if metadata m ''ConnId'' \<noteq> [] then req\<lparr>ConnId := metadata m ''ConnId''\<rparr> else req)
        \<lparr>ServiceName := service\<rparr>"
    have f: "Cmd req' = Cmd req" "Sn req' = Sn req" "ServiceName req' = service" by (simp_all add: req'_def)
    obtain r w1 where L: "logic_of (Cmd req') b req' back = (r, w1)" by fastforce
    then have s: "back' = w1" "st = (case r of Inl _ \<Rightarrow> Nack | Inr _ \<Rightarrow> Ack)"
      using assms(2,3,4) Inr
      by (auto simp: settle_message_def processMessage_def Iotdevice_def Let_def req'_def split: prod.splits sum.splits)
    show ?thesis
    proof (cases "Cmd req = ''login''")
      case True
      then have "login_Iotdevice b req' back = (r, w1)" using L f by (simp add: logic_of_def)
      from login_presence [OF assms(1) this] show ?thesis
        using s f Inr True by (auto simp: login_recorded_def split: sum.splits)
    next
      case False
      then show ?thesis using L f s Inr by (auto simp: logic_of_def error_Iotdevice_def login_recorded_def)
    qed
  qed
  then show "devs back' = devs back" and "pres back' k = pres back k \<or> pres back' k = Some service"
    and "st = Ack \<Longrightarrow> login_recorded devs pres unmarshal service back' m" by blast+
qed

text \<open>Processing another message of the node keeps what has been recorded.\<close>

lemma login_recorded_keep:
  assumes "backend_laws b devs pres" and "service \<noteq> []" and "metadata m ''ServiceName'' = service"
    and "settle_message unmarshal ctx b m back = (st, back')"
    and "login_recorded devs pres unmarshal service back x"
  shows "login_recorded devs pres unmarshal service back' x"
proof -
  note eff = settle_message_effect [OF assms(1-4)]
  have "pres back' k = Some service" if "pres back k = Some service" for k
    using that eff(2) [of k] by auto
  then show ?thesis using assms(5) unfolding login_recorded_def eff(1) by blast
qed

section \<open>The invariant\<close>

definition path_inv ::
  "('b \<Rightarrow> string set) \<Rightarrow> ('b \<Rightarrow> string \<rightharpoonup> string) \<Rightarrow> (string \<Rightarrow> go_error + DeviceConnectReq) \<Rightarrow> string \<Rightarrow> 'b queues
     \<Rightarrow> bool" where
  "path_inv devs pres unmarshal service w \<longleftrightarrow>
     mset (qw_accepted w) = mset (qw_main w) + mset (qw_login w) + mset (qw_dropped w) + mset (qw_done w) \<and>
     (\<forall>m\<in>set (qw_main w) \<union> set (qw_login w). metadata m ''ServiceName'' = service) \<and>
     (\<forall>m\<in>set (qw_dropped w). extractCmd (msg_payload m) \<noteq> ''login'') \<and>
     (\<forall>m\<in>set (qw_login w) \<union> set (qw_done w). extractCmd (msg_payload m) = ''login'') \<and>
     (\<forall>m\<in>set (qw_done w). login_recorded devs pres unmarshal service (qw_back w) m)"

lemma path_inv_pushed: "path_inv devs pres unmarshal service w \<Longrightarrow> pushed service w w' \<Longrightarrow> path_inv devs pres unmarshal service w'"
  by (auto simp: path_inv_def pushed_def)

lemma ingress_turn_inv:
  assumes "path_inv devs pres unmarshal service w" and "m \<in> set (qw_main w)"
  shows "path_inv devs pres unmarshal service (ingress_turn subj m w)"
proof -
  obtain ms where ms: "remove1 m (qw_main w) = ms" and mset: "mset (qw_main w) = add_mset m (mset ms)"
    and sub: "set ms \<subseteq> set (qw_main w)"
    using assms(2) set_remove1_subset [of m "qw_main w"] by simp
  have ne: "subj @ ''_login'' \<noteq> subj" by simp
  have inv: "mset (qw_accepted w) = add_mset m (mset ms) + mset (qw_login w) + mset (qw_dropped w) + mset (qw_done w)"
    "metadata m ''ServiceName'' = service" "\<forall>m\<in>set ms. metadata m ''ServiceName'' = service"
    "\<forall>m\<in>set (qw_login w). metadata m ''ServiceName'' = service"
    using assms sub by (auto simp: path_inv_def mset)
  show ?thesis
  proof (cases "extractCmd (msg_payload m) = ''login''")
    case True
    then show ?thesis
      using assms(1) inv ne ms
      by (cases "broker_answer (w\<lparr>qw_main := ms\<rparr>)")
        (auto simp: ingress_turn_def ingress_def HandleAllNatsMessage_def cmdWorkers_def broker_publish_def
          path_inv_def Let_def)
  next
    case False
    then have "ingress_turn subj m w = w\<lparr>qw_main := ms, qw_dropped := m # qw_dropped w\<rparr>"
      by (simp add: ingress_turn_def ingress_def HandleAllNatsMessage_def cmdWorkers_dom ms Let_def)
    then show ?thesis using assms(1) inv False by (auto simp: path_inv_def)
  qed
qed

lemma login_turn_inv:
  assumes "path_inv devs pres unmarshal service w" and "m \<in> set (qw_login w)"
    and "backend_laws b devs pres" and "service \<noteq> []"
  shows "path_inv devs pres unmarshal service (login_turn unmarshal ctx b m w)"
proof -
  obtain st bk where S: "settle_message unmarshal ctx b m (qw_back w) = (st, bk)" by fastforce
  have m: "metadata m ''ServiceName'' = service" "extractCmd (msg_payload m) = ''login''"
    using assms(1,2) by (auto simp: path_inv_def)
  note eff = settle_message_effect [OF assms(3,4) m(1) S]
  note keep = login_recorded_keep [OF assms(3,4) m(1) S]
  obtain ls where ls: "remove1 m (qw_login w) = ls" and ms: "mset (qw_login w) = add_mset m (mset ls)"
    and sub: "set ls \<subseteq> set (qw_login w)"
    using assms(2) set_remove1_subset [of m "qw_login w"] by simp
  have turn: "login_turn unmarshal ctx b m w = (case st of
      Ack \<Rightarrow> w\<lparr>qw_back := bk, qw_login := ls, qw_done := m # qw_done w\<rparr>
    | Nack \<Rightarrow> w\<lparr>qw_back := bk, qw_login := ls @ [m]\<rparr>)"
    by (simp add: login_turn_def S ls split: settle.split)
  have inv: "mset (qw_accepted w) = mset (qw_main w) + add_mset m (mset ls) + mset (qw_dropped w) + mset (qw_done w)"
    "\<forall>m\<in>set (qw_main w) \<union> set (qw_login w). metadata m ''ServiceName'' = service"
    "\<forall>m\<in>set (qw_dropped w). extractCmd (msg_payload m) \<noteq> ''login''"
    "\<forall>m\<in>set (qw_login w) \<union> set (qw_done w). extractCmd (msg_payload m) = ''login''"
    "\<forall>m\<in>set (qw_done w). login_recorded devs pres unmarshal service bk m"
    using assms(1) keep by (auto simp: path_inv_def ms)
  show ?thesis
  proof (cases st)
    case Ack
    then show ?thesis unfolding turn path_inv_def using inv m sub eff(3) by (auto simp: subset_iff)
  next
    case Nack
    then show ?thesis unfolding turn path_inv_def using inv m sub by (auto simp: subset_iff)
  qed
qed

lemma path_inv_reachable:
  assumes "path_reachable (ws_fn (client_Push grpc_push
        (\<lambda>i. nats_transport nc (broker_publish subj) ctx_done wait uuid d) http_push) (sys_cli sys))
        subj unmarshal ctx b x"
    and "grows grow" and "dc_reachable grow mq sys"
    and "\<not> has_mode (dc_mode (sys_cli sys)) ModeHTTP" and "\<not> has_mode (dc_mode (sys_cli sys)) ModeGRPC"
    and "\<And>w. snd (ctx_done w) = w" and "\<And>w. snd (wait w) = w"
    and "nats_serviceName d = service" and "subject d = subj" and "service \<noteq> []" and "backend_laws b devs pres"
  shows "path_inv devs pres unmarshal service (snd x)"
  using assms(1)
proof (induction rule: path_reachable.induct)
  case (path_init outcomes bk)
  show ?case by (simp add: path_inv_def path_start_def)
next
  case (path_more x y)
  from path_more.hyps(2) show ?case
  proof (cases rule: path_step.cases)
    case (at_node g w g' w')
    then have "pushed service w w'"
      using gw_step_world [OF at_node(3)] node_pushed [OF assms(2-9)] by auto
    then show ?thesis using path_inv_pushed path_more.IH at_node by simp
  next
    case (at_ingress m w g)
    then show ?thesis using ingress_turn_inv path_more.IH by simp
  next
    case (at_login m w g)
    then show ?thesis using login_turn_inv [OF _ _ assms(11,10)] path_more.IH by simp
  qed
qed

text \<open>
  No login is lost on the queue: however the events of a queue-only node's sockets, the broker's refusals and
  the turns of the service's two consumers are interleaved, every message a push has had accepted is on
  exactly one of its ways - waiting at the ingress, waiting for the login consumer, acknowledged by it, or
  dropped -; a message whose command reads "login" is never dropped; and of every acknowledged one that decodes to a
  login the device is known and its presence key names the node's service.
\<close>

theorem queue_path_loses_nothing:
  assumes "path_reachable (ws_fn (client_Push grpc_push
        (\<lambda>i. nats_transport nc (broker_publish subj) ctx_done wait uuid d) http_push) (sys_cli sys))
        subj unmarshal ctx b (g, w)"
    and "grows grow" and "dc_reachable grow mq sys"
    and "\<not> has_mode (dc_mode (sys_cli sys)) ModeHTTP" and "\<not> has_mode (dc_mode (sys_cli sys)) ModeGRPC"
    and "\<And>w. snd (ctx_done w) = w" and "\<And>w. snd (wait w) = w"
    and "nats_serviceName d = service" and "subject d = subj" and "service \<noteq> []" and "backend_laws b devs pres"
  shows "mset (qw_accepted w) = mset (qw_main w) + mset (qw_login w) + mset (qw_dropped w) + mset (qw_done w) \<and>
     (\<forall>m\<in>set (qw_dropped w). extractCmd (msg_payload m) \<noteq> ''login'') \<and>
     (\<forall>m\<in>set (qw_done w). \<exists>req. unmarshal (msg_payload m) = Inr req \<and>
        (Cmd req = ''login'' \<longrightarrow>
           Sn req \<in> devs (qw_back w) \<and> pres (qw_back w) (GetCacheConn (Sn req)) = Some service))"
  using path_inv_reachable [OF assms] by (auto simp: path_inv_def login_recorded_def)

text \<open>A device logs in over the queue, at the second attempt of the broker.\<close>

definition path_req :: DeviceConnectReq where
  "path_req = empty_req\<lparr>Cmd := ''login'', Sn := ''d1''\<rparr>"

definition path_fn :: "(string set \<times> (string \<rightharpoonup> string)) queues fn" where
  "path_fn = ws_fn (client_Push (\<lambda>_ _ _ w. (Panic [], w))
     (\<lambda>i. nats_transport (TextError []) (broker_publish ''iot'') (\<lambda>w. (None, w)) (\<lambda>w. (None, w)) ''u''
        \<lparr>has_conn = True, nats_serviceName = ''ws'', subject = ''iot'', nats_retryCount = 3\<rparr>)
     (\<lambda>_ _ _ w. (Panic [], w))) (sys_cli (start_sys ''nats''))"

lemma nats_sys_fields:
  "dc_mode (sys_cli (start_sys ''nats'')) = 4" "by_priority (sys_cli (start_sys ''nats'')) = [Nats 0]"
  by (simp_all add: start_sys_def NewDeviceCli_def initLocked_def mode_words Let_def new_client_defs zero_cli_def)
    (simp add: by_priority_def)

definition demo_msg :: qmsg where
  "demo_msg = push_msg ''u'' ''ws'' [] (login_text True ''d1'')"

definition demo_start :: "(string set \<times> (string \<rightharpoonup> string)) queues" where
  "demo_start = path_start [Some (TextError ''busy'')] ({''d1''}, Map.empty)"

abbreviation demo_accepted :: "(string set \<times> (string \<rightharpoonup> string)) queues" where
  "demo_accepted \<equiv> demo_start\<lparr>qw_outcomes := [], qw_main := [demo_msg], qw_accepted := [demo_msg]\<rparr>"

abbreviation demo_routed :: "(string set \<times> (string \<rightharpoonup> string)) queues" where
  "demo_routed \<equiv> demo_accepted\<lparr>qw_main := [], qw_login := [demo_msg]\<rparr>"

abbreviation demo_recorded :: "(string set \<times> (string \<rightharpoonup> string)) queues" where
  "demo_recorded \<equiv> demo_routed\<lparr>qw_login := [], qw_done := [demo_msg],
     qw_back := ({''d1''}, [GetCacheConn ''d1'' \<mapsto> ''ws''])\<rparr>"

lemma demo_command: "extractCmd (msg_payload demo_msg) = ''login''"
  unfolding demo_msg_def push_msg_def by code_simp

lemma demo_push_step: "\<exists>g. gw_step path_fn (gw_start, demo_start) (g, demo_accepted)"
proof -
  let ?msg = "login_text True ''d1''" and ?sys = "start_sys ''nats''"
  have chain: "slice_read (dc_chain (sys_cli ?sys)) (dc_store (sys_cli ?sys)) = [Some (Nats 0)]"
    using dc_reachable_inv [OF start_sys_reachable grows_exact, of "''nats''"] nats_sys_fields
    by (simp add: dc_sys_inv_def dc_inv_def chain_of_def)
  have fn: "path_fn [] ?msg demo_start = (Ret ([], False, None), demo_accepted)"
    by (simp add: path_fn_def ws_fn_def Iotws_def dc_Push_def chain client_Push_def nats_transport_def nats_Push_def
        broker_publish_def broker_answer_def path_start_def demo_start_def demo_msg_def numeral_3_eq_3 Let_def)
  obtain g where O: "OnMessage path_fn 1 OpcodeText ?msg (gw_start, demo_start) = (g, demo_accepted)"
    using fn by (simp add: OnMessage_def OnMessage_after_def OnMessage_new_def gw_start_def Let_def)
  then show ?thesis
    using gw_step.message [of path_fn gw_start demo_start 1 OpcodeText ?msg] by (intro exI [of _ g]) simp
qed

lemma demo_push: "\<exists>g. path_reachable path_fn ''iot'' (\<lambda>_. Inr path_req) no_span mem_backend (g, demo_accepted)"
  using demo_push_step unfolding demo_start_def by (blast intro: path_more path_init at_node)

lemma demo_ingress: "ingress_turn ''iot'' demo_msg demo_accepted = demo_routed"
  using demo_command
  by (simp add: ingress_turn_def ingress_def HandleAllNatsMessage_def cmdWorkers_def
      broker_publish_def broker_answer_def demo_start_def path_start_def Let_def)

lemma demo_login: "login_turn (\<lambda>_. Inr path_req) no_span mem_backend demo_msg demo_routed = demo_recorded"
  by (simp add: login_turn_def settle_message_def processMessage_def metadata_def demo_msg_def push_msg_def path_req_def
      empty_req_def Iotdevice_def logic_of_def login_Iotdevice_def mem_backend_def GetOneBySn_def demo_start_def
      path_start_def Let_def)

lemma demo_modes:
  "\<not> has_mode (dc_mode (sys_cli (start_sys ''nats''))) ModeHTTP" "\<not> has_mode (dc_mode (sys_cli (start_sys ''nats''))) ModeGRPC"
  by (simp_all add: nats_sys_fields)

theorem queue_path_loses_nothing_witness:
  "\<exists>g w m. path_reachable path_fn ''iot'' (\<lambda>_. Inr path_req) no_span mem_backend (g, w) \<and>
     qw_accepted w = [m] \<and> qw_main w = [] \<and> qw_login w = [] \<and> qw_done w = [m] \<and>
     snd (qw_back w) (GetCacheConn ''d1'') = Some ''ws''"
proof -
  let ?reach = "path_reachable path_fn ''iot'' (\<lambda>_. Inr path_req) no_span mem_backend"
  obtain g where 1: "?reach (g, demo_accepted)" using demo_push by blast
  have "demo_msg \<in> set (qw_main demo_accepted)" by simp
  from path_more [OF 1 at_ingress [OF this]] have 2: "?reach (g, demo_routed)" unfolding demo_ingress .
  have "demo_msg \<in> set (qw_login demo_routed)" by simp
  from path_more [OF 2 at_login [OF this]] have 3: "?reach (g, demo_recorded)" unfolding demo_login .
  have "snd (qw_back demo_recorded) (GetCacheConn (Sn path_req)) = Some ''ws''"
    using queue_path_loses_nothing [OF 3 [unfolded path_fn_def] grows_exact start_sys_reachable demo_modes
        _ _ _ _ _ mem_backend_laws]
    by (simp add: path_req_def empty_req_def)
  then show ?thesis
    using 3 by (intro exI [of _ g] exI [of _ demo_recorded] exI [of _ demo_msg])
      (simp add: demo_start_def path_start_def path_req_def empty_req_def)
qed

end
