(* ===== verification/Notice.thy ===== *)
theory Notice
  imports WsLogic
begin

text \<open>
  Notices, from the client (\<open>src/pkg/wscli\<close>) to the entry of a node (\<open>iotnoticehandler.go\<close>). The client posts
  an id and bytes as JSON, the bytes in base64, as \<open>encoding/json\<close> writes a \<open>[]byte\<close>.

  \<open>post\<close> is the HTTP client's \<open>Post\<close>: URL, content type and body. How \<open>httpx.Parse\<close> reads the body is not
  modelled; \<open>decode_notice\<close> is \<open>encoding/json\<close>'s reading into the node's request type.
\<close>

section \<open>Base64\<close>

definition b64_char :: "nat \<Rightarrow> char" where
  "b64_char n =
     (if n < 26 then char_of (65 + n) else if n < 52 then char_of (71 + n)
      else if n < 62 then char_of (n - 4) else if n = 62 then CHR ''+'' else CHR ''/'')"

definition b64_value :: "char \<Rightarrow> nat option" where
  "b64_value c =
     (let b = byte c in
      if 65 \<le> b \<and> b \<le> 90 then Some (b - 65) else if 97 \<le> b \<and> b \<le> 122 then Some (b - 71)
      else if 48 \<le> b \<and> b \<le> 57 then Some (b + 4) else if b = 43 then Some 62 else if b = 47 then Some 63
      else None)"

abbreviation pad_char :: char where "pad_char \<equiv> CHR ''=''"

fun base64 :: "string \<Rightarrow> string" where
  "base64 [] = []"
| "base64 [a] = [b64_char (byte a div 4), b64_char (byte a mod 4 * 16), pad_char, pad_char]"
| "base64 [a, b] =
     [b64_char (byte a div 4), b64_char (byte a mod 4 * 16 + byte b div 16), b64_char (byte b mod 16 * 4), pad_char]"
| "base64 (a # b # c # r) =
     b64_char (byte a div 4) # b64_char (byte a mod 4 * 16 + byte b div 16) #
     b64_char (byte b mod 16 * 4 + byte c div 64) # b64_char (byte c mod 64) # base64 r"

text \<open>\<open>StdEncoding.DecodeString\<close> after its line breaks: groups of four, padding in the last only.\<close>

fun b64_groups :: "string \<Rightarrow> string option" where
  "b64_groups [] = Some []"
| "b64_groups (a # b # c # d # r) =
     (case (b64_value a, b64_value b) of
        (Some x, Some y) \<Rightarrow>
          if c = pad_char then (if d = pad_char \<and> r = [] then Some [char_of (x * 4 + y div 16)] else None)
          else
            (case b64_value c of
               None \<Rightarrow> None
             | Some z \<Rightarrow>
                 if d = pad_char
                 then (if r = [] then Some [char_of (x * 4 + y div 16), char_of (y mod 16 * 16 + z div 4)] else None)
                 else
                   (case b64_value d of
                      None \<Rightarrow> None
                    | Some u \<Rightarrow> map_option (\<lambda>s. char_of (x * 4 + y div 16) # char_of (y mod 16 * 16 + z div 4) #
                                               char_of (z mod 4 * 64 + u) # s) (b64_groups r)))
      | _ \<Rightarrow> None)"
| "b64_groups _ = None"

definition unbase64 :: "string \<Rightarrow> string option" where
  "unbase64 s = b64_groups (filter (\<lambda>c. c \<notin> {CHR 0x0A, CHR 0x0D}) s)"

lemma byte_b64_char:
  "n < 64 \<Longrightarrow> byte (b64_char n) =
     (if n < 26 then 65 + n else if n < 52 then 71 + n else if n < 62 then n - 4 else if n = 62 then 43 else 47)"
  by (simp add: b64_char_def byte_def)

lemma b64_char_value [simp]:
  assumes "n < 64"
  shows "b64_value (b64_char n) = Some n" and "b64_char n \<noteq> pad_char" and "plain_char True (b64_char n)"
proof -
  have b: "byte (b64_char n) = (if n < 26 then 65 + n else if n < 52 then 71 + n else if n < 62 then n - 4
      else if n = 62 then 43 else 47)"
    by (rule byte_b64_char [OF assms])
  show "b64_value (b64_char n) = Some n"
    using assms by (auto simp: b64_value_def b Let_def)
  have ne: "b64_char n \<noteq> c" if "byte c \<in> {0x0A, 0x0D, 34, 38, 60, 61, 62, 92}" for c
    using that b assms by (auto split: if_splits)
  show "b64_char n \<noteq> pad_char" by (rule ne) (simp add: byte_def)
  have "byte (b64_char n) < 0x80" "0x20 \<le> byte (b64_char n)" using b assms by (auto split: if_splits)
  moreover note ne [of quote] ne [of backslash] ne [of "CHR ''<''"] ne [of "CHR ''>''"] ne [of "CHR ''&''"]
  ultimately show "plain_char True (b64_char n)"
    unfolding plain_char_def by (simp add: byte_def quote_def backslash_def)
qed

lemma sextets [simp]:
  "byte a div 4 < 64" "byte a mod 4 * 16 < 64" "byte a mod 4 * 16 + byte b div 16 < 64" "byte b mod 16 * 4 < 64"
  "byte b mod 16 * 4 + byte c div 64 < 64" "byte c mod 64 < 64"
proof -
  have "byte a div 4 < 64" "byte b div 16 < 16" "byte c div 64 < 4"
    using byte_lt [of a] byte_lt [of b] byte_lt [of c] by (simp_all add: less_mult_imp_div_less)
  moreover have "byte a mod 4 < 4" "byte b mod 16 < 16" by simp_all
  ultimately show "byte a div 4 < 64" "byte a mod 4 * 16 < 64" "byte a mod 4 * 16 + byte b div 16 < 64"
    "byte b mod 16 * 4 < 64" "byte b mod 16 * 4 + byte c div 64 < 64" "byte c mod 64 < 64"
    by linarith+
qed

lemma parts [simp]:
  "byte b div 16 div 16 = 0" "byte c div 64 div 4 = 0"
  "byte b div 16 mod 16 * 16 + byte b mod 16 = byte b" "byte c div 64 mod 4 * 64 + byte c mod 64 = byte c"
proof -
  have "byte b div 16 < 16" "byte c div 64 < 4"
    using byte_lt [of b] byte_lt [of c] by (simp_all add: less_mult_imp_div_less)
  then show "byte b div 16 div 16 = 0" "byte c div 64 div 4 = 0"
    "byte b div 16 mod 16 * 16 + byte b mod 16 = byte b" "byte c div 64 mod 4 * 64 + byte c mod 64 = byte c"
    by (simp_all add: div_mult_mod_eq)
qed

lemma groups_base64: "b64_groups (base64 s) = Some s"
  by (induction s rule: base64.induct) simp_all

lemma base64_plain: "list_all (plain_char True) (base64 s)"
proof -
  have "plain_char True pad_char" by (simp add: plain_char_def byte_def quote_def backslash_def)
  then show ?thesis by (induction s rule: base64.induct) simp_all
qed

lemma unbase64_base64: "unbase64 (base64 s) = Some s"
proof -
  have "c \<notin> {CHR 0x0A, CHR 0x0D}" if "plain_char True c" for c
    using that by (auto simp: plain_char_def byte_def)
  then have "filter (\<lambda>c. c \<notin> {CHR 0x0A, CHR 0x0D}) (base64 s) = base64 s"
    using base64_plain [of s] unfolding list_all_iff by (intro filter_True) blast
  then show ?thesis by (simp only: unbase64_def groups_base64)
qed

section \<open>The client\<close>

text \<open>\<open>wscli.Request\<close>, which is \<open>types.Ntice\<close> under another name; the bytes may be nil.\<close>

record notice =
  nt_id :: string
  nt_data :: "string option"

text \<open>The URL: its function ignores what the constructor was given.\<close>

definition ws_url :: string where "ws_url = ''http://:0/notice''"

definition notice_body :: "notice \<Rightarrow> string" where
  "notice_body n = json_object True
     [(''id'', json_quote True (nt_id n)),
      (''data'', case nt_data n of None \<Rightarrow> ''null'' | Some d \<Rightarrow> json_quote True (base64 d))]"

text \<open>\<open>Push\<close>: the answer of the post, if there is one.\<close>

definition wscli_Push ::
  "(string \<Rightarrow> string \<Rightarrow> string \<Rightarrow> 'w \<Rightarrow> (go_error + 'r) \<times> 'w) \<Rightarrow> string \<Rightarrow> notice \<Rightarrow> 'w \<Rightarrow> (go_error + 'r option) \<times> 'w" where
  "wscli_Push post event n w =
     (if event = ''queue'' then (Inr None, w)
      else if event = ''http''
      then (case post ws_url ''application/json'' (notice_body n) w of
              (Inl err, w') \<Rightarrow> (Inl err, w')
            | (Inr resp, w') \<Rightarrow> (Inr (Some resp), w'))
      else (Inr None, w))"

definition wscli_Pull :: "'w \<Rightarrow> (go_error + string option) \<times> 'w" where
  "wscli_Pull w = (Inr None, w)"

section \<open>The reader\<close>

definition notice_fields :: "(string \<times> field_kind) list" where
  "notice_fields = [(''id'', FString), (''data'', FString)]"

definition decode_notice :: "(json_error \<Rightarrow> go_error) \<Rightarrow> go_error \<Rightarrow> string \<Rightarrow> go_error + (string \<times> string)" where
  "decode_notice json_err corrupt body =
     (case json_Unmarshal notice_fields body of
        Inl e \<Rightarrow> Inl (json_err e)
      | Inr f \<Rightarrow> (case unbase64 (f ''data'') of None \<Rightarrow> Inl corrupt | Some d \<Rightarrow> Inr (f ''id'', d)))"

lemma decode_notice_body:
  "decode_notice json_err corrupt (notice_body n) =
     Inr (to_valid (nt_id n), case nt_data n of None \<Rightarrow> [] | Some d \<Rightarrow> d)"
proof -
  have p: "list_all (plain_char True) ''id''" "list_all (plain_char True) ''data''"
    by (simp_all add: plain_char_def byte_def quote_def backslash_def)
  have v: "to_valid (base64 d) = base64 d" for d by (rule to_valid_plain [OF base64_plain])
  let ?ms = "[(''id'', json_quote True (nt_id n), JString (to_valid (nt_id n))),
      (''data'', case nt_data n of None \<Rightarrow> ''null'' | Some d \<Rightarrow> json_quote True (base64 d),
        case nt_data n of None \<Rightarrow> JNull | Some d \<Rightarrow> JString (base64 d))]"
  have "renders 0 (json_object True (map (\<lambda>(k, t, v). (k, t)) ?ms))
      (JObject (map (\<lambda>(k, t, v). (to_valid k, t, v)) ?ms))"
    using renders_string [where html = True] renders_null v
    by (intro renders_object) (auto simp: maxNestingDepth_def split: option.split, metis)
  then have "json_Unmarshal notice_fields (notice_body n) =
      decode_struct notice_fields (JObject (map (\<lambda>(k, t, v). (to_valid k, t, v)) ?ms))"
    unfolding notice_body_def by (intro json_Unmarshal_renders) simp
  then show ?thesis
    by (cases "nt_data n") (simp_all add: p [THEN to_valid_plain] decode_struct_def set_member_def find_field_def
      notice_fields_def decode_notice_def unbase64_base64 unbase64_base64 [of "[]", simplified])
qed


end
