(* ===== verification/Alarm.thy ===== *)
theory Alarm
  imports GoJson GoError
begin

text \<open>
  The alarm sender (\<open>src/pkg/alarm/alarm.go\<close>): a text, with the trace of its context in front, posted as JSON to the
  webhook of a chat group, and the answer read from JSON.

  Parameters: \<open>new_request\<close> is the error of building a request for a URL, \<open>post\<close> the HTTP client, which answers an
  error or a body, \<open>json_err\<close> the decoder's errors.
\<close>

section \<open>The sender and its text\<close>

record alarm_conf =
  al_key :: string
  al_enabled :: bool
  al_timeout :: int

record wechat_sender =
  ws_key :: string
  ws_timeout :: int   \<comment> \<open>seconds\<close>

text \<open>\<open>New\<close>: \<open>env_key\<close> is the value of \<open>WECHAT_WEBHOOK_KEY\<close>.\<close>

definition alarm_New :: "string \<Rightarrow> alarm_conf \<Rightarrow> wechat_sender option" where
  "alarm_New env_key cfg =
     (let key = (if al_key cfg = [] then env_key else al_key cfg) in
      if key = [] \<or> \<not> al_enabled cfg then None
      else Some \<lparr>ws_key = key, ws_timeout = (if al_timeout cfg \<le> 0 then 10 else al_timeout cfg)\<rparr>)"

definition webhookBaseURL :: string where
  "webhookBaseURL = ''https://qyapi.weixin.qq.com/cgi-bin/webhook/send''"

definition webhook_url :: "wechat_sender \<Rightarrow> string" where
  "webhook_url s = webhookBaseURL @ ''?key='' @ ws_key s"

definition alarm_formatMessage :: "span_ctx \<Rightarrow> string \<Rightarrow> string" where
  "alarm_formatMessage sc message =
     (if \<not> span_valid sc then message
      else
        (let sb0 = ''['';
             sb1 = (if trace_text sc \<noteq> [] then sb0 @ ''trace:'' @ trace_text sc else sb0);
             sb2 = (if span_text sc \<noteq> []
                    then (if length sb1 > 1 then sb1 @ '' '' else sb1) @ ''span:'' @ span_text sc else sb1)
         in sb2 @ ''] '' @ message))"

text \<open>The message is always the end of the text, whatever the context.\<close>

lemma alarm_formatMessage_suffix: "suffix message (alarm_formatMessage sc message)"
  by (auto simp: alarm_formatMessage_def Let_def suffix_def)

section \<open>Sending\<close>

definition webhook_body :: "string \<Rightarrow> string" where
  "webhook_body content = json_object True
     [(''msgtype'', json_quote True ''text''), (''text'', marshal_strings True [(''content'', content)])]"

definition webhookResp_fields :: "(string \<times> field_kind) list" where
  "webhookResp_fields = [(''errcode'', FInt), (''errmsg'', FString)]"

text \<open>The answer's code and text; a missing code is 0.\<close>

definition webhookResp :: "(json_error \<Rightarrow> go_error) \<Rightarrow> string \<Rightarrow> go_error + int \<times> string" where
  "webhookResp json_err body =
     (case json_Decode webhookResp_fields body of
        Inl e \<Rightarrow> Inl (json_err e)
      | Inr f \<Rightarrow> Inr (case parse_int64 (f ''errcode'') of None \<Rightarrow> 0 | Some i \<Rightarrow> i, f ''errmsg''))"

definition alarm_Send ::
  "(string \<Rightarrow> go_error option) \<Rightarrow> (string \<Rightarrow> string \<Rightarrow> 'w \<Rightarrow> (go_error + string) \<times> 'w) \<Rightarrow> (json_error \<Rightarrow> go_error) \<Rightarrow>
     span_ctx \<Rightarrow> wechat_sender \<Rightarrow> string \<Rightarrow> 'w \<Rightarrow> go_error option \<times> 'w" where
  "alarm_Send new_request post json_err sc s message w =
     (case new_request (webhook_url s) of
        Some e \<Rightarrow> (Some (WrapError ''build request'' e), w)
      | None \<Rightarrow>
          (case post (webhook_url s) (webhook_body (alarm_formatMessage sc message)) w of
             (Inl e, w') \<Rightarrow> (Some (WrapError ''post'' e), w')
           | (Inr body, w') \<Rightarrow>
               (case webhookResp json_err body of
                  Inl e \<Rightarrow> (Some (WrapError ''decode response'' e), w')
                | Inr (code, txt) \<Rightarrow>
                    (if code \<noteq> 0
                     then Some (TextError (''wechat api: errcode='' @ itoa code @ '' errmsg='' @ txt))
                     else None, w'))))"

section \<open>What the chat group reads\<close>

lemma to_valid_names:
  "to_valid ''msgtype'' = ''msgtype''" "to_valid ''text'' = ''text''" "to_valid ''content'' = ''content''"
  by (rule to_valid_plain [of True]; simp add: plain_char_def byte_def quote_def backslash_def)+

text \<open>The value of the body, whatever the bytes of the text.\<close>

lemma webhook_body_value:
  "renders 0 (webhook_body content)
     (JObject [(''msgtype'', json_quote True ''text'', JString ''text''),
               (''text'', marshal_strings True [(''content'', content)],
                  JObject [(''content'', json_quote True content, JString (to_valid content))])])"
proof -
  have d: "Suc 0 < maxNestingDepth" "(0::nat) < maxNestingDepth" by (simp_all add: maxNestingDepth_def)
  let ?inner = "JObject [(''content'', json_quote True content, JString (to_valid content))]"
  let ?ms = "[(''msgtype'', json_quote True ''text'', JString ''text''),
      (''text'', marshal_strings True [(''content'', content)], ?inner)]"
  have t: "renders (Suc 0) (json_quote True ''text'') (JString ''text'')"
    using renders_string [of "Suc 0" True "''text''"] by (simp only: to_valid_names)
  have i: "renders (Suc 0) (marshal_strings True [(''content'', content)]) ?inner"
    using renders_strings [OF d(1), of True "[(''content'', content)]"]
    by (simp only: list.map prod.case to_valid_names)
  have "renders 0 (json_object True (map (\<lambda>(k, t, v). (k, t)) ?ms)) (JObject (map (\<lambda>(k, t, v). (to_valid k, t, v)) ?ms))"
    by (rule renders_object [OF d(2)]) (use t i in \<open>auto simp del: to_valid.simps\<close>)
  then show ?thesis by (simp only: list.map prod.case to_valid_names webhook_body_def)
qed

lemma valid_suffix_plain: "list_all (plain_char html) s \<Longrightarrow> to_valid (s @ t) = s @ to_valid t"
proof (induction s)
  case (Cons c s)
  then have "byte c < 0x80" by (simp add: plain_char_def)
  then have "rune_len (c # s @ t) = 1" by (simp only: rune_len_one)
  then show ?case using Cons by (simp add: to_valid.simps(2))
qed simp

text \<open>The text as the group reads it: its message part is the message, made valid UTF-8.\<close>

lemma alarm_text_valid:
  assumes "list_all (plain_char True) (trace_text sc)" and "list_all (plain_char True) (span_text sc)"
  shows "\<exists>pre. to_valid (alarm_formatMessage sc message) = pre @ to_valid message \<and> (\<not> span_valid sc \<longrightarrow> pre = [])"
proof -
  have p: "list_all (plain_char True) ''[''" "list_all (plain_char True) ''] ''" "list_all (plain_char True) ''trace:''"
    "list_all (plain_char True) ''span:''" "list_all (plain_char True) '' ''"
    by (simp_all add: plain_char_def byte_def quote_def backslash_def)
  show ?thesis
  proof (cases "span_valid sc")
    case True
    define pre where "pre = (let sb1 = (if trace_text sc \<noteq> [] then ''['' @ ''trace:'' @ trace_text sc else ''['')
      in (if span_text sc \<noteq> []
          then (if length sb1 > 1 then sb1 @ '' '' else sb1) @ ''span:'' @ span_text sc else sb1) @ ''] '')"
    have f: "alarm_formatMessage sc message = pre @ message"
      by (simp add: alarm_formatMessage_def pre_def Let_def True)
    have "list_all (plain_char True) pre"
      unfolding pre_def Let_def using assms p by (simp only: list_all_append split: if_split) simp
    then show ?thesis using True valid_suffix_plain [of True pre message] f by auto
  qed (simp add: alarm_formatMessage_def)
qed

text \<open>
  C39. An alarm is read by the chat group as it was sent, and \<open>Send\<close> tells whether it was. The posted body is one JSON
  object of type \<open>text\<close> whose content ends in the message (made valid UTF-8), with the trace in front only if the
  context has one; nothing is posted if no request can be built; and \<open>Send\<close> answers no error exactly if the
  request was built and posted and the answer is JSON with the code 0.
\<close>

theorem alarm_reaches_group:
  assumes "list_all (plain_char True) (trace_text sc)" and "list_all (plain_char True) (span_text sc)"
  shows "(\<exists>raw pre. json_value 0 (webhook_body (alarm_formatMessage sc message)) =
       Some (JObject [(''msgtype'', json_quote True ''text'', JString ''text''),
         (''text'', raw, JObject [(''content'', json_quote True (alarm_formatMessage sc message),
            JString (pre @ to_valid message))])], []) \<and> (\<not> span_valid sc \<longrightarrow> pre = [])) \<and>
    snd (alarm_Send new_request post json_err sc s message w) =
      (if new_request (webhook_url s) = None
       then snd (post (webhook_url s) (webhook_body (alarm_formatMessage sc message)) w) else w) \<and>
    (fst (alarm_Send new_request post json_err sc s message w) = None \<longleftrightarrow>
      new_request (webhook_url s) = None \<and>
      (\<exists>body txt. fst (post (webhook_url s) (webhook_body (alarm_formatMessage sc message)) w) = Inr body \<and>
         webhookResp json_err body = Inr (0, txt)))"
proof -
  obtain pre where pre: "to_valid (alarm_formatMessage sc message) = pre @ to_valid message"
    "\<not> span_valid sc \<longrightarrow> pre = []"
    using alarm_text_valid [OF assms] by blast
  have "json_value 0 (webhook_body (alarm_formatMessage sc message) @ []) =
      Some (JObject [(''msgtype'', json_quote True ''text'', JString ''text''),
         (''text'', marshal_strings True [(''content'', alarm_formatMessage sc message)],
            JObject [(''content'', json_quote True (alarm_formatMessage sc message),
               JString (to_valid (alarm_formatMessage sc message)))])], [])"
    using webhook_body_value [of "alarm_formatMessage sc message"] unfolding renders_def by blast
  then have "\<exists>raw pre. json_value 0 (webhook_body (alarm_formatMessage sc message)) =
       Some (JObject [(''msgtype'', json_quote True ''text'', JString ''text''),
         (''text'', raw, JObject [(''content'', json_quote True (alarm_formatMessage sc message),
            JString (pre @ to_valid message))])], []) \<and> (\<not> span_valid sc \<longrightarrow> pre = [])"
    using pre by auto
  then show ?thesis by (auto simp: alarm_Send_def split: option.split prod.split sum.split)
qed

theorem alarm_reaches_group_witness:
  "let sc = \<lparr>span_valid = True, has_trace_id = True, trace_text = ''4bf9'', span_text = ''00f0''\<rparr>;
       s = \<lparr>ws_key = ''k'', ws_timeout = 10\<rparr>;
       post = (\<lambda>url body w. (Inr ''{\"errcode\":0}'', w @ [body])) in
   alarm_formatMessage sc ''m'' = ''[trace:4bf9 span:00f0] m'' \<and>
   snd (alarm_Send (\<lambda>_. None) post (\<lambda>_. TextError ''json'') sc s ''m'' []) =
     [webhook_body ''[trace:4bf9 span:00f0] m'']"
proof -
  let ?sc = "\<lparr>span_valid = True, has_trace_id = True, trace_text = ''4bf9'', span_text = ''00f0''\<rparr>"
  have p: "list_all (plain_char True) (trace_text ?sc)" "list_all (plain_char True) (span_text ?sc)"
    by (simp_all add: plain_char_def byte_def quote_def backslash_def)
  show ?thesis
    using alarm_reaches_group [OF p, of "''m''" "\<lambda>_. None" "\<lambda>url body w. (Inr ''{\"errcode\":0}'', w @ [body])"
        "\<lambda>_. TextError ''json''" "\<lparr>ws_key = ''k'', ws_timeout = 10\<rparr>" "[]"]
    by (simp add: alarm_formatMessage_def Let_def)
qed

end
