(* ===== verification/Clients.thy ===== *)
theory Clients
  imports Queues Registry
begin

text \<open>
  How the clients of third-party services are made and closed: the NATS queue (\<open>src/pkg/queue/nats/nats.go\<close>),
  the AMQP wrapper (\<open>src/pkg/queue/amqp/qmqp.go\<close>) and the Nacos configuration client
  (\<open>src/pkg/configcli/nacos/nacosClient.go\<close>). The libraries are records of functions over a world.
\<close>

section \<open>The NATS queue\<close>

record nats_config =
  nf_addresses :: "string list"
  nf_subject :: string
  nf_queueGroupPrefix :: string
  nf_durablePrefix :: string
  nf_autoProvision :: bool
  nf_subscribersCount :: int
  nf_maxAckPending :: int

record jetstream_config =
  jc_autoProvision :: bool
  jc_durablePrefix :: string
  jc_maxAckPending :: "int option"

record subscriber_config =
  sc_queueGroupPrefix :: string
  sc_subscribersCount :: int
  sc_jetstream :: jetstream_config

record 'w nats_lib =
  nl_connect :: "string \<Rightarrow> 'w \<Rightarrow> go_error option \<times> 'w"
  nl_jetstream :: "'w \<Rightarrow> go_error option \<times> 'w"
  nl_add_stream :: "string \<Rightarrow> string list \<Rightarrow> 'w \<Rightarrow> go_error option \<times> 'w"
  nl_new_publisher :: "jetstream_config \<Rightarrow> 'w \<Rightarrow> go_error option \<times> 'w"
  nl_new_subscriber :: "subscriber_config \<Rightarrow> 'w \<Rightarrow> go_error option \<times> 'w"
  nl_close_publisher :: "'w \<Rightarrow> go_error option \<times> 'w"
  nl_close_subscriber :: "'w \<Rightarrow> go_error option \<times> 'w"

record natscilent =
  nq_publisher :: bool
  nq_subscriber :: bool

text \<open>The stream is asked for in advance; that it cannot be had is only logged.\<close>

definition provision :: "'w nats_lib \<Rightarrow> nats_config \<Rightarrow> 'w \<Rightarrow> 'w" where
  "provision nl cfg w =
     (if nf_autoProvision cfg
      then (case nl_jetstream nl w of
              (Some _, w1) \<Rightarrow> w1
            | (None, w1) \<Rightarrow>
                snd (nl_add_stream nl (nf_subject cfg) [nf_subject cfg, nf_subject cfg @ ''.>''] w1))
      else w)"

definition jetstream_of :: "bool \<Rightarrow> nats_config \<Rightarrow> jetstream_config" where
  "jetstream_of auto cfg =
     \<lparr>jc_autoProvision = auto,
      jc_durablePrefix = (if nf_durablePrefix cfg = [] then nf_subject cfg else nf_durablePrefix cfg),
      jc_maxAckPending = (if nf_maxAckPending cfg > 0 then Some (nf_maxAckPending cfg) else None)\<rparr>"

definition NewNatsConnect :: "'w nats_lib \<Rightarrow> nats_config \<Rightarrow> 'w \<Rightarrow> (go_error + natscilent) \<times> 'w" where
  "NewNatsConnect nl cfg w =
     (case nl_connect nl (join_with '','' (nf_addresses cfg)) w of
        (Some err, w1) \<Rightarrow> (Inl err, w1)
      | (None, w1) \<Rightarrow>
          (case nl_new_publisher nl (jetstream_of False cfg) (provision nl cfg w1) of
             (Some err, w2) \<Rightarrow> (Inl err, w2)
           | (None, w2) \<Rightarrow>
               (case nl_new_subscriber nl
                       \<lparr>sc_queueGroupPrefix = nf_queueGroupPrefix cfg, sc_subscribersCount = nf_subscribersCount cfg,
                        sc_jetstream = jetstream_of (nf_autoProvision cfg) cfg\<rparr> w2 of
                  (Some err, w3) \<Rightarrow> (Inl err, w3)
                | (None, w3) \<Rightarrow> (Inr \<lparr>nq_publisher = True, nq_subscriber = True\<rparr>, w3))))"

text \<open>\<open>Close\<close> drops the errors of both.\<close>

definition nats_Close :: "'w nats_lib \<Rightarrow> natscilent \<Rightarrow> 'w \<Rightarrow> go_error option \<times> 'w" where
  "nats_Close nl q w =
     (let w1 = (if nq_publisher q then snd (nl_close_publisher nl w) else w);
          w2 = (if nq_subscriber q then snd (nl_close_subscriber nl w1) else w1)
      in (None, w2))"

section \<open>The queue of a configuration\<close>

record rabbit_config =
  rf_addresses :: "string list"
  rf_username :: string
  rf_password :: string
  rf_exchange :: string
  rf_exchangeType :: string
  rf_declareExchange :: bool

record mq_config =
  mf_type :: string
  mf_rabbit :: rabbit_config
  mf_nats :: nats_config

text \<open>
  Only the addresses of the RabbitMQ part are read: \<open>dial\<close> connects to them. The queue that is made is one of
  the two clients.
\<close>

datatype queue_client = RabbitQueue rabbit_client | NatsQueue natscilent

definition dial_rabbit ::
  "(string list \<Rightarrow> 'w \<Rightarrow> go_error option \<times> 'w) \<Rightarrow> rabbit_config \<Rightarrow> 'w \<Rightarrow> (go_error + rabbit_client) \<times> 'w" where
  "dial_rabbit dial cfg w =
     (case dial (rf_addresses cfg) w of (e, w') \<Rightarrow> (NewRabbitMQConnect e, w'))"

definition NewBroker ::
  "'w nats_lib \<Rightarrow> (string list \<Rightarrow> 'w \<Rightarrow> go_error option \<times> 'w) \<Rightarrow> mq_config \<Rightarrow> 'w
     \<Rightarrow> (go_error + queue_client) \<times> 'w" where
  "NewBroker nl dial cfg w =
     (if mf_type cfg = ''rabbitmq''
      then (case dial_rabbit dial (mf_rabbit cfg) w of
              (Inl err, w1) \<Rightarrow> (Inl err, w1)
            | (Inr q, w1) \<Rightarrow> (Inr (RabbitQueue q), w1))
      else if mf_type cfg = ''nats''
      then (case NewNatsConnect nl (mf_nats cfg) w of
              (Inl err, w1) \<Rightarrow> (Inl err, w1)
            | (Inr q, w1) \<Rightarrow> (Inr (NatsQueue q), w1))
      else (Inl (TextError (''unsupported MQ type: '' @ mf_type cfg)), w))"

section \<open>The AMQP wrapper\<close>

record 'w amqp_lib =
  al_new_publisher :: "string \<Rightarrow> 'w \<Rightarrow> go_error option \<times> 'w"
  al_new_subscriber :: "string \<Rightarrow> 'w \<Rightarrow> go_error option \<times> 'w"
  al_publish :: "string \<Rightarrow> qmsg list \<Rightarrow> 'w \<Rightarrow> go_error option \<times> 'w"
  al_subscribe :: "string \<Rightarrow> 'w \<Rightarrow> go_error option \<times> 'w"
  al_close_publisher :: "'w \<Rightarrow> go_error option \<times> 'w"
  al_close_subscriber :: "'w \<Rightarrow> go_error option \<times> 'w"

definition NewWatermillQueue :: "'w amqp_lib \<Rightarrow> string list \<Rightarrow> 'w \<Rightarrow> (go_error + amqp_queue) \<times> 'w" where
  "NewWatermillQueue al clusterURIs w =
     (let uri = dialCluster clusterURIs in
      case al_new_publisher al uri w of
        (Some err, w1) \<Rightarrow> (Inl err, w1)
      | (None, w1) \<Rightarrow>
          (case al_new_subscriber al uri w1 of
             (Some err, w2) \<Rightarrow> (Inl err, snd (al_close_publisher al w2))
           | (None, w2) \<Rightarrow>
               (Inr \<lparr>aq_has_publisher = True, aq_has_subscriber = True, aq_once = False, aq_closes = 0\<rparr>, w2)))"

definition watermill_Publish :: "'w amqp_lib \<Rightarrow> string \<Rightarrow> qmsg list \<Rightarrow> 'w \<Rightarrow> go_error option \<times> 'w" where
  "watermill_Publish al topic messages w = al_publish al topic messages w"

definition watermill_Subscribe :: "'w amqp_lib \<Rightarrow> string \<Rightarrow> 'w \<Rightarrow> go_error option \<times> 'w" where
  "watermill_Subscribe al topic w = al_subscribe al topic w"

text \<open>\<open>Close\<close> with the two closing calls made in the library.\<close>

definition watermill_Close :: "'w amqp_lib \<Rightarrow> amqp_queue \<Rightarrow> 'w \<Rightarrow> (go_error option \<times> amqp_queue) \<times> 'w" where
  "watermill_Close al q w =
     (if aq_once q then (amqp_Close None None q, w)
      else
        (let (e1, w1) = (if aq_has_publisher q then al_close_publisher al w else (None, w));
             (e2, w2) = (if aq_has_subscriber q then al_close_subscriber al w1 else (None, w1))
         in (amqp_Close e1 e2 q, w2)))"

section \<open>The Nacos configuration client\<close>

record sdk_config = nacos_config +
  nc_accessKey :: string
  nc_secretKey :: string
  nc_regionId :: string

record sdk_param =
  sp_servers :: "(string \<times> nat) list"
  sp_namespaceId :: string
  sp_timeoutMs :: nat
  sp_notLoadCacheAtStart :: bool
  sp_logDir :: string
  sp_cacheDir :: string
  sp_logLevel :: string
  sp_username :: string
  sp_password :: string
  sp_accessKey :: string
  sp_secretKey :: string
  sp_regionId :: string

text \<open>The parameters of the SDK, the same for the configuration client and for the registry.\<close>

definition sdk_param_of :: "sdk_config \<Rightarrow> sdk_param" where
  "sdk_param_of c =
     \<lparr>sp_servers = map (\<lambda>ip. (ip, nc_port c)) (nc_ipAddress c), sp_namespaceId = nc_namespaceId c,
      sp_timeoutMs = 5000, sp_notLoadCacheAtStart = True, sp_logDir = ''tmp/nacos/log'',
      sp_cacheDir = ''tmp/nacos/cache'', sp_logLevel = ''debug'', sp_username = nc_username c,
      sp_password = nc_password c, sp_accessKey = nc_accessKey c, sp_secretKey = nc_secretKey c,
      sp_regionId = nc_regionId c\<rparr>"

definition config_NewNacosClient ::
  "(sdk_param \<Rightarrow> 'w \<Rightarrow> go_error option \<times> 'w) \<Rightarrow> sdk_config \<Rightarrow> 'w \<Rightarrow> (go_error + sdk_config) \<times> 'w" where
  "config_NewNacosClient new_client c w =
     (case new_client (sdk_param_of c) w of
        (Some err, w') \<Rightarrow> (Inl err, w')
      | (None, w') \<Rightarrow> (Inr c, w'))"

text \<open>
  \<open>SyncConfig\<close> down to the SDK: reading and listening name the data id and the group as configured, without
  the default that the registry puts for an empty group.
\<close>

definition open_SyncConfig ::
  "(sdk_param \<Rightarrow> 'w \<Rightarrow> go_error option \<times> 'w) \<Rightarrow> (string \<Rightarrow> string \<Rightarrow> 'w \<Rightarrow> (go_error + string) \<times> 'w) \<Rightarrow>
     (string \<Rightarrow> string \<Rightarrow> 'w \<Rightarrow> go_error option \<times> 'w) \<Rightarrow> string \<Rightarrow> sdk_config \<Rightarrow> 'w
     \<Rightarrow> (string \<times> bool \<times> go_error option) \<times> 'w" where
  "open_SyncConfig new_client get listen model c w =
     (if model = ''nacos''
      then (case config_NewNacosClient new_client c w of
              (Inl err, w1) \<Rightarrow> (([], False, Some err), w1)
            | (Inr n, w1) \<Rightarrow>
                (case nacos_SyncConfig (get (nc_dataId n) (nc_group n)) (listen (nc_dataId n) (nc_group n)) w1 of
                   (Inl err, w2) \<Rightarrow> (([], True, Some err), w2)
                 | (Inr cf, w2) \<Rightarrow> ((cf, True, None), w2)))
      else (([], False, None), w))"

section \<open>What the constructors guarantee\<close>

text \<open>The settings of the queue are those that are handed to the library.\<close>

lemma NewNatsConnect_settings_used:
  "let st = NewNatsConnect_settings (nf_addresses cfg) (nf_subject cfg) (nf_durablePrefix cfg) (nf_maxAckPending cfg)
              (nf_autoProvision cfg)
   in ns_addresses st = join_with '','' (nf_addresses cfg) \<and>
      jetstream_of (ns_pub_provision st) cfg =
        \<lparr>jc_autoProvision = False, jc_durablePrefix = ns_durable st, jc_maxAckPending = ns_maxAckPending st\<rparr> \<and>
      jetstream_of (ns_sub_provision st) cfg =
        \<lparr>jc_autoProvision = nf_autoProvision cfg, jc_durablePrefix = ns_durable st, jc_maxAckPending = ns_maxAckPending st\<rparr>"
  by (simp add: NewNatsConnect_settings_def jetstream_of_def)

text \<open>A library that records the calls made on it; its answers are those of the list.\<close>

datatype nats_call = CallConnect | CallJetStream | CallAddStream | CallPublisher bool | CallSubscriber bool
  | CallClosePublisher | CallCloseSubscriber

definition recorded :: "nats_call \<Rightarrow> (nats_call \<Rightarrow> go_error option) \<times> nats_call list \<Rightarrow>
    go_error option \<times> ((nats_call \<Rightarrow> go_error option) \<times> nats_call list)" where
  "recorded c w = (fst w c, (fst w, snd w @ [c]))"

definition recording_lib :: "((nats_call \<Rightarrow> go_error option) \<times> nats_call list) nats_lib" where
  "recording_lib = \<lparr>nl_connect = (\<lambda>_. recorded CallConnect), nl_jetstream = recorded CallJetStream,
     nl_add_stream = (\<lambda>_ _. recorded CallAddStream), nl_new_publisher = (\<lambda>j. recorded (CallPublisher (jc_autoProvision j))),
     nl_new_subscriber = (\<lambda>s. recorded (CallSubscriber (jc_autoProvision (sc_jetstream s)))),
     nl_close_publisher = recorded CallClosePublisher, nl_close_subscriber = recorded CallCloseSubscriber\<rparr>"

text \<open>
  A NATS queue that can be made is made by a fixed sequence of calls, the stream before both ends, and its
  \<open>Close\<close> closes both, whatever they answer; one that cannot be made leaves its connection open.
\<close>

lemma NewNatsConnect_calls:
  assumes "NewNatsConnect recording_lib cfg (answers, []) = (Inr q, w)"
  shows "snd w = CallConnect # (if \<not> nf_autoProvision cfg then []
           else if answers CallJetStream = None then [CallJetStream, CallAddStream] else [CallJetStream]) @
           [CallPublisher False, CallSubscriber (nf_autoProvision cfg)] \<and>
     nats_Close recording_lib q w = (None, (answers, snd w @ [CallClosePublisher, CallCloseSubscriber]))"
  using assms
  by (auto simp: NewNatsConnect_def recording_lib_def recorded_def provision_def jetstream_of_def nats_Close_def Let_def
      split: option.splits if_splits)

lemma NewNatsConnect_leaks:
  assumes "answers CallConnect = None" and "NewNatsConnect recording_lib cfg (answers, []) = (Inl err, w)"
  shows "CallConnect \<in> set (snd w) \<and> CallClosePublisher \<notin> set (snd w)"
  using assms
  by (auto simp: NewNatsConnect_def recording_lib_def recorded_def provision_def jetstream_of_def Let_def
      split: option.splits if_splits)

text \<open>The AMQP wrapper, which takes its publisher back when it gets no subscriber, leaves none open.\<close>

lemma NewWatermillQueue_no_publisher_left:
  assumes "\<And>uri w. (case al_new_publisher al uri w of (e, w') \<Rightarrow> open_publishers w' = open_publishers w + (if e = None then 1 else 0))"
    and "\<And>uri w. open_publishers (snd (al_new_subscriber al uri w)) = (open_publishers w :: nat)"
    and "\<And>w. open_publishers (snd (al_close_publisher al w)) = open_publishers w - 1"
    and "NewWatermillQueue al uris w = (Inl err, w')"
  shows "open_publishers w' = open_publishers w"
proof -
  obtain e w1 where p: "al_new_publisher al (dialCluster uris) w = (e, w1)" by fastforce
  obtain e' w2 where s: "al_new_subscriber al (dialCluster uris) w1 = (e', w2)" by fastforce
  have "open_publishers w1 = open_publishers w + (if e = None then 1 else 0)"
    using assms(1) [where uri = "dialCluster uris" and w = w] p by simp
  moreover have "open_publishers w2 = open_publishers w1" using assms(2) [where uri = "dialCluster uris" and w = w1] s by simp
  ultimately show ?thesis
    using assms(3,4) p s by (auto simp: NewWatermillQueue_def split: option.splits)
qed

text \<open>
  The queue of a configuration seen through the abstract choice of a broker, which the start of the services
  uses: the same error, or a client of the chosen kind.
\<close>

fun kind_of :: "queue_client \<Rightarrow> broker" where
  "kind_of (RabbitQueue _) = RabbitBroker"
| "kind_of (NatsQueue _) = NatsBroker"

definition error_of :: "(go_error + 'a) \<Rightarrow> go_error option" where
  "error_of r = (case r of Inl e \<Rightarrow> Some e | Inr _ \<Rightarrow> None)"

lemma NewBroker_refines:
  "map_sum id kind_of (fst (NewBroker nl dial cfg w)) =
     NewBrokerFromConfig (mf_type cfg) (fst (dial (rf_addresses (mf_rabbit cfg)) w))
       (error_of (fst (NewNatsConnect nl (mf_nats cfg) w)))"
  by (auto simp: NewBroker_def NewBrokerFromConfig_def dial_rabbit_def NewRabbitMQConnect_def error_of_def
      split: prod.split sum.split option.split)

text \<open>The configuration client seen through the abstract \<open>SyncConfig\<close>.\<close>

lemma open_SyncConfig_refines:
  "open_SyncConfig new_client get listen model c w =
     (if model = ''nacos''
      then SyncConfig model (fst (new_client (sdk_param_of c) w)) (get (nc_dataId c) (nc_group c))
             (listen (nc_dataId c) (nc_group c)) (snd (new_client (sdk_param_of c) w))
      else SyncConfig model None (get (nc_dataId c) (nc_group c)) (listen (nc_dataId c) (nc_group c)) w)"
  by (auto simp: open_SyncConfig_def SyncConfig_def config_NewNacosClient_def split: prod.split option.split sum.split)

end
