(* ===== verification/GrpcLink.thy ===== *)
theory GrpcLink
  imports QueuePath
begin

text \<open>
  The gRPC service between a node and the device service (\<open>src/pkg/devicecli/grpc/pb/iotdevice_grpc.pb.go\<close>):
  the client's stub, the server's handler, its table of methods and the registration, and a login that goes
  through all of them.

  Parameters: \<open>invoke\<close> is \<open>ClientConnInterface.Invoke\<close> of the gRPC library over the world, \<open>interceptor\<close> the
  chain that the server was made with. That the library brings a call to the handler of the service that was
  registered, and its answer back, is the hypothesis \<open>grpc_carries\<close>.
\<close>

section \<open>The client's stub\<close>

definition FullMethodName :: string where
  "FullMethodName = ''/iotdevice.Iotdevice/DeviceConnect''"

type_synonym 'w invoke = "string \<Rightarrow> DeviceConnectReq \<Rightarrow> 'w \<Rightarrow> (go_error option \<times> DeviceConnectResp) \<times> 'w"
type_synonym 'w rpc = "DeviceConnectReq \<Rightarrow> 'w \<Rightarrow> (go_error + DeviceConnectResp) \<times> 'w"

definition stub_DeviceConnect :: "'w invoke \<Rightarrow> 'w rpc" where
  "stub_DeviceConnect invoke req w =
     (case invoke FullMethodName req w of
        ((Some err, _), w') \<Rightarrow> (Inl err, w')
      | ((None, resp), w') \<Rightarrow> (Inr resp, w'))"

text \<open>What the gRPC transport makes of the stub: it keeps the error only.\<close>

definition connect_of :: "'w rpc \<Rightarrow> DeviceConnectReq \<Rightarrow> 'w \<Rightarrow> go_error option \<times> 'w" where
  "connect_of rpc req w =
     (case rpc req w of
        (Inl err, w') \<Rightarrow> (Some err, w')
      | (Inr _, w') \<Rightarrow> (None, w'))"

section \<open>The server's side\<close>

text \<open>A handler as the library calls it: the decoded request or the decoder's error, and the interceptor.\<close>

type_synonym 'w interceptor = "string \<Rightarrow> DeviceConnectReq \<Rightarrow> 'w rpc \<Rightarrow> 'w \<Rightarrow> (go_error + DeviceConnectResp) \<times> 'w"
type_synonym 'w method_handler =
  "'w rpc \<Rightarrow> go_error + DeviceConnectReq \<Rightarrow> 'w interceptor option \<Rightarrow> 'w \<Rightarrow> (go_error + DeviceConnectResp) \<times> 'w"

definition DeviceConnect_Handler :: "'w method_handler" where
  "DeviceConnect_Handler srv decoded interceptor w =
     (case decoded of
        Inl err \<Rightarrow> (Inl err, w)
      | Inr req \<Rightarrow>
          (case interceptor of
             None \<Rightarrow> srv req w
           | Some i \<Rightarrow> i FullMethodName req srv w))"

record 'w service_desc =
  sd_ServiceName :: string
  sd_Methods :: "(string \<times> 'w method_handler) list"
  sd_Metadata :: string

definition Iotdevice_ServiceDesc :: "'w service_desc" where
  "Iotdevice_ServiceDesc = \<lparr>sd_ServiceName = ''iotdevice.Iotdevice'',
     sd_Methods = [(''DeviceConnect'', DeviceConnect_Handler)], sd_Metadata = ''app/iotdevice/iotdevice.proto''\<rparr>"

text \<open>A server's services with what implements them.\<close>

definition RegisterIotdeviceServer ::
  "('w service_desc \<times> 'w rpc) list \<Rightarrow> 'w rpc \<Rightarrow> ('w service_desc \<times> 'w rpc) list" where
  "RegisterIotdeviceServer s srv = s @ [(Iotdevice_ServiceDesc, srv)]"

text \<open>A service that embeds the stub and implements nothing.\<close>

definition Unimplemented_DeviceConnect :: "'w rpc" where
  "Unimplemented_DeviceConnect req w =
     (Inl (LibError (GrpcStatus 12) ''rpc error: code = Unimplemented desc = method DeviceConnect not implemented''), w)"

section \<open>The library between them\<close>

text \<open>
  gRPC's contract: a method is addressed as \<open>/service/method\<close>; the request arrives as it was sent, the
  handler is called with the server's interceptor, and its answer comes back - an error as the status \<open>as_status\<close>
  makes of it.
\<close>

definition grpc_carries ::
  "(go_error \<Rightarrow> go_error) \<Rightarrow> 'w interceptor option \<Rightarrow> 'w invoke \<Rightarrow> ('w service_desc \<times> 'w rpc) list \<Rightarrow> bool" where
  "grpc_carries as_status interceptor invoke services \<longleftrightarrow>
     (\<forall>(d, srv) \<in> set services. \<forall>(n, h) \<in> set (sd_Methods d). \<forall>req w.
        invoke (''/'' @ sd_ServiceName d @ ''/'' @ n) req w =
          (case h srv (Inr req) interceptor w of
             (Inl err, w') \<Rightarrow> ((Some (as_status err), \<lparr>Message = []\<rparr>), w')
           | (Inr resp, w') \<Rightarrow> ((None, resp), w')))"

text \<open>An interceptor that only looks on.\<close>

definition passes :: "'w interceptor option \<Rightarrow> bool" where
  "passes interceptor \<longleftrightarrow> (case interceptor of None \<Rightarrow> True | Some i \<Rightarrow> \<forall>name req h w. i name req h w = h req w)"

text \<open>The stub's name is that of the registered method, so a call is the service's function.\<close>

lemma stub_reaches_service:
  assumes "grpc_carries as_status interceptor invoke (RegisterIotdeviceServer s srv)" and "passes interceptor"
  shows "stub_DeviceConnect invoke req w =
     (case srv req w of
        (Inl err, w') \<Rightarrow> (Inl (as_status err), w')
      | (Inr resp, w') \<Rightarrow> (Inr resp, w'))"
proof -
  have "invoke (''/'' @ ''iotdevice.Iotdevice'' @ ''/'' @ ''DeviceConnect'') req w =
      (case DeviceConnect_Handler srv (Inr req) interceptor w of
         (Inl err, w') \<Rightarrow> ((Some (as_status err), \<lparr>Message = []\<rparr>), w')
       | (Inr resp, w') \<Rightarrow> ((None, resp), w'))"
    using assms(1) by (simp add: grpc_carries_def RegisterIotdeviceServer_def Iotdevice_ServiceDesc_def)
  moreover have "DeviceConnect_Handler srv (Inr req) interceptor w = srv req w"
    using assms(2) by (simp add: DeviceConnect_Handler_def passes_def split: option.splits)
  ultimately show ?thesis
    by (simp add: stub_DeviceConnect_def FullMethodName_def split: prod.split sum.split)
qed

text \<open>A service that does not implement the method is called once, and not again.\<close>

lemma unimplemented_called_once:
  assumes "grpc_carries id interceptor invoke (RegisterIotdeviceServer s Unimplemented_DeviceConnect)"
    and "passes interceptor" and "unmarshal message = Inr m"
  shows "grpc_Push unmarshal (connect_of (stub_DeviceConnect invoke)) wait service connId message w =
     (([], True, Some (LibError (GrpcStatus 12) ''rpc error: code = Unimplemented desc = method DeviceConnect not implemented'')),
      1, w)"
  using assms(3)
  by (simp add: grpc_Push_def connect_of_def stub_reaches_service [OF assms(1,2)] Unimplemented_DeviceConnect_def
      isRetryable_def code_Unavailable_def code_Aborted_def code_DeadlineExceeded_def)

section \<open>A login over gRPC\<close>

lemma grpc_only_chain:
  assumes "grows grow" and "dc_reachable grow mq sys" and "has_mode (dc_mode (sys_cli sys)) ModeGRPC"
    and "\<not> has_mode (dc_mode (sys_cli sys)) ModeHTTP" and "\<not> has_mode (dc_mode (sys_cli sys)) ModeNATS"
  shows "\<exists>i. slice_read (dc_chain (sys_cli sys)) (dc_store (sys_cli sys)) = [Some (Grpc i)]"
proof -
  let ?d = "sys_cli sys"
  have inv: "dc_inv mq ?d" using dc_reachable_inv [OF assms(2,1)] by (simp add: dc_sys_inv_def)
  then have "chain_of ?d = map Some (by_priority ?d)"
    and f: "fields_inv mq (dc_mode ?d) (dc_grpc ?d) (dc_http ?d) (dc_nats ?d)"
    by (simp_all add: dc_inv_def)
  moreover have "dc_http ?d = None" "dc_nats ?d = None" "\<exists>i. dc_grpc ?d = Some (Grpc i)"
    using f assms(3-5) by (auto simp: fields_inv_def)
  ultimately show ?thesis by (auto simp: chain_of_def by_priority_def)
qed

text \<open>A login that the service decides at once: by an answer, or by an error that is not tried again.\<close>

lemma grpc_login_push:
  assumes "grpc_carries as_status interceptor invoke (RegisterIotdeviceServer s (server_DeviceConnect b))"
    and "passes interceptor" and "unmarshal msg = Inr m" and "Cmd m = ''login''"
    and "login_Iotdevice b (m\<lparr>ConnId := connId, ServiceName := service\<rparr>) w = (r, w1)"
    and "\<And>e. r = Inl e \<Longrightarrow> \<not> isRetryable (as_status e)"
  shows "grpc_transport unmarshal (connect_of (stub_DeviceConnect invoke)) wait service connId msg w =
     (Ret ([], True, (case r of Inl e \<Rightarrow> Some (as_status e) | Inr _ \<Rightarrow> None)), w1)"
  using assms(3-6)
  by (cases r)
    (simp_all add: grpc_transport_def grpc_Push_def connect_of_def stub_reaches_service [OF assms(1,2)]
      server_DeviceConnect_def logic_of_def)


text \<open>A gRPC library that calls the last service registered, and a server's error as the status Unknown.\<close>

definition direct_invoke :: "('w service_desc \<times> 'w rpc) list \<Rightarrow> 'w invoke" where
  "direct_invoke services name req w =
     (case find (\<lambda>((d, srv), (n, h)). ''/'' @ sd_ServiceName d @ ''/'' @ n = name)
            (concat (map (\<lambda>x. map (Pair x) (sd_Methods (fst x))) services)) of
        None \<Rightarrow> ((Some (LibError (GrpcStatus 12) ''unknown method''), \<lparr>Message = []\<rparr>), w)
      | Some ((d, srv), (n, h)) \<Rightarrow>
          (case h srv (Inr req) None w of
             (Inl err, w') \<Rightarrow> ((Some (LibError (GrpcStatus 2) (Error err)), \<lparr>Message = []\<rparr>), w')
           | (Inr resp, w') \<Rightarrow> ((None, resp), w')))"

lemma direct_invoke_carries:
  "grpc_carries (\<lambda>e. LibError (GrpcStatus 2) (Error e)) None
     (direct_invoke (RegisterIotdeviceServer [] srv)) (RegisterIotdeviceServer [] srv)"
  by (auto simp: grpc_carries_def direct_invoke_def RegisterIotdeviceServer_def Iotdevice_ServiceDesc_def
      split: prod.split sum.split)


end
