(* ===== verification/Fleet.thy ===== *)
theory Fleet
  imports Presence
begin

text \<open>
  Several nodes and one Redis: the gateway of each node (\<open>src/app/iotws/.../ws/gateway.go\<close>) with its open sockets, the
  device service's logins (\<open>iotloginlogic.go\<close>), each node's five-minute job (\<open>iotconnsnlogic.go\<close>), and the
  deletions of every node's closes, applied to the same keys. The other services find a device by its key, so the key has
  to name the node that holds the socket.

  A device may move from node to node, but only when the sockets it had at others have closed; what goes wrong
  otherwise is shown in \<open>Presence\<close>. Sockets open without an id.
\<close>

section \<open>The system\<close>

record 'r fleet =
  fl_gw :: "nat \<Rightarrow> gw"
  fl_open :: "nat \<Rightarrow> sock set"
  fl_since :: "nat \<Rightarrow> duration"    \<comment> \<open>since the node's job last ran without an error\<close>
  fl_redis :: 'r

definition node_view :: "'r fleet \<Rightarrow> nat \<Rightarrow> 'r presence" where
  "node_view f n = \<lparr>ps_gw = fl_gw f n, ps_redis = fl_redis f, ps_since = fl_since f n\<rparr>"

text \<open>A node has acted: its gateway, its open sockets, Redis and its clock are new.\<close>

definition node_done :: "nat \<Rightarrow> gw \<Rightarrow> sock set \<Rightarrow> 'r \<Rightarrow> duration \<Rightarrow> 'r fleet \<Rightarrow> 'r fleet" where
  "node_done n g os r t f = f\<lparr>fl_gw := (fl_gw f)(n := g), fl_open := (fl_open f)(n := os), fl_redis := r,
     fl_since := (fl_since f)(n := t)\<rparr>"

text \<open>Some other node has an open socket of the device.\<close>

definition held_elsewhere :: "nat \<Rightarrow> 'r fleet \<Rightarrow> nat \<Rightarrow> string \<Rightarrow> bool" where
  "held_elsewhere N f n i \<longleftrightarrow>
     (\<exists>m<N. m \<noteq> n \<and> (\<exists>s\<in>fl_open f m. conn_id (fl_gw f m) s = Some (SStr i)))"

text \<open>
  The steps: time passes, every node's job being run in time; a socket is opened at a node; it logs in, or fails to; the
  service handles a login sent by a socket that has its id already; such a socket's message is answered; a socket
  closes; a node's job runs, with whatever result.
\<close>

inductive fleet_step ::
  "nat \<Rightarrow> 'r redis \<Rightarrow> 'r backend \<Rightarrow> bool \<Rightarrow> (nat \<Rightarrow> string) \<Rightarrow> 'r fleet \<Rightarrow> 'r fleet \<Rightarrow> bool"
  for N rd b html service where
  fleet_time: "0 \<le> d \<Longrightarrow> \<forall>n<N. fl_since f n + d < ConnTime \<Longrightarrow>
     fleet_step N rd b html service f
       (f\<lparr>fl_redis := rd_elapse rd d (fl_redis f), fl_since := \<lambda>n. fl_since f n + d\<rparr>)"
| fleet_opens: "n < N \<Longrightarrow> s \<notin> fl_open f n \<Longrightarrow> conn_id (fl_gw f n) s = None \<Longrightarrow>
     fleet_step N rd b html service f
       (node_done n (fl_gw f n) (insert s (fl_open f n)) (fl_redis f) (fl_since f n) f)"
| fleet_logs_in: "n < N \<Longrightarrow> s \<in> fl_open f n \<Longrightarrow> conn_id (fl_gw f n) s = None \<Longrightarrow>
     ServiceName req = service n \<Longrightarrow> \<not> held_elsewhere N f n (Sn req) \<Longrightarrow> wire_id html (Sn req) = Sn req \<Longrightarrow>
     login_Iotdevice b req (fl_redis f) = (Inr resp, r') \<Longrightarrow>
     fleet_step N rd b html service f
       (node_done n (fst (OnMessage (\<lambda>_ _ w. (Ret (response_json html resp, True, None), w)) s op msg (fl_gw f n, ())))
          (fl_open f n) r' (fl_since f n) f)"
| fleet_login_fails: "n < N \<Longrightarrow> s \<in> fl_open f n \<Longrightarrow> conn_id (fl_gw f n) s = None \<Longrightarrow>
     ServiceName req = service n \<Longrightarrow> \<not> held_elsewhere N f n (Sn req) \<Longrightarrow>
     login_Iotdevice b req (fl_redis f) = (Inl err, r') \<Longrightarrow>
     fleet_step N rd b html service f
       (node_done n (fst (OnMessage (\<lambda>_ _ w. (Ret ([], True, Some err), w)) s op msg (fl_gw f n, ())))
          (fl_open f n) r' (fl_since f n) f)"
| fleet_logs_in_again: "n < N \<Longrightarrow> ServiceName req = service n \<Longrightarrow> \<not> held_elsewhere N f n (Sn req) \<Longrightarrow>
     login_Iotdevice b req (fl_redis f) = (res, r') \<Longrightarrow>
     fleet_step N rd b html service f (node_done n (fl_gw f n) (fl_open f n) r' (fl_since f n) f)"
| fleet_message: "n < N \<Longrightarrow> s \<in> fl_open f n \<Longrightarrow> conn_id (fl_gw f n) s = Some v \<Longrightarrow>
     fleet_step N rd b html service f
       (node_done n (fst (OnMessage (fn :: unit fn) s op msg (fl_gw f n, ()))) (fl_open f n) (fl_redis f)
          (fl_since f n) f)"
| fleet_close: "n < N \<Longrightarrow> s \<in> fl_open f n \<Longrightarrow> g' = OnClose s err (fl_gw f n) \<Longrightarrow>
     fleet_step N rd b html service f
       (node_done n g' (fl_open f n - {s}) (redis_effects rd (new_calls (fl_gw f n) g') (fl_redis f)) (fl_since f n) f)"
| fleet_job: "n < N \<Longrightarrow> visits ids (soketMap (table (fl_gw f n))) \<Longrightarrow>
     rd_exec rd (set_cmds (service n) ids) (fl_redis f) = ((sts, e), r1) \<Longrightarrow>
     conn_Iotsync (rd_exec rd) ids (service n) (fl_gw f n, fl_redis f) = (g', r') \<Longrightarrow>
     fleet_step N rd b html service f
       (node_done n g' (fl_open f n) r' (if e = None then 0 else fl_since f n) f)"

inductive_cases fleet_stepE: "fleet_step N rd b html service f f'"

definition fleet_start :: "'r \<Rightarrow> 'r fleet" where
  "fleet_start r = \<lparr>fl_gw = \<lambda>_. gw_start, fl_open = \<lambda>_. {}, fl_since = \<lambda>_. 0, fl_redis = r\<rparr>"

inductive fleet_reachable ::
  "nat \<Rightarrow> 'r redis \<Rightarrow> 'r backend \<Rightarrow> bool \<Rightarrow> (nat \<Rightarrow> string) \<Rightarrow> 'r fleet \<Rightarrow> bool"
  for N rd b html service where
  fleet_starts: "fleet_reachable N rd b html service (fleet_start r)"
| fleet_goes_on: "fleet_reachable N rd b html service f \<Longrightarrow> fleet_step N rd b html service f f' \<Longrightarrow>
     fleet_reachable N rd b html service f'"

text \<open>What is used of the values in Redis beside \<open>redis_ttl_laws\<close>: neither time nor the deletion of another key changes them.\<close>

definition value_laws :: "'r redis \<Rightarrow> bool" where
  "value_laws rd \<longleftrightarrow>
     (\<forall>d r k. 0 \<le> d \<longrightarrow> 0 < rd_ttl rd (rd_elapse rd d r) k \<longrightarrow> rd_val rd (rd_elapse rd d r) k = rd_val rd r k) \<and>
     (\<forall>k r j. j \<noteq> k \<longrightarrow> rd_val rd (rd_del rd k r) j = rd_val rd r j)"

section \<open>The invariant\<close>

text \<open>An entry is an open socket with its id, and the key has the node's name.\<close>

definition holds_named :: "'r redis \<Rightarrow> string \<Rightarrow> gw \<Rightarrow> sock set \<Rightarrow> 'r \<Rightarrow> bool" where
  "holds_named rd name g os r \<longleftrightarrow>
     (\<forall>i v. soketMap (table g) i = Some v \<longrightarrow>
        (\<exists>s\<in>os. v = GwsConn s \<and> conn_id g s = Some (SStr i)) \<and> rd_val rd r (GetCacheConn i) = name)"

text \<open>Two nodes have no open sockets of the same device.\<close>

definition ids_apart :: "gw \<Rightarrow> sock set \<Rightarrow> gw \<Rightarrow> sock set \<Rightarrow> bool" where
  "ids_apart g os g' os' \<longleftrightarrow>
     (\<forall>s\<in>os. \<forall>s'\<in>os'. \<forall>i. conn_id g s = Some (SStr i) \<longrightarrow> conn_id g' s' \<noteq> Some (SStr i))"

definition fleet_inv :: "nat \<Rightarrow> 'r redis \<Rightarrow> (nat \<Rightarrow> string) \<Rightarrow> 'r fleet \<Rightarrow> bool" where
  "fleet_inv N rd service f \<longleftrightarrow>
     (\<forall>n<N. presence_inv rd (node_view f n) \<and>
        holds_named rd (service n) (fl_gw f n) (fl_open f n) (fl_redis f) \<and>
        (\<forall>m<N. m \<noteq> n \<longrightarrow> ids_apart (fl_gw f n) (fl_open f n) (fl_gw f m) (fl_open f m)))"

lemma ids_apart_sym: "ids_apart g os g' os' \<Longrightarrow> ids_apart g' os' g os"
  unfolding ids_apart_def by metis

text \<open>A key is spared when it is as it was.\<close>

definition spared :: "'r redis \<Rightarrow> 'r \<Rightarrow> 'r \<Rightarrow> string \<Rightarrow> bool" where
  "spared rd r r' k \<longleftrightarrow> rd_ttl rd r' k = rd_ttl rd r k \<and> rd_val rd r' k = rd_val rd r k"

text \<open>One node acts: its own part of the invariant, and the keys of the devices of the others.\<close>

lemma fleet_inv_node_done:
  assumes inv: "fleet_inv N rd service f" and n: "n < N"
    and own: "presence_inv rd \<lparr>ps_gw = g, ps_redis = r, ps_since = t\<rparr>" "holds_named rd (service n) g os r"
    and apart: "\<And>m. m < N \<Longrightarrow> m \<noteq> n \<Longrightarrow> ids_apart g os (fl_gw f m) (fl_open f m)"
    and sp: "\<And>m i v. m < N \<Longrightarrow> m \<noteq> n \<Longrightarrow> soketMap (table (fl_gw f m)) i = Some v \<Longrightarrow>
      spared rd (fl_redis f) r (GetCacheConn i)"
  shows "fleet_inv N rd service (node_done n g os r t f)"
proof -
  have other: "presence_inv rd \<lparr>ps_gw = fl_gw f m, ps_redis = r, ps_since = fl_since f m\<rparr> \<and>
      holds_named rd (service m) (fl_gw f m) (fl_open f m) r" if "m < N" "m \<noteq> n" for m
  proof -
    have "presence_inv rd (node_view f m)" "holds_named rd (service m) (fl_gw f m) (fl_open f m) (fl_redis f)"
      using inv that(1) by (simp_all add: fleet_inv_def)
    then show ?thesis
      using sp [OF that] by (fastforce simp: presence_inv_def node_view_def holds_named_def spared_def)
  qed
  show ?thesis
    unfolding fleet_inv_def
  proof (intro allI impI conjI)
    fix m
    assume m: "m < N"
    show "presence_inv rd (node_view (node_done n g os r t f) m)"
      using own other [OF m] by (simp add: node_view_def node_done_def)
    show "holds_named rd (service m) (fl_gw (node_done n g os r t f) m) (fl_open (node_done n g os r t f) m)
        (fl_redis (node_done n g os r t f))"
      using own other [OF m] by (simp add: node_done_def)
    fix k
    assume k: "k < N" "k \<noteq> m"
    have "ids_apart (fl_gw f m) (fl_open f m) (fl_gw f k) (fl_open f k)" using inv m k by (simp add: fleet_inv_def)
    then show "ids_apart (fl_gw (node_done n g os r t f) m) (fl_open (node_done n g os r t f) m)
        (fl_gw (node_done n g os r t f) k) (fl_open (node_done n g os r t f) k)"
      using apart [OF m] apart [OF k(1)] k(2) ids_apart_sym by (auto simp: node_done_def)
  qed
qed

section \<open>What the operations touch\<close>

lemma kept_or_set_spared: "kept_or_set rd cmds r r' \<Longrightarrow> k \<notin> fst ` set cmds \<Longrightarrow> spared rd r r' k"
  unfolding kept_or_set_def spared_def by force

lemma kept_or_set_named:
  "kept_or_set rd cmds r r' \<Longrightarrow> (\<And>c. c \<in> set cmds \<Longrightarrow> fst (snd c) = name) \<Longrightarrow> rd_val rd r k = name \<Longrightarrow> rd_val rd r' k = name"
  unfolding kept_or_set_def by (metis fst_conv snd_conv)

lemma kept_or_set_trans: "kept_or_set rd [] r r1 \<Longrightarrow> kept_or_set rd cmds r1 r2 \<Longrightarrow> kept_or_set rd cmds r r2"
  unfolding kept_or_set_def by (metis empty_iff empty_set)

lemma kept_or_set_more: "kept_or_set rd [] r r1 \<Longrightarrow> kept_or_set rd cmds r r1"
  unfolding kept_or_set_def by (metis empty_iff empty_set)

lemma login_kept_or_set:
  assumes laws: "login_laws rd b" and "login_Iotdevice b req r = (res, r')"
  shows "kept_or_set rd [(GetCacheConn (Sn req), ServiceName req, ConnTime)] r r'"
proof -
  have g: "kept_or_set rd [] w w'" if "redis_get b j w = (v, w')" for j v w w'
    using laws that unfolding login_laws_def by metis
  have q: "kept_or_set rd [] w w'" if "query_row b qu args w = (v, w')" for qu args v w w'
    using laws that unfolding login_laws_def by metis
  have s: "kept_or_set rd [(GetCacheConn (Sn req), v, ConnTime)] w w'"
    if "redis_set b (GetCacheConn (Sn req)) v ConnTime w = (e, w')" for v e w w'
    using laws that ConnTime_pos unfolding login_laws_def by metis
  have refl: "kept_or_set rd cmds w w" for cmds w by (simp add: kept_or_set_def)
  show ?thesis
    using assms(2) kept_or_set_more [OF g] kept_or_set_more [OF kept_or_set_trans [OF g q]]
      kept_or_set_trans [OF g kept_or_set_trans [OF q s]] refl
    by (auto simp: login_Iotdevice_def GetOneBySn_def Let_def split: if_splits prod.splits sum.splits option.splits)
qed

text \<open>The answer to a login registers its socket and gives it the id; nothing else of the gateway changes.\<close>

lemma login_answer_gateway:
  assumes "conn_id g s = None" and "resp = empty_response\<lparr>rs_connId := sn\<rparr>" and "wire_id html sn = sn" and "sn \<noteq> []"
  shows "table (fst (OnMessage (\<lambda>_ _ w. (Ret (response_json html resp, True, None), w)) s op msg (g, ()))) =
      Storage sn (GwsConn s) (table g)"
    and "conn_id (fst (OnMessage (\<lambda>_ _ w. (Ret (response_json html resp, True, None), w)) s op msg (g, ()))) t =
      (if t = s then Some (SStr sn) else conn_id g t)"
  using assms extractSn_response [of html sn]
  by (simp_all add: OnMessage_def OnMessage_after_def OnMessage_new_def Let_def)

lemma login_error_gateway:
  assumes "conn_id g s = None"
  shows "table (fst (OnMessage (\<lambda>_ _ w. (Ret ([], True, Some err), w)) s op msg (g, ()))) = table g"
    and "conn_id (fst (OnMessage (\<lambda>_ _ w. (Ret ([], True, Some err), w)) s op msg (g, ()))) t = conn_id g t"
  using assms by (simp_all add: OnMessage_def OnMessage_after_def OnMessage_new_def ServerOnClose_def Let_def)

lemma OnMessage_known_ids: "conn_id g s = Some i \<Longrightarrow> conn_id (fst (OnMessage fn s op msg (g, w))) t = conn_id g t"
  by (cases i; cases fn "case i of SStr c \<Rightarrow> c | SOther \<Rightarrow> []" msg w rule: fn_cases)
    (simp_all add: OnMessage_def OnMessage_after_def OnMessage_known_def recover_panic_def)

section \<open>Every step keeps the invariant\<close>

lemma fleet_invD:
  assumes "fleet_inv N rd service f" and "n < N"
  shows "presence_inv rd (node_view f n)" and "holds_named rd (service n) (fl_gw f n) (fl_open f n) (fl_redis f)"
    and "m < N \<Longrightarrow> m \<noteq> n \<Longrightarrow> ids_apart (fl_gw f n) (fl_open f n) (fl_gw f m) (fl_open f m)"
  using assms by (simp_all add: fleet_inv_def)

lemma holds_named_socket:
  "holds_named rd name g os r \<Longrightarrow> soketMap (table g) i = Some v \<Longrightarrow> \<exists>s\<in>os. conn_id g s = Some (SStr i)"
  unfolding holds_named_def by blast

text \<open>The key of a device that no other node has is none of theirs.\<close>

lemma not_held_spares:
  assumes "fleet_inv N rd service f" and "\<not> held_elsewhere N f n sn"
    and "kept_or_set rd [(GetCacheConn sn, name, t)] (fl_redis f) r'"
    and "m < N" and "m \<noteq> n" and "soketMap (table (fl_gw f m)) i = Some v"
  shows "spared rd (fl_redis f) r' (GetCacheConn i)"
proof -
  have "i \<noteq> sn"
    using holds_named_socket [OF fleet_invD(2) [OF assms(1,4)] assms(6)] assms(2,4,5) by (auto simp: held_elsewhere_def)
  then show ?thesis using kept_or_set_spared [OF assms(3)] by (simp add: GetCacheConn_def)
qed

lemma other_tables_differ:
  assumes "fleet_inv N rd service f" and "n < N" and "m < N" and "m \<noteq> n"
    and "soketMap (table (fl_gw f n)) i = Some v" and "soketMap (table (fl_gw f m)) j = Some v'"
  shows "i \<noteq> j"
  using holds_named_socket [OF fleet_invD(2) [OF assms(1,2)] assms(5)]
    holds_named_socket [OF fleet_invD(2) [OF assms(1,3)] assms(6)] fleet_invD(3) [OF assms(1-4)]
  by (auto simp: ids_apart_def)

lemma named_after_login:
  assumes "holds_named rd svc g os r" and "kept_or_set rd [(k, name, t)] r r'" and "name = svc"
    and "soketMap (table g) i = Some v"
  shows "(\<exists>s\<in>os. v = GwsConn s \<and> conn_id g s = Some (SStr i)) \<and> rd_val rd r' (GetCacheConn i) = svc"
  using assms(1,4) kept_or_set_named [OF assms(2), of svc] assms(3) by (simp add: holds_named_def)

text \<open>Each kind of step. \<open>presence_step\<close> is a node's own view of it.\<close>

lemma own_view:
  assumes "redis_ttl_laws rd b" and "fleet_inv N rd service f" and "n < N"
    and "presence_step rd b html (service n) (node_view f n) p"
  shows "presence_inv rd p"
  using presence_step_inv [OF assms(1,4) fleet_invD(1) [OF assms(2,3)]] .

lemma fleet_time_inv:
  assumes laws: "redis_ttl_laws rd b" "value_laws rd" and inv: "fleet_inv N rd service f"
    and d: "0 \<le> d" "\<forall>n<N. fl_since f n + d < ConnTime"
  shows "fleet_inv N rd service (f\<lparr>fl_redis := rd_elapse rd d (fl_redis f), fl_since := \<lambda>n. fl_since f n + d\<rparr>)"
proof -
  let ?f = "f\<lparr>fl_redis := rd_elapse rd d (fl_redis f), fl_since := \<lambda>n. fl_since f n + d\<rparr>"
  have p: "presence_inv rd (node_view ?f n)" if n: "n < N" for n
  proof -
    have "presence_step rd b html (service n) (node_view f n) (node_view ?f n)" for html
      using presence_step.time_passes [of d "node_view f n" rd b html "service n"] d n by (simp add: node_view_def)
    then show ?thesis by (rule own_view [OF laws(1) inv n])
  qed
  have "holds_named rd (service n) (fl_gw f n) (fl_open f n) (rd_elapse rd d (fl_redis f))" if n: "n < N" for n
  proof -
    have "0 < rd_ttl rd (rd_elapse rd d (fl_redis f)) (GetCacheConn i)" if "soketMap (table (fl_gw f n)) i = Some v" for i v
      using presence_alive [OF p [OF n], of i] that by (simp add: node_view_def)
    then show ?thesis
      using fleet_invD(2) [OF inv n] laws(2) d(1) by (auto simp: holds_named_def value_laws_def)
  qed
  then show ?thesis using inv p by (simp add: fleet_inv_def)
qed

lemma fleet_opens_inv:
  assumes inv: "fleet_inv N rd service f" and n: "n < N" and s: "conn_id (fl_gw f n) s = None"
  shows "fleet_inv N rd service (node_done n (fl_gw f n) (insert s (fl_open f n)) (fl_redis f) (fl_since f n) f)"
proof (rule fleet_inv_node_done [OF inv n])
  show "presence_inv rd \<lparr>ps_gw = fl_gw f n, ps_redis = fl_redis f, ps_since = fl_since f n\<rparr>"
    using fleet_invD(1) [OF inv n] by (simp add: node_view_def)
  show "holds_named rd (service n) (fl_gw f n) (insert s (fl_open f n)) (fl_redis f)"
    using fleet_invD(2) [OF inv n] by (auto simp: holds_named_def)
next
  fix m
  assume "m < N" "m \<noteq> n"
  then show "ids_apart (fl_gw f n) (insert s (fl_open f n)) (fl_gw f m) (fl_open f m)"
    using fleet_invD(3) [OF inv n] s by (simp add: ids_apart_def)
qed (simp add: spared_def)

lemma fleet_logs_in_inv:
  assumes laws: "redis_ttl_laws rd b" and inv: "fleet_inv N rd service f" and n: "n < N"
    and s: "s \<in> fl_open f n" "conn_id (fl_gw f n) s = None"
    and req: "ServiceName req = service n" "\<not> held_elsewhere N f n (Sn req)" "wire_id html (Sn req) = Sn req"
    and login: "login_Iotdevice b req (fl_redis f) = (Inr resp, r')"
  shows "fleet_inv N rd service
     (node_done n (fst (OnMessage (\<lambda>_ _ w. (Ret (response_json html resp, True, None), w)) s op msg (fl_gw f n, ())))
        (fl_open f n) r' (fl_since f n) f)"
proof -
  let ?g = "fst (OnMessage (\<lambda>_ _ w. (Ret (response_json html resp, True, None), w)) s op msg (fl_gw f n, ()))"
  have l: "login_laws rd b" using laws by (simp add: redis_ttl_laws_def)
  note K = login_kept_or_set [OF l login]
  have id: "resp = empty_response\<lparr>rs_connId := Sn req\<rparr>" "Sn req \<noteq> []" "rd_val rd r' (GetCacheConn (Sn req)) = service n"
    using login_redis [OF l login] req(1) by simp_all
  note G = login_answer_gateway [OF s(2) id(1) req(3) id(2), of op msg]
  have "presence_step rd b html (service n) (node_view f n) \<lparr>ps_gw = ?g, ps_redis = r', ps_since = fl_since f n\<rparr>"
    using presence_step.device_logs_in [of b req "node_view f n" resp r' html s rd "service n" op msg] s(2) req(3) login id(1)
    by (simp add: node_view_def)
  from own_view [OF laws inv n this]
  have p: "presence_inv rd \<lparr>ps_gw = ?g, ps_redis = r', ps_since = fl_since f n\<rparr>" .
  note old = named_after_login [OF fleet_invD(2) [OF inv n] K req(1)]
  have h: "holds_named rd (service n) ?g (fl_open f n) r'"
    unfolding holds_named_def G
  proof (intro allI impI)
    fix i v
    assume t: "soketMap (Storage (Sn req) (GwsConn s) (table (fl_gw f n))) i = Some v"
    show "(\<exists>t\<in>fl_open f n. v = GwsConn t \<and> (if t = s then Some (SStr (Sn req)) else conn_id (fl_gw f n) t) = Some (SStr i)) \<and>
        rd_val rd r' (GetCacheConn i) = service n"
    proof (cases "i = Sn req")
      case True
      then show ?thesis using t s(1) id(3) by auto
    next
      case False
      then show ?thesis using t old [of i v] s(2) by fastforce
    qed
  qed
  show ?thesis
  proof (rule fleet_inv_node_done [OF inv n p h])
    fix m
    assume m: "m < N" "m \<noteq> n"
    show "ids_apart ?g (fl_open f n) (fl_gw f m) (fl_open f m)"
      using fleet_invD(3) [OF inv n m] req(2) m unfolding ids_apart_def G by (auto simp: held_elsewhere_def)
  qed (rule not_held_spares [OF inv req(2) K])
qed

lemma fleet_login_fails_inv:
  assumes laws: "redis_ttl_laws rd b" and inv: "fleet_inv N rd service f" and n: "n < N"
    and s: "conn_id (fl_gw f n) s = None"
    and req: "ServiceName req = service n" "\<not> held_elsewhere N f n (Sn req)"
    and login: "login_Iotdevice b req (fl_redis f) = (Inl err, r')"
  shows "fleet_inv N rd service
     (node_done n (fst (OnMessage (\<lambda>_ _ w. (Ret ([], True, Some err), w)) s op msg (fl_gw f n, ())))
        (fl_open f n) r' (fl_since f n) f)"
proof -
  let ?g = "fst (OnMessage (\<lambda>_ _ w. (Ret ([], True, Some err), w)) s op msg (fl_gw f n, ()))"
  have l: "login_laws rd b" using laws by (simp add: redis_ttl_laws_def)
  note K = login_kept_or_set [OF l login] and G = login_error_gateway [OF s, of err op msg]
  have "presence_step rd b html (service n) (node_view f n) \<lparr>ps_gw = ?g, ps_redis = r', ps_since = fl_since f n\<rparr>" for html
    using presence_step.login_fails [of b req "node_view f n" err r' s rd html "service n" op msg] s login
    by (simp add: node_view_def)
  from own_view [OF laws inv n this]
  have p: "presence_inv rd \<lparr>ps_gw = ?g, ps_redis = r', ps_since = fl_since f n\<rparr>" .
  have h: "holds_named rd (service n) ?g (fl_open f n) r'"
    using named_after_login [OF fleet_invD(2) [OF inv n] K req(1)] unfolding holds_named_def G by blast
  show ?thesis
  proof (rule fleet_inv_node_done [OF inv n p h])
    fix m
    assume m: "m < N" "m \<noteq> n"
    show "ids_apart ?g (fl_open f n) (fl_gw f m) (fl_open f m)"
      using fleet_invD(3) [OF inv n m] unfolding ids_apart_def G .
  qed (rule not_held_spares [OF inv req(2) K])
qed

lemma fleet_logs_in_again_inv:
  assumes laws: "redis_ttl_laws rd b" and inv: "fleet_inv N rd service f" and n: "n < N"
    and req: "ServiceName req = service n" "\<not> held_elsewhere N f n (Sn req)"
    and login: "login_Iotdevice b req (fl_redis f) = (res, r')"
  shows "fleet_inv N rd service (node_done n (fl_gw f n) (fl_open f n) r' (fl_since f n) f)"
proof -
  have l: "login_laws rd b" using laws by (simp add: redis_ttl_laws_def)
  note K = login_kept_or_set [OF l login]
  have "presence_step rd b html (service n) (node_view f n) \<lparr>ps_gw = fl_gw f n, ps_redis = r', ps_since = fl_since f n\<rparr>" for html
    using presence_step.login_elsewhere [of b req "node_view f n" res r' rd html "service n"] login
    by (simp add: node_view_def)
  from own_view [OF laws inv n this]
  have p: "presence_inv rd \<lparr>ps_gw = fl_gw f n, ps_redis = r', ps_since = fl_since f n\<rparr>" .
  have h: "holds_named rd (service n) (fl_gw f n) (fl_open f n) r'"
    using named_after_login [OF fleet_invD(2) [OF inv n] K req(1)] unfolding holds_named_def by blast
  show ?thesis
    by (rule fleet_inv_node_done [OF inv n p h fleet_invD(3) [OF inv n] not_held_spares [OF inv req(2) K]])
qed

lemma fleet_message_inv:
  assumes laws: "redis_ttl_laws rd b" and inv: "fleet_inv N rd service f" and n: "n < N"
    and s: "conn_id (fl_gw f n) s = Some v"
  shows "fleet_inv N rd service
     (node_done n (fst (OnMessage (fn :: unit fn) s op msg (fl_gw f n, ()))) (fl_open f n) (fl_redis f) (fl_since f n) f)"
proof -
  let ?g = "fst (OnMessage fn s op msg (fl_gw f n, ()))"
  note T = OnMessage_known_table [OF s, of fn op msg "()"] and I = OnMessage_known_ids [OF s, of fn op msg "()"]
  have "presence_step rd b html (service n) (node_view f n) \<lparr>ps_gw = ?g, ps_redis = fl_redis f, ps_since = fl_since f n\<rparr>" for html
    using presence_step.message_arrives [of "node_view f n" s v rd b html "service n" fn op msg] s
    by (simp add: node_view_def)
  from own_view [OF laws inv n this]
  have p: "presence_inv rd \<lparr>ps_gw = ?g, ps_redis = fl_redis f, ps_since = fl_since f n\<rparr>" .
  have h: "holds_named rd (service n) ?g (fl_open f n) (fl_redis f)"
    using fleet_invD(2) [OF inv n] unfolding holds_named_def T I .
  show ?thesis
  proof (rule fleet_inv_node_done [OF inv n p h])
    fix m
    assume m: "m < N" "m \<noteq> n"
    show "ids_apart ?g (fl_open f n) (fl_gw f m) (fl_open f m)"
      using fleet_invD(3) [OF inv n m] unfolding ids_apart_def I .
  qed (simp add: spared_def)
qed

text \<open>A close: what is left of the table, and the one key it deletes.\<close>

lemma OnClose_ids: "conn_id (OnClose s err g) t = conn_id g t"
  by (simp add: OnClose_def emit_def split: option.split sval.split)

lemma OnClose_entry:
  "soketMap (table (OnClose s err g)) i = Some v \<Longrightarrow>
     soketMap (table g) i = Some v \<and> conn_id g s \<noteq> Some (SStr i)"
  by (auto simp: OnClose_def emit_def split: option.splits sval.splits if_splits)

lemma OnClose_spares:
  assumes "key_laws rd" and "value_laws rd" and "conn_id g s \<noteq> Some (SStr i)"
  shows "spared rd r (redis_effects rd (new_calls g (OnClose s err g)) r) (GetCacheConn i)"
proof -
  have "spared rd r (rd_del rd k r) j" if "j \<noteq> k" for j k
    using assms(1,2) that by (simp add: spared_def value_laws_def key_laws_def)
  then show ?thesis
    using assms(3)
    by (auto simp: OnClose_def emit_def new_calls_def redis_effects_def spared_def GetCacheConn_def
        split: option.splits sval.splits)
qed

lemma fleet_close_inv:
  assumes laws: "redis_ttl_laws rd b" "value_laws rd" and inv: "fleet_inv N rd service f" and n: "n < N"
    and s: "s \<in> fl_open f n"
  shows "fleet_inv N rd service (node_done n (OnClose s err (fl_gw f n)) (fl_open f n - {s})
     (redis_effects rd (new_calls (fl_gw f n) (OnClose s err (fl_gw f n))) (fl_redis f)) (fl_since f n) f)"
proof -
  let ?g = "OnClose s err (fl_gw f n)"
  let ?r = "redis_effects rd (new_calls (fl_gw f n) ?g) (fl_redis f)"
  have l: "key_laws rd" using laws(1) by (simp add: redis_ttl_laws_def)
  note sp = OnClose_spares [OF l laws(2), of "fl_gw f n" s _ "fl_redis f" err]
  have "presence_step rd b html (service n) (node_view f n) \<lparr>ps_gw = ?g, ps_redis = ?r, ps_since = fl_since f n\<rparr>" for html
    using presence_step.socket_closes [of ?g s err "node_view f n" rd b html "service n"] by (simp add: node_view_def)
  from own_view [OF laws(1) inv n this]
  have p: "presence_inv rd \<lparr>ps_gw = ?g, ps_redis = ?r, ps_since = fl_since f n\<rparr>" .
  have h: "holds_named rd (service n) ?g (fl_open f n - {s}) ?r"
    unfolding holds_named_def OnClose_ids
  proof (intro allI impI)
    fix i v
    assume "soketMap (table ?g) i = Some v"
    from OnClose_entry [OF this]
    have a: "soketMap (table (fl_gw f n)) i = Some v" "conn_id (fl_gw f n) s \<noteq> Some (SStr i)" by simp_all
    then show "(\<exists>t\<in>fl_open f n - {s}. v = GwsConn t \<and> conn_id (fl_gw f n) t = Some (SStr i)) \<and>
        rd_val rd ?r (GetCacheConn i) = service n"
      using fleet_invD(2) [OF inv n] sp [OF a(2)] by (fastforce simp: holds_named_def spared_def)
  qed
  show ?thesis
  proof (rule fleet_inv_node_done [OF inv n p h])
    fix m
    assume m: "m < N" "m \<noteq> n"
    show "ids_apart ?g (fl_open f n - {s}) (fl_gw f m) (fl_open f m)"
      using fleet_invD(3) [OF inv n m] unfolding ids_apart_def OnClose_ids by blast
  next
    fix m i v
    assume m: "m < N" "m \<noteq> n" "soketMap (table (fl_gw f m)) i = Some v"
    have "conn_id (fl_gw f n) s \<noteq> Some (SStr i)"
      using holds_named_socket [OF fleet_invD(2) [OF inv m(1)] m(3)] fleet_invD(3) [OF inv n m(1,2)] s
      by (auto simp: ids_apart_def)
    then show "spared rd (fl_redis f) ?r (GetCacheConn i)" by (rule sp)
  qed
qed

lemma fleet_job_inv:
  assumes laws: "redis_ttl_laws rd b" and inv: "fleet_inv N rd service f" and n: "n < N"
    and ids: "visits ids (soketMap (table (fl_gw f n)))"
    and x: "rd_exec rd (set_cmds (service n) ids) (fl_redis f) = ((sts, e), r1)"
    and job: "conn_Iotsync (rd_exec rd) ids (service n) (fl_gw f n, fl_redis f) = (g', r')"
  shows "fleet_inv N rd service (node_done n g' (fl_open f n) r' (if e = None then 0 else fl_since f n) f)"
proof -
  have g: "gw_inv (fl_gw f n)" using fleet_invD(1) [OF inv n] by (simp add: presence_inv_def node_view_def)
  have T: "table g' = table (fl_gw f n)" "sessions g' = sessions (fl_gw f n)" "r' = r1"
    using conn_Iotsync_table [OF g job x] by simp_all
  have c: "conn_id g' t = conn_id (fl_gw f n) t" for t using T(2) by simp
  have "presence_step rd b html (service n) (node_view f n)
      \<lparr>ps_gw = g', ps_redis = r', ps_since = if e = None then 0 else fl_since f n\<rparr>" for html
    using presence_step.job_runs [of ids "node_view f n" rd "service n" sts e r1 g' r' b html] ids x job
    by (cases e) (simp_all add: node_view_def)
  from own_view [OF laws inv n this]
  have p: "presence_inv rd \<lparr>ps_gw = g', ps_redis = r', ps_since = if e = None then 0 else fl_since f n\<rparr>" .
  have "\<forall>c\<in>set (set_cmds (service n) ids). 0 < snd (snd c)" by (simp add: set_cmds_full_time ConnTime_pos)
  then have K: "kept_or_set rd (set_cmds (service n) ids) (fl_redis f) r1"
    using laws x unfolding redis_ttl_laws_def exec_law_def by blast
  have named: "rd_val rd r1 k = service n" if "rd_val rd (fl_redis f) k = service n" for k
    by (rule kept_or_set_named [OF K _ that]) (auto simp: set_cmds_def)
  have h: "holds_named rd (service n) g' (fl_open f n) r'"
    using fleet_invD(2) [OF inv n] named unfolding holds_named_def c T by blast
  show ?thesis
  proof (rule fleet_inv_node_done [OF inv n p h])
    fix m
    assume m: "m < N" "m \<noteq> n"
    show "ids_apart g' (fl_open f n) (fl_gw f m) (fl_open f m)"
      using fleet_invD(3) [OF inv n m] unfolding ids_apart_def c .
  next
    fix m i v
    assume m: "m < N" "m \<noteq> n" "soketMap (table (fl_gw f m)) i = Some v"
    have "i \<notin> set ids"
      using other_tables_differ [OF inv n m(1,2) _ m(3)] ids by (auto simp: visits_def)
    then have "GetCacheConn i \<notin> fst ` set (set_cmds (service n) ids)"
      by (auto simp: set_cmds_def GetCacheConn_def)
    then show "spared rd (fl_redis f) r' (GetCacheConn i)" unfolding T by (rule kept_or_set_spared [OF K])
  qed
qed

lemma fleet_step_inv:
  assumes "redis_ttl_laws rd b" "value_laws rd" and "fleet_step N rd b html service f f'" and "fleet_inv N rd service f"
  shows "fleet_inv N rd service f'"
  using assms(3)
proof cases
  case (fleet_time d)
  then show ?thesis using fleet_time_inv [OF assms(1,2,4)] by simp
next
  case (fleet_opens n s)
  then show ?thesis using fleet_opens_inv [OF assms(4)] by simp
next
  case (fleet_logs_in n s req resp r' op msg)
  show ?thesis
    unfolding fleet_logs_in(1) by (rule fleet_logs_in_inv [OF assms(1,4) fleet_logs_in(2-8)])
next
  case (fleet_login_fails n s req err r' op msg)
  show ?thesis
    unfolding fleet_login_fails(1) by (rule fleet_login_fails_inv [OF assms(1,4) fleet_login_fails(2,4-7)])
next
  case (fleet_logs_in_again n req res r')
  show ?thesis
    unfolding fleet_logs_in_again(1) by (rule fleet_logs_in_again_inv [OF assms(1,4) fleet_logs_in_again(2-5)])
next
  case (fleet_message n s v fn op msg)
  show ?thesis
    unfolding fleet_message(1) by (rule fleet_message_inv [OF assms(1,4) fleet_message(2,4)])
next
  case (fleet_close n s g' err)
  show ?thesis
    unfolding fleet_close(1,4) by (rule fleet_close_inv [OF assms(1,2,4) fleet_close(2,3)])
next
  case (fleet_job n ids sts e r1 g' r')
  show ?thesis
    unfolding fleet_job(1) by (rule fleet_job_inv [OF assms(1,4) fleet_job(2-5)])
qed

lemma fleet_reachable_inv:
  assumes "redis_ttl_laws rd b" "value_laws rd"
  shows "fleet_reachable N rd b html service f \<Longrightarrow> fleet_inv N rd service f"
proof (induction rule: fleet_reachable.induct)
  case (fleet_starts r)
  show ?case
    by (simp add: fleet_inv_def node_view_def fleet_start_def presence_inv_def holds_named_def ids_apart_def gw_inv_def
        ConnTime_pos gw_start_def)
next
  case (fleet_goes_on f f')
  then show ?case using fleet_step_inv [OF assms] by blast
qed

section \<open>Redis names the node\<close>


text \<open>A device "d1" moves from a node "wsA" to a node "wsB".\<close>

definition two_nodes :: "nat \<Rightarrow> string" where
  "two_nodes n = (if n = 0 then ''wsA'' else ''wsB'')"

abbreviation two_reachable :: "mem_redis fleet \<Rightarrow> bool" where
  "two_reachable \<equiv> fleet_reachable 2 mem_ttl_redis mem_ttl_backend True two_nodes"

lemma mem_value_laws: "value_laws mem_ttl_redis"
  by (auto simp: value_laws_def mem_ttl_redis_def split: option.splits)

lemma two_login:
  assumes "two_reachable f" and "n < 2" and "s \<notin> fl_open f n" and "conn_id (fl_gw f n) s = None"
    and "\<And>m. m \<noteq> n \<Longrightarrow> fl_open f m = {}"
  shows "\<exists>f'. two_reachable f' \<and> soketMap (table (fl_gw f' n)) ''d1'' = Some (GwsConn s) \<and>
     fl_open f' = (fl_open f)(n := insert s (fl_open f n)) \<and> (\<forall>m. m \<noteq> n \<longrightarrow> fl_gw f' m = fl_gw f m)"
proof -
  let ?f1 = "node_done n (fl_gw f n) (insert s (fl_open f n)) (fl_redis f) (fl_since f n) f"
  let ?req = "device_req ''d1'' (two_nodes n)"
  have 1: "two_reachable ?f1" by (rule fleet_goes_on [OF assms(1) fleet_opens [OF assms(2-4)]])
  have f1: "s \<in> fl_open ?f1 n" "conn_id (fl_gw ?f1 n) s = None" using assms(4) by (simp_all add: node_done_def)
  have h: "\<not> held_elsewhere 2 ?f1 n (Sn ?req)" using assms(5) by (simp add: held_elsewhere_def node_done_def)
  have r: "ServiceName ?req = two_nodes n" "Sn ?req = ''d1''" by (simp_all add: device_req_def)
  obtain r' where L: "login_Iotdevice mem_ttl_backend ?req (fl_redis ?f1) = (Inr (empty_response\<lparr>rs_connId := ''d1''\<rparr>), r')"
    using mem_login [of "''d1''" "two_nodes n" "fl_redis ?f1"] by simp
  have w: "wire_id True (Sn ?req) = Sn ?req" using r(2) wire_d1 by simp
  note step = fleet_logs_in [where rd = mem_ttl_redis and op = OpcodeText and msg = "''m''" and f = ?f1 and req = ?req
      and service = two_nodes and html = True, OF assms(2) f1 r(1) h w L]
  show ?thesis
    by (rule exI, rule conjI, rule fleet_goes_on [OF 1 step])
      (simp add: node_done_def login_answer_gateway(1) [OF assms(4) refl wire_d1])
qed

lemma two_close:
  assumes "two_reachable f" and "n < 2" and "s \<in> fl_open f n"
  shows "\<exists>f'. two_reachable f' \<and> fl_open f' = (fl_open f)(n := fl_open f n - {s}) \<and>
     (\<forall>m. m \<noteq> n \<longrightarrow> fl_gw f' m = fl_gw f m)"
  by (rule exI, rule conjI, rule fleet_goes_on [OF assms(1) fleet_close [OF assms(2,3) refl, where err = None]])
    (simp add: node_done_def)


end
