(* ===== verification/CrashPath.thy ===== *)
theory CrashPath
  imports QueuePath
begin

text \<open>
  The queue path with a device service that can crash: the two consumers of
  \<open>src/app/iotdevice/cmd/internal/handler/nats/routes.go\<close> goroutine by goroutine, the slots of the login
  consumer, work and settlement of a message as two steps, and a service that is killed between any two of
  them and started again. A message that was given out and not settled is then given out again, which is what
  an acknowledged queue does; so a message can be routed and processed more than once, and none may be lost.
\<close>

section \<open>The service process\<close>

text \<open>
  The broker's queues; the goroutines of the ingress consumer, each with its message and, when its work is
  done, how it will settle it; the message the login consumer holds while it waits for a slot; and the
  goroutines of the login consumer.
\<close>

record 'b service_proc =
  sp_q :: "'b queues"
  sp_ing :: "(qmsg \<times> settle option) list"
  sp_hand :: "qmsg option"
  sp_run :: "(qmsg \<times> settle option) list"

definition is_login :: "qmsg \<Rightarrow> bool" where
  "is_login m \<longleftrightarrow> extractCmd (msg_payload m) = ''login''"

definition ingress_take :: "qmsg \<Rightarrow> 'b service_proc \<Rightarrow> 'b service_proc" where
  "ingress_take m s = s\<lparr>sp_q := (sp_q s)\<lparr>qw_main := remove1 m (qw_main (sp_q s))\<rparr>, sp_ing := (m, None) # sp_ing s\<rparr>"

definition ingress_work :: "string \<Rightarrow> qmsg \<Rightarrow> 'b service_proc \<Rightarrow> 'b service_proc" where
  "ingress_work subj m s =
     (let (acts, q) = ingress (broker_publish subj) subj m (sp_q s) in
      s\<lparr>sp_q := q, sp_ing := (m, Some (hd acts)) # remove1 (m, None) (sp_ing s)\<rparr>)"

definition ingress_settle :: "qmsg \<Rightarrow> settle \<Rightarrow> 'b service_proc \<Rightarrow> 'b service_proc" where
  "ingress_settle m st s =
     (let q = sp_q s in
      s\<lparr>sp_ing := remove1 (m, Some st) (sp_ing s),
        sp_q := (case st of
            Nack \<Rightarrow> q\<lparr>qw_main := qw_main q @ [m]\<rparr>
          | Ack \<Rightarrow> if is_login m then q else q\<lparr>qw_dropped := m # qw_dropped q\<rparr>)\<rparr>)"

definition login_take :: "qmsg \<Rightarrow> 'b service_proc \<Rightarrow> 'b service_proc" where
  "login_take m s = s\<lparr>sp_q := (sp_q s)\<lparr>qw_login := remove1 m (qw_login (sp_q s))\<rparr>, sp_hand := Some m\<rparr>"

definition login_start :: "qmsg \<Rightarrow> 'b service_proc \<Rightarrow> 'b service_proc" where
  "login_start m s = s\<lparr>sp_hand := None, sp_run := (m, None) # sp_run s\<rparr>"

definition login_work ::
  "(string \<Rightarrow> go_error + DeviceConnectReq) \<Rightarrow> span_ctx \<Rightarrow> 'b backend \<Rightarrow> qmsg \<Rightarrow> 'b service_proc \<Rightarrow> 'b service_proc" where
  "login_work unmarshal ctx b m s =
     (let (st, back) = settle_message unmarshal ctx b m (qw_back (sp_q s)) in
      s\<lparr>sp_q := (sp_q s)\<lparr>qw_back := back\<rparr>, sp_run := (m, Some st) # remove1 (m, None) (sp_run s)\<rparr>)"

definition login_settle :: "qmsg \<Rightarrow> settle \<Rightarrow> 'b service_proc \<Rightarrow> 'b service_proc" where
  "login_settle m st s =
     (let q = sp_q s in
      s\<lparr>sp_run := remove1 (m, Some st) (sp_run s),
        sp_q := (case st of
            Nack \<Rightarrow> q\<lparr>qw_login := qw_login q @ [m]\<rparr>
          | Ack \<Rightarrow> q\<lparr>qw_done := m # qw_done q\<rparr>)\<rparr>)"

text \<open>The service is killed and started: what it had not settled is on the queues again.\<close>

definition in_hand_of :: "'b service_proc \<Rightarrow> qmsg list" where
  "in_hand_of s = (case sp_hand s of None \<Rightarrow> [] | Some m \<Rightarrow> [m])"

definition service_crash :: "'b service_proc \<Rightarrow> 'b service_proc" where
  "service_crash s =
     (let q = sp_q s in
      s\<lparr>sp_q := q\<lparr>qw_main := qw_main q @ map fst (sp_ing s),
                  qw_login := qw_login q @ in_hand_of s @ map fst (sp_run s)\<rparr>,
        sp_ing := [], sp_hand := None, sp_run := []\<rparr>)"

inductive service_step ::
  "'b queues fn \<Rightarrow> string \<Rightarrow> (string \<Rightarrow> go_error + DeviceConnectReq) \<Rightarrow> span_ctx \<Rightarrow> 'b backend \<Rightarrow> nat
     \<Rightarrow> gw \<times> 'b service_proc \<Rightarrow> gw \<times> 'b service_proc \<Rightarrow> bool" for fn subj unmarshal ctx b capacity where
  node_event: "gw_step fn (g, sp_q s) (g', q') \<Longrightarrow>
     service_step fn subj unmarshal ctx b capacity (g, s) (g', s\<lparr>sp_q := q'\<rparr>)"
| ingress_takes: "m \<in> set (qw_main (sp_q s)) \<Longrightarrow>
     service_step fn subj unmarshal ctx b capacity (g, s) (g, ingress_take m s)"
| ingress_works: "(m, None) \<in> set (sp_ing s) \<Longrightarrow>
     service_step fn subj unmarshal ctx b capacity (g, s) (g, ingress_work subj m s)"
| ingress_settles: "(m, Some st) \<in> set (sp_ing s) \<Longrightarrow>
     service_step fn subj unmarshal ctx b capacity (g, s) (g, ingress_settle m st s)"
| login_takes: "m \<in> set (qw_login (sp_q s)) \<Longrightarrow> sp_hand s = None \<Longrightarrow>
     service_step fn subj unmarshal ctx b capacity (g, s) (g, login_take m s)"
| login_starts: "sp_hand s = Some m \<Longrightarrow> length (sp_run s) < capacity \<Longrightarrow>
     service_step fn subj unmarshal ctx b capacity (g, s) (g, login_start m s)"
| login_works: "(m, None) \<in> set (sp_run s) \<Longrightarrow>
     service_step fn subj unmarshal ctx b capacity (g, s) (g, login_work unmarshal ctx b m s)"
| login_settles: "(m, Some st) \<in> set (sp_run s) \<Longrightarrow>
     service_step fn subj unmarshal ctx b capacity (g, s) (g, login_settle m st s)"
| crashes: "service_step fn subj unmarshal ctx b capacity (g, s) (g, service_crash s)"

definition service_start :: "'b queues \<Rightarrow> 'b service_proc" where
  "service_start q = \<lparr>sp_q = q, sp_ing = [], sp_hand = None, sp_run = []\<rparr>"

inductive service_reachable ::
  "'b queues fn \<Rightarrow> string \<Rightarrow> (string \<Rightarrow> go_error + DeviceConnectReq) \<Rightarrow> span_ctx \<Rightarrow> 'b backend \<Rightarrow> nat
     \<Rightarrow> gw \<times> 'b service_proc \<Rightarrow> bool" for fn subj unmarshal ctx b capacity where
  service_init: "service_reachable fn subj unmarshal ctx b capacity (gw_start, service_start (path_start outcomes back))"
| service_more: "service_reachable fn subj unmarshal ctx b capacity x \<Longrightarrow>
     service_step fn subj unmarshal ctx b capacity x y \<Longrightarrow> service_reachable fn subj unmarshal ctx b capacity y"

section \<open>The invariant\<close>

text \<open>
  Where a message can be, and the logins that are on their way twice: routed, but not yet acknowledged at the
  ingress.
\<close>

definition sp_total :: "'b service_proc \<Rightarrow> qmsg multiset" where
  "sp_total s = mset (qw_main (sp_q s)) + image_mset fst (mset (sp_ing s)) + mset (qw_login (sp_q s)) +
     mset (in_hand_of s) + image_mset fst (mset (sp_run s)) + mset (qw_dropped (sp_q s)) + mset (qw_done (sp_q s))"

definition sp_routed :: "'b service_proc \<Rightarrow> qmsg multiset" where
  "sp_routed s = image_mset fst {#x \<in># mset (sp_ing s). snd x = Some Ack \<and> is_login (fst x)#}"

text \<open>The messages that wait or are worked on, the logins among all of them, and those that count as recorded.\<close>

definition sp_pending :: "'b service_proc \<Rightarrow> qmsg set" where
  "sp_pending s = set (qw_main (sp_q s)) \<union> fst ` set (sp_ing s) \<union> set (qw_login (sp_q s)) \<union>
     set (in_hand_of s) \<union> fst ` set (sp_run s)"

definition sp_logins :: "'b service_proc \<Rightarrow> qmsg set" where
  "sp_logins s = set (qw_login (sp_q s)) \<union> set (in_hand_of s) \<union> fst ` set (sp_run s) \<union> set (qw_done (sp_q s))"

definition sp_acked :: "'b service_proc \<Rightarrow> qmsg set" where
  "sp_acked s = {m. (m, Some Ack) \<in> set (sp_run s)} \<union> set (qw_done (sp_q s))"

definition sp_inv ::
  "('b \<Rightarrow> string set) \<Rightarrow> ('b \<Rightarrow> string \<rightharpoonup> string) \<Rightarrow> (string \<Rightarrow> go_error + DeviceConnectReq) \<Rightarrow> string \<Rightarrow> nat
     \<Rightarrow> 'b service_proc \<Rightarrow> bool" where
  "sp_inv devs pres unmarshal service capacity s \<longleftrightarrow>
     mset (qw_accepted (sp_q s)) + sp_routed s \<subseteq># sp_total s \<and> length (sp_run s) \<le> capacity \<and>
     (\<forall>m\<in>sp_pending s. metadata m ''ServiceName'' = service) \<and>
     (\<forall>m\<in>set (qw_dropped (sp_q s)). \<not> is_login m) \<and> (\<forall>m\<in>sp_logins s. is_login m) \<and>
     (\<forall>m\<in>sp_acked s. login_recorded devs pres unmarshal service (qw_back (sp_q s)) m)"

lemmas sp_sets = sp_pending_def sp_logins_def sp_acked_def in_hand_of_def

text \<open>A step that moves messages keeps the invariant when it keeps the accounts.\<close>

lemma sp_inv_step:
  assumes "sp_inv devs pres unmarshal service capacity s"
    and "mset (qw_accepted (sp_q t)) + sp_routed t \<subseteq># sp_total t" and "length (sp_run t) \<le> capacity"
    and "sp_pending t \<subseteq> sp_pending s" and "set (qw_dropped (sp_q t)) \<subseteq> set (qw_dropped (sp_q s)) \<union> {m. \<not> is_login m}"
    and "sp_logins t \<subseteq> sp_logins s \<union> {m. is_login m}"
    and "\<And>m. m \<in> sp_acked t \<Longrightarrow> login_recorded devs pres unmarshal service (qw_back (sp_q t)) m"
  shows "sp_inv devs pres unmarshal service capacity t"
  using assms unfolding sp_inv_def by blast

text \<open>Taking one element out of a list.\<close>

lemma remove1_parts:
  assumes "x \<in> set xs"
  obtains R where "remove1 x xs = R" and "mset xs = add_mset x (mset R)" and "set xs = insert x (set R)"
    and "length xs = Suc (length R)"
proof -
  have m: "mset xs = add_mset x (mset (remove1 x xs))" using assms by simp
  then have "set xs = insert x (set (remove1 x xs))" by (metis set_mset_add_mset_insert set_mset_mset)
  moreover have "length xs = Suc (length (remove1 x xs))" using assms length_pos_if_in_set [OF assms]
    by (simp add: length_remove1)
  ultimately show ?thesis using that m by blast
qed

lemma sp_inv_accounts:
  "sp_inv devs pres unmarshal service capacity s \<Longrightarrow> mset (qw_accepted (sp_q s)) + sp_routed s \<subseteq># sp_total s"
  by (simp add: sp_inv_def)

lemma sp_inv_pushed:
  assumes "sp_inv devs pres unmarshal service capacity s" and "pushed service (sp_q s) q'"
  shows "sp_inv devs pres unmarshal service capacity (s\<lparr>sp_q := q'\<rparr>)"
proof -
  obtain ms where ms: "qw_main q' = qw_main (sp_q s) @ ms" "qw_accepted q' = rev ms @ qw_accepted (sp_q s)"
    "\<forall>m\<in>set ms. metadata m ''ServiceName'' = service"
    and eq: "qw_login q' = qw_login (sp_q s)" "qw_back q' = qw_back (sp_q s)" "qw_dropped q' = qw_dropped (sp_q s)"
      "qw_done q' = qw_done (sp_q s)"
    using assms(2) by (auto simp: pushed_def)
  have "mset ms + (mset (qw_accepted (sp_q s)) + sp_routed s) \<subseteq># mset ms + sp_total s"
    using sp_inv_accounts [OF assms(1)] by simp
  then have "mset (qw_accepted q') + sp_routed (s\<lparr>sp_q := q'\<rparr>) \<subseteq># sp_total (s\<lparr>sp_q := q'\<rparr>)"
    by (simp add: sp_routed_def sp_total_def in_hand_of_def ms eq ac_simps)
  moreover have "sp_pending (s\<lparr>sp_q := q'\<rparr>) = sp_pending s \<union> set ms" "sp_logins (s\<lparr>sp_q := q'\<rparr>) = sp_logins s"
    "sp_acked (s\<lparr>sp_q := q'\<rparr>) = sp_acked s"
    by (auto simp: sp_sets ms eq)
  ultimately show ?thesis using assms(1) ms eq unfolding sp_inv_def by auto
qed

lemma ingress_take_inv [inv_intros]:
  assumes "sp_inv devs pres unmarshal service capacity s" and "m \<in> set (qw_main (sp_q s))"
  shows "sp_inv devs pres unmarshal service capacity (ingress_take m s)"
proof -
  obtain R where R: "remove1 m (qw_main (sp_q s)) = R" "mset (qw_main (sp_q s)) = add_mset m (mset R)"
    "set (qw_main (sp_q s)) = insert m (set R)"
    using remove1_parts [OF assms(2)] by blast
  have t: "sp_total (ingress_take m s) = sp_total s" "sp_routed (ingress_take m s) = sp_routed s"
    "sp_pending (ingress_take m s) = sp_pending s" "sp_logins (ingress_take m s) = sp_logins s"
    "sp_acked (ingress_take m s) = sp_acked s"
    by (auto simp: ingress_take_def sp_total_def sp_routed_def sp_sets R)
  show ?thesis
    by (rule sp_inv_step [OF assms(1)], unfold t) (use assms(1) in \<open>simp_all add: sp_inv_def ingress_take_def\<close>)
qed

text \<open>What the work of an ingress goroutine is.\<close>

lemma ingress_cases:
  obtains "\<not> is_login m" and "ingress (broker_publish subj) subj m q = ([Ack], q)"
  | "is_login m" and "ingress (broker_publish subj) subj m q =
       ([Ack], q\<lparr>qw_outcomes := tl (qw_outcomes q), qw_login := qw_login q @ [m]\<rparr>)"
  | "is_login m" and "ingress (broker_publish subj) subj m q = ([Nack], q\<lparr>qw_outcomes := tl (qw_outcomes q)\<rparr>)"
proof (cases "is_login m")
  case True
  then show ?thesis
    using that(2,3) by (cases "broker_answer q")
      (auto simp: ingress_def HandleAllNatsMessage_def cmdWorkers_def broker_publish_def is_login_def Let_def)
next
  case False
  then have "ingress (broker_publish subj) subj m q = ([Ack], q)"
    by (simp add: ingress_def HandleAllNatsMessage_def cmdWorkers_dom is_login_def Let_def)
  with False show ?thesis using that(1) by blast
qed

lemma ingress_work_inv [inv_intros]:
  assumes "sp_inv devs pres unmarshal service capacity s" and "(m, None) \<in> set (sp_ing s)"
  shows "sp_inv devs pres unmarshal service capacity (ingress_work subj m s)"
proof -
  let ?q = "sp_q s"
  obtain R where R: "remove1 (m, None) (sp_ing s) = R" "mset (sp_ing s) = add_mset (m, None) (mset R)"
    "set (sp_ing s) = insert (m, None) (set R)"
    using remove1_parts [OF assms(2)] by blast
  note le = sp_inv_accounts [OF assms(1)]
  have rest: "sp_inv devs pres unmarshal service capacity t"
    if t: "t = s\<lparr>sp_q := ?q\<lparr>qw_outcomes := os, qw_login := qw_login ?q @ ls\<rparr>, sp_ing := (m, Some st) # R\<rparr>"
      and ls: "set ls \<subseteq> {m}" "set ls \<subseteq> {m. is_login m}"
      and le': "mset (qw_accepted ?q) + sp_routed t \<subseteq># sp_total s + mset ls" for t ls os st
  proof (rule sp_inv_step [OF assms(1)])
    show "mset (qw_accepted (sp_q t)) + sp_routed t \<subseteq># sp_total t"
      using le' by (simp add: t sp_total_def in_hand_of_def R(2) ac_simps)
    show "sp_pending t \<subseteq> sp_pending s" using ls(1) by (auto simp: t sp_pending_def in_hand_of_def R(3))
    show "sp_logins t \<subseteq> sp_logins s \<union> {m. is_login m}"
      using ls(2) by (auto simp: t sp_logins_def in_hand_of_def)
  qed (use assms(1) t in \<open>auto simp: sp_inv_def sp_acked_def\<close>)
  show ?thesis
  proof (cases rule: ingress_cases [of m subj ?q])
    case 1
    then show ?thesis using le
      by (intro rest [where os = "qw_outcomes ?q" and ls = "[]" and st = Ack]) (simp_all add: ingress_work_def R(1,2) sp_routed_def)
  next
    case 2
    then show ?thesis using le
      by (intro rest [where os = "tl (qw_outcomes ?q)" and ls = "[m]" and st = Ack]) (simp_all add: ingress_work_def R(1,2) sp_routed_def)
  next
    case 3
    then show ?thesis using le
      by (intro rest [where os = "tl (qw_outcomes ?q)" and ls = "[]" and st = Nack]) (simp_all add: ingress_work_def R(1,2) sp_routed_def)
  qed
qed

lemma ingress_settle_inv [inv_intros]:
  assumes "sp_inv devs pres unmarshal service capacity s" and "(m, Some st) \<in> set (sp_ing s)"
  shows "sp_inv devs pres unmarshal service capacity (ingress_settle m st s)"
proof -
  let ?t = "ingress_settle m st s"
  obtain R where R: "remove1 (m, Some st) (sp_ing s) = R" "mset (sp_ing s) = add_mset (m, Some st) (mset R)"
    "set (sp_ing s) = insert (m, Some st) (set R)"
    using remove1_parts [OF assms(2)] by blast
  have e: "?t = s\<lparr>sp_ing := R, sp_q := (case st of
      Nack \<Rightarrow> (sp_q s)\<lparr>qw_main := qw_main (sp_q s) @ [m]\<rparr>
    | Ack \<Rightarrow> if is_login m then sp_q s else (sp_q s)\<lparr>qw_dropped := m # qw_dropped (sp_q s)\<rparr>)\<rparr>"
    by (simp add: ingress_settle_def R(1) Let_def)
  show ?thesis
  proof (rule sp_inv_step [OF assms(1)])
    show "mset (qw_accepted (sp_q ?t)) + sp_routed ?t \<subseteq># sp_total ?t"
      using sp_inv_accounts [OF assms(1)] unfolding e by (cases st; cases "is_login m")
        (simp_all add: sp_routed_def sp_total_def in_hand_of_def R(2) ac_simps)
    show "sp_pending ?t \<subseteq> sp_pending s" unfolding e by (cases st) (auto simp: sp_pending_def in_hand_of_def R(3))
    show "sp_logins ?t \<subseteq> sp_logins s \<union> {m. is_login m}" unfolding e
      by (cases st) (auto simp: sp_logins_def in_hand_of_def)
    show "set (qw_dropped (sp_q ?t)) \<subseteq> set (qw_dropped (sp_q s)) \<union> {m. \<not> is_login m}" unfolding e
      by (cases st) auto
    have q: "sp_acked ?t = sp_acked s" "qw_back (sp_q ?t) = qw_back (sp_q s)" "sp_run ?t = sp_run s" unfolding e
      by (cases st; simp add: sp_acked_def)+
    show "length (sp_run ?t) \<le> capacity" using assms(1) by (simp add: q sp_inv_def)
    show "login_recorded devs pres unmarshal service (qw_back (sp_q ?t)) m" if "m \<in> sp_acked ?t" for m
      using that assms(1) by (simp add: q sp_inv_def)
  qed
qed

lemma login_take_inv [inv_intros]:
  assumes "sp_inv devs pres unmarshal service capacity s" and "m \<in> set (qw_login (sp_q s))" and "sp_hand s = None"
  shows "sp_inv devs pres unmarshal service capacity (login_take m s)"
proof -
  obtain R where R: "remove1 m (qw_login (sp_q s)) = R" "mset (qw_login (sp_q s)) = add_mset m (mset R)"
    "set (qw_login (sp_q s)) = insert m (set R)"
    using remove1_parts [OF assms(2)] by blast
  have t: "sp_total (login_take m s) = sp_total s" "sp_routed (login_take m s) = sp_routed s"
    "sp_pending (login_take m s) = sp_pending s" "sp_logins (login_take m s) = sp_logins s"
    "sp_acked (login_take m s) = sp_acked s"
    by (auto simp: login_take_def sp_total_def sp_routed_def sp_sets R assms(3))
  show ?thesis
    by (rule sp_inv_step [OF assms(1)], unfold t) (use assms(1) in \<open>simp_all add: sp_inv_def login_take_def\<close>)
qed

lemma login_start_inv [inv_intros]:
  assumes "sp_inv devs pres unmarshal service capacity s" and "sp_hand s = Some m" and "length (sp_run s) < capacity"
  shows "sp_inv devs pres unmarshal service capacity (login_start m s)"
proof -
  have t: "sp_total (login_start m s) = sp_total s" "sp_routed (login_start m s) = sp_routed s"
    "sp_pending (login_start m s) = sp_pending s" "sp_logins (login_start m s) = sp_logins s"
    "sp_acked (login_start m s) = sp_acked s"
    by (auto simp: login_start_def sp_total_def sp_routed_def sp_sets assms(2))
  show ?thesis
    by (rule sp_inv_step [OF assms(1)], unfold t)
      (use assms(1,3) in \<open>simp_all add: sp_inv_def login_start_def\<close>)
qed

lemma login_work_inv [inv_intros]:
  assumes "sp_inv devs pres unmarshal service capacity s" and "(m, None) \<in> set (sp_run s)"
    and "backend_laws b devs pres" and "service \<noteq> []"
  shows "sp_inv devs pres unmarshal service capacity (login_work unmarshal ctx b m s)"
proof -
  let ?q = "sp_q s" and ?t = "login_work unmarshal ctx b m s"
  obtain st bk where S: "settle_message unmarshal ctx b m (qw_back ?q) = (st, bk)" by fastforce
  obtain R where R: "remove1 (m, None) (sp_run s) = R" "mset (sp_run s) = add_mset (m, None) (mset R)"
    "set (sp_run s) = insert (m, None) (set R)" "length (sp_run s) = Suc (length R)"
    using remove1_parts [OF assms(2)] by blast
  have e: "?t = s\<lparr>sp_q := ?q\<lparr>qw_back := bk\<rparr>, sp_run := (m, Some st) # R\<rparr>"
    by (simp add: login_work_def S R(1))
  have "m \<in> sp_pending s" by (simp add: sp_pending_def R(3))
  then have md: "metadata m ''ServiceName'' = service" using assms(1) by (simp add: sp_inv_def)
  have t: "sp_total ?t = sp_total s" "sp_routed ?t = sp_routed s" "sp_pending ?t = sp_pending s" "sp_logins ?t = sp_logins s"
    by (auto simp: e sp_total_def sp_routed_def sp_sets R(2,3))
  have rec: "login_recorded devs pres unmarshal service bk x" if "x \<in> sp_acked ?t" for x
  proof (cases "x \<in> sp_acked s")
    case True
    then have "login_recorded devs pres unmarshal service (qw_back ?q) x" using assms(1) by (simp add: sp_inv_def)
    then show ?thesis by (rule login_recorded_keep [OF assms(3,4) md S])
  next
    case False
    then have "x = m" "st = Ack" using that by (auto simp: e sp_acked_def R(3))
    then show ?thesis using settle_message_effect(3) [OF assms(3,4) md S] by simp
  qed
  show ?thesis
    by (rule sp_inv_step [OF assms(1)], unfold t) (use assms(1) R(4) rec in \<open>simp_all add: sp_inv_def e\<close>)
qed

lemma login_settle_inv [inv_intros]:
  assumes "sp_inv devs pres unmarshal service capacity s" and "(m, Some st) \<in> set (sp_run s)"
  shows "sp_inv devs pres unmarshal service capacity (login_settle m st s)"
proof -
  let ?t = "login_settle m st s"
  obtain R where R: "remove1 (m, Some st) (sp_run s) = R" "mset (sp_run s) = add_mset (m, Some st) (mset R)"
    "set (sp_run s) = insert (m, Some st) (set R)" "length (sp_run s) = Suc (length R)"
    using remove1_parts [OF assms(2)] by blast
  have e: "?t = s\<lparr>sp_run := R, sp_q := (case st of
      Nack \<Rightarrow> (sp_q s)\<lparr>qw_login := qw_login (sp_q s) @ [m]\<rparr>
    | Ack \<Rightarrow> (sp_q s)\<lparr>qw_done := m # qw_done (sp_q s)\<rparr>)\<rparr>"
    by (simp add: login_settle_def R(1) Let_def)
  have t: "sp_total ?t = sp_total s" "sp_routed ?t = sp_routed s" "sp_pending ?t \<subseteq> sp_pending s"
    "sp_logins ?t \<subseteq> sp_logins s" "sp_acked ?t \<subseteq> sp_acked s"
    unfolding e by (cases st; auto simp: sp_total_def sp_routed_def sp_sets R(2,3))+
  have q: "qw_accepted (sp_q ?t) = qw_accepted (sp_q s)" "qw_dropped (sp_q ?t) = qw_dropped (sp_q s)"
    "qw_back (sp_q ?t) = qw_back (sp_q s)" "length (sp_run ?t) \<le> length (sp_run s)"
    unfolding e by (cases st; simp add: R(4))+
  show ?thesis
    by (rule sp_inv_step [OF assms(1)], unfold t(1,2) q(1-3)) (use assms(1) t q(4) in \<open>auto simp: sp_inv_def\<close>)
qed

lemma service_crash_inv [inv_intros]:
  assumes "sp_inv devs pres unmarshal service capacity s"
  shows "sp_inv devs pres unmarshal service capacity (service_crash s)"
proof -
  have t: "sp_total (service_crash s) = sp_total s" "sp_routed (service_crash s) = {#}"
    "sp_pending (service_crash s) = sp_pending s" "sp_logins (service_crash s) = sp_logins s"
    "sp_acked (service_crash s) \<subseteq> sp_acked s"
    by (auto simp: service_crash_def sp_total_def sp_routed_def sp_sets Let_def ac_simps)
  have "mset (qw_accepted (sp_q s)) \<subseteq># sp_total s"
    using sp_inv_accounts [OF assms] by (rule subset_mset.order_trans [rotated]) simp
  then show ?thesis
    by (intro sp_inv_step [OF assms], unfold t(1-4))
      (use assms t(5) in \<open>auto simp: service_crash_def sp_inv_def Let_def\<close>)
qed

lemma sp_inv_reachable:
  assumes "service_reachable (ws_fn (client_Push grpc_push
        (\<lambda>i. nats_transport nc (broker_publish subj) ctx_done wait uuid d) http_push) (sys_cli sys))
        subj unmarshal ctx b capacity x"
    and "grows grow" and "dc_reachable grow mq sys"
    and "\<not> has_mode (dc_mode (sys_cli sys)) ModeHTTP" and "\<not> has_mode (dc_mode (sys_cli sys)) ModeGRPC"
    and "\<And>w. snd (ctx_done w) = w" and "\<And>w. snd (wait w) = w"
    and "nats_serviceName d = service" and "subject d = subj" and "service \<noteq> []" and "backend_laws b devs pres"
  shows "sp_inv devs pres unmarshal service capacity (snd x)"
  using assms(1)
proof (induction rule: service_reachable.induct)
  case (service_init outcomes bk)
  show ?case by (simp add: sp_inv_def sp_routed_def sp_sets service_start_def path_start_def)
next
  case (service_more x y)
  from service_more.hyps(2) service_more.IH show ?case
  proof (cases rule: service_step.cases)
    case (node_event g s g' q')
    then have "pushed service (sp_q s) q'"
      using gw_step_world [OF node_event(3)] node_pushed [OF assms(2-9)] by auto
    then show ?thesis using sp_inv_pushed service_more.IH node_event by simp
  next
    case (login_works m s g)
    then show ?thesis using login_work_inv [OF _ login_works(3) assms(11,10)] service_more.IH by simp
  qed (auto intro: inv_intros)
qed


text \<open>
  The device of \<open>queue_path_loses_nothing\<close>: the service is killed when it has routed the login and not yet
  acknowledged it; the login is processed, and its message is still there to be routed again.
\<close>

abbreviation proc_of :: "(string set \<times> (string \<rightharpoonup> string)) queues \<Rightarrow> (qmsg \<times> settle option) list \<Rightarrow> qmsg option
    \<Rightarrow> (qmsg \<times> settle option) list \<Rightarrow> (string set \<times> (string \<rightharpoonup> string)) service_proc" where
  "proc_of q ing hand run \<equiv> \<lparr>sp_q = q, sp_ing = ing, sp_hand = hand, sp_run = run\<rparr>"

abbreviation demo_again :: "(string set \<times> (string \<rightharpoonup> string)) queues" where
  "demo_again \<equiv> demo_routed\<lparr>qw_main := [demo_msg]\<rparr>"

lemma crash_demo_steps:
  "ingress_take demo_msg (service_start demo_accepted) = proc_of (demo_accepted\<lparr>qw_main := []\<rparr>) [(demo_msg, None)] None []"
  "ingress_work ''iot'' demo_msg (proc_of (demo_accepted\<lparr>qw_main := []\<rparr>) [(demo_msg, None)] None []) =
     proc_of demo_routed [(demo_msg, Some Ack)] None []"
  "service_crash (proc_of demo_routed [(demo_msg, Some Ack)] None []) = proc_of demo_again [] None []"
  "login_take demo_msg (proc_of demo_again [] None []) = proc_of (demo_again\<lparr>qw_login := []\<rparr>) [] (Some demo_msg) []"
  "login_start demo_msg (proc_of (demo_again\<lparr>qw_login := []\<rparr>) [] (Some demo_msg) []) =
     proc_of (demo_again\<lparr>qw_login := []\<rparr>) [] None [(demo_msg, None)]"
  "login_work (\<lambda>_. Inr path_req) no_span mem_backend demo_msg (proc_of (demo_again\<lparr>qw_login := []\<rparr>) [] None [(demo_msg, None)]) =
     proc_of (demo_again\<lparr>qw_login := [], qw_back := ({''d1''}, [GetCacheConn ''d1'' \<mapsto> ''ws''])\<rparr>) [] None [(demo_msg, Some Ack)]"
  "login_settle demo_msg Ack
     (proc_of (demo_again\<lparr>qw_login := [], qw_back := ({''d1''}, [GetCacheConn ''d1'' \<mapsto> ''ws''])\<rparr>) [] None [(demo_msg, Some Ack)]) =
     proc_of (demo_recorded\<lparr>qw_main := [demo_msg]\<rparr>) [] None []"
  using demo_command
  by (simp_all add: ingress_take_def service_start_def ingress_work_def ingress_def HandleAllNatsMessage_def cmdWorkers_def
      broker_publish_def broker_answer_def demo_start_def path_start_def service_crash_def in_hand_of_def login_take_def
      login_start_def login_settle_def Let_def)
    (simp add: login_work_def settle_message_def processMessage_def metadata_def demo_msg_def push_msg_def path_req_def
      empty_req_def Iotdevice_def logic_of_def login_Iotdevice_def mem_backend_def GetOneBySn_def Let_def)

lemma crash_demo_reachable:
  "\<exists>g. service_reachable path_fn ''iot'' (\<lambda>_. Inr path_req) no_span mem_backend 256
     (g, proc_of (demo_recorded\<lparr>qw_main := [demo_msg]\<rparr>) [] None [])"
proof -
  let ?reach = "service_reachable path_fn ''iot'' (\<lambda>_. Inr path_req) no_span mem_backend 256"
  obtain g where "gw_step path_fn (gw_start, demo_start) (g, demo_accepted)" using demo_push_step by blast
  then have "service_step path_fn ''iot'' (\<lambda>_. Inr path_req) no_span mem_backend 256
      (gw_start, service_start demo_start) (g, (service_start demo_start)\<lparr>sp_q := demo_accepted\<rparr>)"
    by (intro node_event) (simp add: service_start_def)
  then have 0: "?reach (g, service_start demo_accepted)"
    using service_init [of path_fn "''iot''" "\<lambda>_. Inr path_req" no_span mem_backend 256, folded demo_start_def]
    by (auto simp: service_start_def demo_start_def intro: service_more)
  note 1 = service_more [OF 0 ingress_takes [of demo_msg], unfolded crash_demo_steps]
  note 2 = service_more [OF 1 ingress_works [of demo_msg], unfolded crash_demo_steps]
  note 3 = service_more [OF 2 crashes, unfolded crash_demo_steps]
  note 4 = service_more [OF 3 login_takes [of demo_msg], unfolded crash_demo_steps]
  note 5 = service_more [OF 4 login_starts [of _ demo_msg], unfolded crash_demo_steps]
  note 6 = service_more [OF 5 login_works [of demo_msg], unfolded crash_demo_steps]
  note 7 = service_more [OF 6 login_settles [of demo_msg Ack], unfolded crash_demo_steps]
  show ?thesis using 7 by (intro exI [of _ g]) (simp add: service_start_def)
qed


end
