(* ===== verification/QueueDrain.thy ===== *)
theory QueueDrain
  imports QueuePath
begin

text \<open>
  That the queue path delivers: while the service's backend answers and the nodes publish nothing more, the turns
  of the two consumers (\<open>src/app/iotdevice\<close>, \<open>handler/nats/routes.go\<close>) empty both queues, in whatever order
  the goroutines take the messages, and leave every login recorded.
\<close>

section \<open>Turns of the consumers\<close>

inductive consumer_turn ::
  "string \<Rightarrow> (string \<Rightarrow> go_error + DeviceConnectReq) \<Rightarrow> span_ctx \<Rightarrow> 'b backend \<Rightarrow> 'b queues \<Rightarrow> 'b queues \<Rightarrow> bool"
  for subj unmarshal ctx b where
  takes_ingress: "m \<in> set (qw_main w) \<Longrightarrow> consumer_turn subj unmarshal ctx b w (ingress_turn subj m w)"
| takes_login: "m \<in> set (qw_login w) \<Longrightarrow> consumer_turn subj unmarshal ctx b w (login_turn unmarshal ctx b m w)"

text \<open>They are steps of the system.\<close>

lemma consumer_turn_step: "consumer_turn subj unmarshal ctx b w w' \<Longrightarrow> path_step fn subj unmarshal ctx b (g, w) (g, w')"
  by (induction rule: consumer_turn.induct) (auto intro: at_ingress at_login)

lemma consumer_turn_possible:
  "(\<exists>w'. consumer_turn subj unmarshal ctx b w w') \<longleftrightarrow> qw_main w \<noteq> [] \<or> qw_login w \<noteq> []"
  by (auto intro: consumer_turn.intros elim!: consumer_turn.cases) (meson consumer_turn.intros last_in_set)+

section \<open>Messages that can be delivered\<close>

text \<open>The backend answers: a known device is found, a key can be set.\<close>

definition backend_serves :: "'b backend \<Rightarrow> ('b \<Rightarrow> string set) \<Rightarrow> bool" where
  "backend_serves b devs \<longleftrightarrow>
     (\<forall>sn w. sn \<in> devs w \<longrightarrow> (\<exists>row. fst (query_row b (select_by ''sn'') [ArgText sn] w) = Inr row)) \<and>
     (\<forall>k v t w. fst (redis_set b k v t w) = None)"

text \<open>A message the login consumer can process.\<close>

definition deliverable ::
  "(string \<Rightarrow> go_error + DeviceConnectReq) \<Rightarrow> string set \<Rightarrow> qmsg \<Rightarrow> bool" where
  "deliverable unmarshal known m \<longleftrightarrow>
     (case unmarshal (msg_payload m) of
        Inl _ \<Rightarrow> False
      | Inr req \<Rightarrow> Cmd req = ''login'' \<longrightarrow> Sn req \<noteq> [] \<and> Sn req \<in> known)"

lemma login_answers:
  assumes "backend_laws b devs pres" and "backend_serves b devs" and "Sn req \<noteq> []" and "Sn req \<in> devs w"
  shows "\<exists>resp w'. login_Iotdevice b req w = (Inr resp, w')"
proof -
  obtain v w1 where G: "redis_get b (GetCacheConn (Sn req)) w = (v, w1)" by fastforce
  then have "devs w1 = devs w" using assms(1) unfolding backend_laws_def by blast
  then obtain row w2 where Q: "query_row b (select_by ''sn'') [ArgText (Sn req)] w1 = (Inr row, w2)"
    using assms(2,4) unfolding backend_serves_def by (metis prod.collapse)
  obtain w3 where "redis_set b (GetCacheConn (Sn req)) (ServiceName req) ConnTime w2 = (None, w3)"
    using assms(2) unfolding backend_serves_def by (metis prod.collapse)
  then show ?thesis using assms(3) G Q by (simp add: login_Iotdevice_def GetOneBySn_def Let_def)
qed

lemma deliverable_acked:
  assumes "backend_laws b devs pres" and "backend_serves b devs" and "deliverable unmarshal (devs bk) m"
  shows "fst (settle_message unmarshal ctx b m bk) = Ack"
proof -
  obtain req where u: "unmarshal (msg_payload m) = Inr req"
    and k: "Cmd req = ''login'' \<Longrightarrow> Sn req \<noteq> [] \<and> Sn req \<in> devs bk"
    using assms(3) by (auto simp: deliverable_def split: sum.splits)
  define req1 where "req1 = (if metadata m ''ConnId'' \<noteq> [] then req\<lparr>ConnId := metadata m ''ConnId''\<rparr> else req)"
  define req2 where "req2 = (if metadata m ''ServiceName'' \<noteq> []
      then req1\<lparr>ServiceName := metadata m ''ServiceName''\<rparr> else req1)"
  have f: "Cmd req2 = Cmd req" "Sn req2 = Sn req" by (simp_all add: req1_def req2_def)
  have "\<exists>resp w'. logic_of (Cmd req2) b req2 bk = (Inr resp, w')"
    using login_answers [OF assms(1,2), of req2 bk] k f by (auto simp: logic_of_def error_Iotdevice_def)
  then show ?thesis
    by (auto simp: settle_message_def processMessage_def u Iotdevice_def Let_def simp flip: req1_def req2_def)
qed

section \<open>The measure\<close>

text \<open>A turn either moves a message on or uses up a refusal of the broker.\<close>

definition turns_left :: "'b queues \<Rightarrow> nat" where
  "turns_left w = 2 * length (qw_main w) + length (qw_login w) + length (qw_outcomes w)"

lemma length_remove1_Suc: "x \<in> set xs \<Longrightarrow> Suc (length (remove1 x xs)) = length xs"
  by (induction xs) auto

lemma ingress_turn_less:
  assumes "m \<in> set (qw_main w)"
  shows "turns_left (ingress_turn subj m w) < turns_left w"
proof -
  have l: "length (qw_main w) = Suc (length (remove1 m (qw_main w)))" using length_remove1_Suc [OF assms] by simp
  show ?thesis
    by (cases "qw_outcomes w"; cases "hd (qw_outcomes w)")
      (simp_all add: ingress_turn_def ingress_def HandleAllNatsMessage_def cmdWorkers_def cmdWorkers_dom broker_publish_def
        broker_answer_def turns_left_def l Let_def)
qed

text \<open>What holds of the messages that are still on their way.\<close>

definition all_deliverable :: "('b \<Rightarrow> string set) \<Rightarrow> (string \<Rightarrow> go_error + DeviceConnectReq) \<Rightarrow> 'b queues \<Rightarrow> bool" where
  "all_deliverable devs unmarshal w \<longleftrightarrow>
     (\<forall>m\<in>set (qw_main w) \<union> set (qw_login w). extractCmd (msg_payload m) = ''login'' \<longrightarrow>
        deliverable unmarshal (devs (qw_back w)) m)"

lemma ingress_turn_queues:
  assumes "m \<in> set (qw_main w)"
  shows "set (qw_main (ingress_turn subj m w)) \<union> set (qw_login (ingress_turn subj m w)) \<subseteq>
      set (qw_main w) \<union> set (qw_login w)"
    and "qw_back (ingress_turn subj m w) = qw_back w" and "qw_accepted (ingress_turn subj m w) = qw_accepted w"
  using assms set_remove1_subset [of m "qw_main w"]
  by (cases "broker_answer (w\<lparr>qw_main := remove1 m (qw_main w)\<rparr>)";
      auto simp: ingress_turn_def ingress_def HandleAllNatsMessage_def cmdWorkers_def cmdWorkers_dom broker_publish_def
        Let_def)+

text \<open>One turn, on a state in which everything can be delivered.\<close>

lemma turn_progress:
  assumes "consumer_turn subj unmarshal ctx b w w'" and "path_inv devs pres unmarshal service w"
    and "all_deliverable devs unmarshal w" and "backend_laws b devs pres" and "backend_serves b devs" and "service \<noteq> []"
  shows "turns_left w' < turns_left w \<and> path_inv devs pres unmarshal service w' \<and>
     all_deliverable devs unmarshal w' \<and> qw_accepted w' = qw_accepted w"
  using assms(1)
proof cases
  case (takes_ingress m)
  then show ?thesis
    using ingress_turn_less [of m w subj] ingress_turn_inv [OF assms(2)] ingress_turn_queues [of m w subj] assms(3)
    by (auto simp: all_deliverable_def)
next
  case (takes_login m)
  obtain st bk where S: "settle_message unmarshal ctx b m (qw_back w) = (st, bk)" by fastforce
  have m: "metadata m ''ServiceName'' = service" "extractCmd (msg_payload m) = ''login''"
    using assms(2) takes_login by (auto simp: path_inv_def)
  then have "deliverable unmarshal (devs (qw_back w)) m" using assms(3) takes_login by (auto simp: all_deliverable_def)
  from deliverable_acked [OF assms(4,5) this, of ctx] have "st = Ack" by (simp add: S)
  then have turn: "login_turn unmarshal ctx b m w =
      w\<lparr>qw_back := bk, qw_login := remove1 m (qw_login w), qw_done := m # qw_done w\<rparr>"
    by (simp add: login_turn_def S)
  have devs: "devs bk = devs (qw_back w)" by (rule settle_message_effect(1) [OF assms(4,6) m(1) S])
  have inv: "path_inv devs pres unmarshal service (login_turn unmarshal ctx b m w)"
    by (rule login_turn_inv [OF assms(2) takes_login(2) assms(4,6)])
  show ?thesis
    using inv devs takes_login(2) assms(3) length_remove1_Suc [OF takes_login(2)] set_remove1_subset [of m "qw_login w"]
    unfolding takes_login(1) turn by (auto simp: all_deliverable_def turns_left_def)
qed

lemma turns_progress:
  assumes "(consumer_turn subj unmarshal ctx b ^^ n) w w'" and "path_inv devs pres unmarshal service w"
    and "all_deliverable devs unmarshal w" and "backend_laws b devs pres" and "backend_serves b devs" and "service \<noteq> []"
  shows "turns_left w' + n \<le> turns_left w \<and> path_inv devs pres unmarshal service w' \<and>
     all_deliverable devs unmarshal w' \<and> qw_accepted w' = qw_accepted w"
  using assms(1)
proof (induction n arbitrary: w')
  case 0
  then show ?case using assms(2,3) by simp
next
  case (Suc n)
  then obtain w1 where w1: "(consumer_turn subj unmarshal ctx b ^^ n) w w1" "consumer_turn subj unmarshal ctx b w1 w'" by auto
  have ih: "turns_left w1 + n \<le> turns_left w" "path_inv devs pres unmarshal service w1"
    "all_deliverable devs unmarshal w1" "qw_accepted w1 = qw_accepted w"
    using Suc.IH [OF w1(1)] by simp_all
  show ?case using turn_progress [OF w1(2) ih(2,3) assms(4-6)] ih(1,4) by simp
qed

text \<open>
  The queue delivers: from any state the system can reach in which the waiting logins name known devices, and
  while the backend answers, the consumers take no more turns than two for each message at the ingress, one for each
  at the login consumer and one for each refusal the broker still has in store, whatever the order in which goroutines
  take the messages; and when no turn is left to take, both queues are empty, every accepted message that reads as
  a login command has been acknowledged by the login consumer, and the presence key of its device names the node.
\<close>

theorem queue_path_delivers:
  assumes "path_reachable (ws_fn (client_Push grpc_push
        (\<lambda>i. nats_transport nc (broker_publish subj) ctx_done wait uuid d) http_push) (sys_cli sys))
        subj unmarshal ctx b (g, w)"
    and "grows grow" and "dc_reachable grow mq sys"
    and "\<not> has_mode (dc_mode (sys_cli sys)) ModeHTTP" and "\<not> has_mode (dc_mode (sys_cli sys)) ModeGRPC"
    and "\<And>w. snd (ctx_done w) = w" and "\<And>w. snd (wait w) = w"
    and "nats_serviceName d = service" and "subject d = subj" and "service \<noteq> []" and "backend_laws b devs pres"
    and "backend_serves b devs" and "all_deliverable devs unmarshal w"
    and "(consumer_turn subj unmarshal ctx b ^^ n) w w'"
  shows "n \<le> 2 * length (qw_main w) + length (qw_login w) + length (qw_outcomes w) \<and>
     ((\<nexists>w''. consumer_turn subj unmarshal ctx b w' w'') \<longrightarrow>
        qw_main w' = [] \<and> qw_login w' = [] \<and>
        (\<forall>m\<in>set (qw_accepted w). extractCmd (msg_payload m) = ''login'' \<longrightarrow>
           m \<in> set (qw_done w') \<and>
           (\<exists>req. unmarshal (msg_payload m) = Inr req \<and>
              (Cmd req = ''login'' \<longrightarrow> pres (qw_back w') (GetCacheConn (Sn req)) = Some service))))"
proof -
  have "path_inv devs pres unmarshal service w" using path_inv_reachable [OF assms(1-11)] by simp
  from turns_progress [OF assms(14) this assms(13,11,12,10)]
  have n: "n \<le> turns_left w" and inv: "path_inv devs pres unmarshal service w'" and acc: "qw_accepted w' = qw_accepted w"
    by simp_all
  have "m \<in> set (qw_done w') \<and> (\<exists>req. unmarshal (msg_payload m) = Inr req \<and>
      (Cmd req = ''login'' \<longrightarrow> pres (qw_back w') (GetCacheConn (Sn req)) = Some service))"
    if "qw_main w' = []" "qw_login w' = []" "m \<in> set (qw_accepted w)" "extractCmd (msg_payload m) = ''login''" for m
  proof -
    have "mset (qw_accepted w) = mset (qw_dropped w') + mset (qw_done w')"
      using inv that(1,2) by (simp add: path_inv_def acc)
    then have "m \<in> set (qw_dropped w') \<or> m \<in> set (qw_done w')"
      using that(3) by (metis Un_iff set_mset_mset set_mset_union)
    then have "m \<in> set (qw_done w')" using inv that(4) by (auto simp: path_inv_def)
    then show ?thesis using inv by (auto simp: path_inv_def login_recorded_def)
  qed
  then show ?thesis using n by (auto simp: turns_left_def consumer_turn_possible)
qed

text \<open>The device of \<open>queue_path_loses_nothing\<close>, from the accepted push on: two turns.\<close>

theorem queue_path_delivers_witness:
  "\<exists>w'. (consumer_turn ''iot'' (\<lambda>_. Inr path_req) no_span mem_backend ^^ 2) demo_accepted w' \<and>
     (2::nat) \<le> 2 * length (qw_main demo_accepted) + length (qw_login demo_accepted) + length (qw_outcomes demo_accepted) \<and>
     demo_msg \<in> set (qw_done w') \<and> snd (qw_back w') (GetCacheConn ''d1'') = Some ''ws''"
proof -
  let ?turn = "consumer_turn ''iot'' (\<lambda>_. Inr path_req) no_span mem_backend"
  obtain g where r: "path_reachable path_fn ''iot'' (\<lambda>_. Inr path_req) no_span mem_backend (g, demo_accepted)"
    using demo_push by blast
  have "demo_msg \<in> set (qw_main demo_accepted)" "demo_msg \<in> set (qw_login demo_routed)" by simp_all
  from takes_ingress [OF this(1)] takes_login [OF this(2)]
  have "?turn demo_accepted demo_routed" "?turn demo_routed demo_recorded" by (metis demo_ingress, metis demo_login)
  then have t: "(?turn ^^ 2) demo_accepted demo_recorded" by (auto simp: numeral_2_eq_2)
  have s: "backend_serves mem_backend fst" by (simp add: backend_serves_def mem_backend_def)
  have a: "all_deliverable fst (\<lambda>_. Inr path_req) demo_accepted"
    by (simp add: all_deliverable_def deliverable_def path_req_def empty_req_def demo_start_def path_start_def)
  have no: "\<nexists>w''. ?turn demo_recorded w''" unfolding consumer_turn_possible by (simp add: demo_start_def path_start_def)
  note D = queue_path_delivers [OF r [unfolded path_fn_def] grows_exact start_sys_reachable demo_modes
      _ _ _ _ _ mem_backend_laws s a t]
  show ?thesis
    using t D no demo_command by (intro exI [of _ demo_recorded]) (simp add: path_req_def empty_req_def)
qed

end
