(* ===== verification/CrashDrain.thy ===== *)
theory CrashDrain
  imports CrashPath QueueDrain
begin

text \<open>
  That a service which has been killed, any number of times, delivers once it stays up: goroutine by
  goroutine and with the slots of the login consumer, the consumers of
  \<open>src/app/iotdevice/cmd/internal/handler/nats/routes.go\<close> empty both queues in a bounded number of actions, and
  no order of their goroutines blocks them.
\<close>

section \<open>What the service does by itself\<close>

inductive service_turn ::
  "string \<Rightarrow> (string \<Rightarrow> go_error + DeviceConnectReq) \<Rightarrow> span_ctx \<Rightarrow> 'b backend \<Rightarrow> nat
     \<Rightarrow> 'b service_proc \<Rightarrow> 'b service_proc \<Rightarrow> bool" for subj unmarshal ctx b capacity where
  turn_ingress_take: "m \<in> set (qw_main (sp_q s)) \<Longrightarrow> service_turn subj unmarshal ctx b capacity s (ingress_take m s)"
| turn_ingress_work: "(m, None) \<in> set (sp_ing s) \<Longrightarrow> service_turn subj unmarshal ctx b capacity s (ingress_work subj m s)"
| turn_ingress_settle: "(m, Some st) \<in> set (sp_ing s) \<Longrightarrow>
     service_turn subj unmarshal ctx b capacity s (ingress_settle m st s)"
| turn_login_take: "m \<in> set (qw_login (sp_q s)) \<Longrightarrow> sp_hand s = None \<Longrightarrow>
     service_turn subj unmarshal ctx b capacity s (login_take m s)"
| turn_login_start: "sp_hand s = Some m \<Longrightarrow> length (sp_run s) < capacity \<Longrightarrow>
     service_turn subj unmarshal ctx b capacity s (login_start m s)"
| turn_login_work: "(m, None) \<in> set (sp_run s) \<Longrightarrow>
     service_turn subj unmarshal ctx b capacity s (login_work unmarshal ctx b m s)"
| turn_login_settle: "(m, Some st) \<in> set (sp_run s) \<Longrightarrow>
     service_turn subj unmarshal ctx b capacity s (login_settle m st s)"

text \<open>These are the steps of the system that are neither a node's nor a crash.\<close>

lemma service_turn_step:
  "service_turn subj unmarshal ctx b capacity s t \<Longrightarrow> service_step fn subj unmarshal ctx b capacity (g, s) (g, t)"
  by (induction rule: service_turn.induct) (auto intro: service_step.intros)

text \<open>As long as a message waits or is worked on there is something to do: the slots never block for ever.\<close>

lemma service_turn_possible:
  assumes "0 < capacity" and "sp_pending s \<noteq> {}"
  shows "\<exists>t. service_turn subj unmarshal ctx b capacity s t"
proof -
  consider (main) m where "m \<in> set (qw_main (sp_q s))" | (ing) m st where "(m, st) \<in> set (sp_ing s)"
    | (run) m st where "(m, st) \<in> set (sp_run s)" | (hand) m where "sp_hand s = Some m" "sp_run s = []"
    | (login) m where "m \<in> set (qw_login (sp_q s))" "sp_hand s = None"
    using assms(2) by (cases "sp_hand s"; cases "sp_run s") (fastforce simp: sp_sets)+
  then show ?thesis
  proof cases
    case (ing m st)
    then show ?thesis by (cases st) (blast intro: service_turn.intros)+
  next
    case (run m st)
    then show ?thesis by (cases st) (blast intro: service_turn.intros)+
  next
    case hand
    then have "length (sp_run s) < capacity" using assms(1) by simp
    then show ?thesis using hand by (blast intro: service_turn.intros)
  qed (blast intro: service_turn.intros)+
qed

section \<open>The measure\<close>

text \<open>
  What is left to do for a message at each of its places: a message that is to be handed back counts more than
  one that waits, and a refusal the broker has in store pays for it.
\<close>

fun ing_left :: "qmsg \<times> settle option \<Rightarrow> nat" where
  "ing_left (m, None) = 6" | "ing_left (m, Some Ack) = 1" | "ing_left (m, Some Nack) = 8"

fun run_left :: "qmsg \<times> settle option \<Rightarrow> nat" where
  "run_left (m, None) = 2" | "run_left (m, Some Ack) = 1" | "run_left (m, Some Nack) = 5"

definition service_left :: "'b service_proc \<Rightarrow> nat" where
  "service_left s = 3 * length (qw_outcomes (sp_q s)) + 7 * length (qw_main (sp_q s)) + sum_list (map ing_left (sp_ing s)) +
     4 * length (qw_login (sp_q s)) + 3 * length (in_hand_of s) + sum_list (map run_left (sp_run s))"

lemma sum_list_remove1:
  "x \<in> set xs \<Longrightarrow> sum_list (map f xs) = f x + sum_list (map f (remove1 x xs))" for f :: "'a \<Rightarrow> nat"
  by (induction xs) auto

lemma length_remove1_eq: "x \<in> set xs \<Longrightarrow> length xs = Suc (length (remove1 x xs))"
  using length_remove1_Suc [of x xs] by simp

definition logins_deliverable ::
  "('b \<Rightarrow> string set) \<Rightarrow> (string \<Rightarrow> go_error + DeviceConnectReq) \<Rightarrow> 'b service_proc \<Rightarrow> bool" where
  "logins_deliverable devs unmarshal s \<longleftrightarrow>
     (\<forall>m\<in>sp_pending s. is_login m \<longrightarrow> deliverable unmarshal (devs (qw_back (sp_q s))) m)"

lemma ingress_work_left:
  assumes "(m, None) \<in> set (sp_ing s)"
  shows "service_left (ingress_work subj m s) < service_left s"
proof -
  note i = sum_list_remove1 [OF assms, of ing_left]
  show ?thesis
  proof (cases rule: ingress_cases [of m subj "sp_q s"])
    case 3
    have "qw_outcomes (sp_q s) \<noteq> []"
    proof
      assume "qw_outcomes (sp_q s) = []"
      then have "fst (ingress (broker_publish subj) subj m (sp_q s)) = [Ack]"
        by (simp add: ingress_def HandleAllNatsMessage_def broker_publish_def broker_answer_def Let_def)
      then show False using 3(2) by simp
    qed
    then show ?thesis using 3 i
      by (cases "qw_outcomes (sp_q s)") (simp_all add: ingress_work_def service_left_def in_hand_of_def)
  qed (use i in \<open>simp_all add: ingress_work_def service_left_def in_hand_of_def\<close>)
qed

text \<open>What a turn leaves alone.\<close>

lemma service_turn_frame:
  assumes "service_turn subj unmarshal ctx b capacity s t"
  shows "qw_accepted (sp_q t) = qw_accepted (sp_q s)" and "sp_pending t \<subseteq> sp_pending s"
    and "qw_back (sp_q t) = qw_back (sp_q s) \<or>
      (\<exists>m. (m, None) \<in> set (sp_run s) \<and> qw_back (sp_q t) = snd (settle_message unmarshal ctx b m (qw_back (sp_q s))))"
proof -
  have "qw_accepted (sp_q t) = qw_accepted (sp_q s) \<and> sp_pending t \<subseteq> sp_pending s \<and>
    (qw_back (sp_q t) = qw_back (sp_q s) \<or>
      (\<exists>m. (m, None) \<in> set (sp_run s) \<and> qw_back (sp_q t) = snd (settle_message unmarshal ctx b m (qw_back (sp_q s)))))"
    using assms
  proof cases
    case (turn_ingress_take m)
    then show ?thesis using set_remove1_subset [of m "qw_main (sp_q s)"] by (auto simp: ingress_take_def sp_pending_def in_hand_of_def)
  next
    case (turn_ingress_work m)
    have r: "fst ` set (remove1 (m, None) (sp_ing s)) \<subseteq> fst ` set (sp_ing s)" "m \<in> fst ` set (sp_ing s)"
      using turn_ingress_work(2) set_remove1_subset by (fastforce, force)
    show ?thesis
      by (cases rule: ingress_cases [of m subj "sp_q s"])
        (use r in \<open>auto simp: turn_ingress_work(1) ingress_work_def sp_pending_def in_hand_of_def simp del: image_Un\<close>)
  next
    case (turn_ingress_settle m st)
    have r: "fst ` set (remove1 (m, Some st) (sp_ing s)) \<subseteq> fst ` set (sp_ing s)" "m \<in> fst ` set (sp_ing s)"
      using turn_ingress_settle(2) set_remove1_subset by (fastforce, force)
    then show ?thesis unfolding turn_ingress_settle(1)
      by (cases st) (auto simp: ingress_settle_def sp_pending_def in_hand_of_def Let_def)
  next
    case (turn_login_take m)
    then show ?thesis using set_remove1_subset [of m "qw_login (sp_q s)"] by (auto simp: login_take_def sp_pending_def in_hand_of_def)
  next
    case (turn_login_start m)
    then show ?thesis by (auto simp: login_start_def sp_pending_def in_hand_of_def)
  next
    case (turn_login_work m)
    have r: "fst ` set (remove1 (m, None) (sp_run s)) \<subseteq> fst ` set (sp_run s)" "m \<in> fst ` set (sp_run s)"
      using turn_login_work(2) set_remove1_subset by (fastforce, force)
    then show ?thesis using turn_login_work
      by (auto simp: login_work_def sp_pending_def in_hand_of_def Let_def case_prod_beta)
  next
    case (turn_login_settle m st)
    have r: "fst ` set (remove1 (m, Some st) (sp_run s)) \<subseteq> fst ` set (sp_run s)" "m \<in> fst ` set (sp_run s)"
      using turn_login_settle(2) set_remove1_subset by (fastforce, force)
    then show ?thesis unfolding turn_login_settle(1)
      by (cases st) (auto simp: login_settle_def sp_pending_def in_hand_of_def Let_def)
  qed
  then show "qw_accepted (sp_q t) = qw_accepted (sp_q s)" and "sp_pending t \<subseteq> sp_pending s"
    and "qw_back (sp_q t) = qw_back (sp_q s) \<or>
      (\<exists>m. (m, None) \<in> set (sp_run s) \<and> qw_back (sp_q t) = snd (settle_message unmarshal ctx b m (qw_back (sp_q s))))"
    by blast+
qed

lemma service_turn_inv:
  assumes "service_turn subj unmarshal ctx b capacity s t" and "sp_inv devs pres unmarshal service capacity s"
    and "backend_laws b devs pres" and "service \<noteq> []"
  shows "sp_inv devs pres unmarshal service capacity t"
  using assms(1)
proof cases
  case (turn_login_work m)
  then show ?thesis using login_work_inv [OF assms(2) _ assms(3,4)] by simp
qed (use assms(2) in \<open>auto intro: inv_intros\<close>)

lemma service_turn_less:
  assumes "service_turn subj unmarshal ctx b capacity s t" and "sp_inv devs pres unmarshal service capacity s"
    and "logins_deliverable devs unmarshal s" and "backend_laws b devs pres" and "backend_serves b devs"
  shows "service_left t < service_left s"
  using assms(1)
proof cases
  case (turn_ingress_take m)
  then show ?thesis using length_remove1_eq [of m "qw_main (sp_q s)"]
    by (simp add: ingress_take_def service_left_def in_hand_of_def)
next
  case (turn_ingress_work m)
  then show ?thesis using ingress_work_left by simp
next
  case (turn_ingress_settle m st)
  then show ?thesis using sum_list_remove1 [OF turn_ingress_settle(2), of ing_left]
    by (cases st) (simp_all add: ingress_settle_def service_left_def in_hand_of_def Let_def)
next
  case (turn_login_take m)
  then show ?thesis using length_remove1_eq [of m "qw_login (sp_q s)"]
    by (simp add: login_take_def service_left_def in_hand_of_def)
next
  case (turn_login_start m)
  then show ?thesis by (simp add: login_start_def service_left_def in_hand_of_def)
next
  case (turn_login_work m)
  have "m \<in> sp_pending s" "m \<in> sp_logins s" using turn_login_work(2) by (force simp: sp_sets)+
  then have "deliverable unmarshal (devs (qw_back (sp_q s))) m"
    using assms(2,3) by (simp add: sp_inv_def logins_deliverable_def)
  from deliverable_acked [OF assms(4,5) this, of ctx]
  obtain bk where "settle_message unmarshal ctx b m (qw_back (sp_q s)) = (Ack, bk)" by (metis prod.collapse)
  then show ?thesis using turn_login_work sum_list_remove1 [OF turn_login_work(2), of run_left]
    by (simp add: login_work_def service_left_def in_hand_of_def)
next
  case (turn_login_settle m st)
  then show ?thesis using sum_list_remove1 [OF turn_login_settle(2), of run_left]
    by (cases st) (simp_all add: login_settle_def service_left_def in_hand_of_def Let_def)
qed

lemma service_turn_deliverable:
  assumes "service_turn subj unmarshal ctx b capacity s t" and "sp_inv devs pres unmarshal service capacity s"
    and "logins_deliverable devs unmarshal s" and "backend_laws b devs pres" and "service \<noteq> []"
  shows "logins_deliverable devs unmarshal t"
proof -
  have "devs (qw_back (sp_q t)) = devs (qw_back (sp_q s))"
    using service_turn_frame(3) [OF assms(1)]
  proof (elim disjE exE conjE)
    fix m assume m: "(m, None) \<in> set (sp_run s)"
      "qw_back (sp_q t) = snd (settle_message unmarshal ctx b m (qw_back (sp_q s)))"
    then have "m \<in> sp_pending s" by (force simp: sp_pending_def)
    then have "metadata m ''ServiceName'' = service" using assms(2) by (simp add: sp_inv_def)
    then show ?thesis using settle_message_effect(1) [OF assms(4,5)] m(2) by (metis prod.collapse)
  qed simp
  then show ?thesis using assms(3) service_turn_frame(2) [OF assms(1)] by (auto simp: logins_deliverable_def)
qed

lemma service_turns_progress:
  assumes "(service_turn subj unmarshal ctx b capacity ^^ n) s t" and "sp_inv devs pres unmarshal service capacity s"
    and "logins_deliverable devs unmarshal s" and "backend_laws b devs pres" and "backend_serves b devs" and "service \<noteq> []"
  shows "service_left t + n \<le> service_left s \<and> sp_inv devs pres unmarshal service capacity t \<and>
     logins_deliverable devs unmarshal t \<and> qw_accepted (sp_q t) = qw_accepted (sp_q s)"
  using assms(1)
proof (induction n arbitrary: t)
  case 0
  then show ?case using assms(2,3) by simp
next
  case (Suc n)
  then obtain u where u: "(service_turn subj unmarshal ctx b capacity ^^ n) s u" "service_turn subj unmarshal ctx b capacity u t"
    by auto
  note ih = Suc.IH [OF u(1)]
  have "service_left t < service_left u" using service_turn_less [OF u(2)] ih assms(4,5) by blast
  moreover have "sp_inv devs pres unmarshal service capacity t" using service_turn_inv [OF u(2)] ih assms(4,6) by blast
  moreover have "logins_deliverable devs unmarshal t" using service_turn_deliverable [OF u(2)] ih assms(4,6) by blast
  ultimately show ?case using ih service_turn_frame(1) [OF u(2)] by simp
qed


text \<open>
  The service of \<open>queue_path_survives_crashes\<close>: the copy of the login that the kill left at the ingress is routed
  and processed again, in seven actions.
\<close>

abbreviation twice_done :: "(string set \<times> (string \<rightharpoonup> string)) queues" where
  "twice_done \<equiv> demo_recorded\<lparr>qw_done := [demo_msg, demo_msg]\<rparr>"

lemma drain_demo_steps:
  "ingress_take demo_msg (proc_of (demo_recorded\<lparr>qw_main := [demo_msg]\<rparr>) [] None []) =
     proc_of demo_recorded [(demo_msg, None)] None []"
  "ingress_work ''iot'' demo_msg (proc_of demo_recorded [(demo_msg, None)] None []) =
     proc_of (demo_recorded\<lparr>qw_login := [demo_msg]\<rparr>) [(demo_msg, Some Ack)] None []"
  "ingress_settle demo_msg Ack (proc_of (demo_recorded\<lparr>qw_login := [demo_msg]\<rparr>) [(demo_msg, Some Ack)] None []) =
     proc_of (demo_recorded\<lparr>qw_login := [demo_msg]\<rparr>) [] None []"
  "login_take demo_msg (proc_of (demo_recorded\<lparr>qw_login := [demo_msg]\<rparr>) [] None []) =
     proc_of demo_recorded [] (Some demo_msg) []"
  "login_start demo_msg (proc_of demo_recorded [] (Some demo_msg) []) = proc_of demo_recorded [] None [(demo_msg, None)]"
  "login_work (\<lambda>_. Inr path_req) no_span mem_backend demo_msg (proc_of demo_recorded [] None [(demo_msg, None)]) =
     proc_of demo_recorded [] None [(demo_msg, Some Ack)]"
  "login_settle demo_msg Ack (proc_of demo_recorded [] None [(demo_msg, Some Ack)]) = proc_of twice_done [] None []"
  using demo_command
  by (simp_all add: ingress_take_def ingress_work_def ingress_settle_def ingress_def HandleAllNatsMessage_def cmdWorkers_def
      broker_publish_def broker_answer_def demo_start_def path_start_def login_take_def is_login_def
      login_start_def login_settle_def Let_def)
    (simp add: login_work_def settle_message_def processMessage_def metadata_def demo_msg_def push_msg_def path_req_def
      empty_req_def Iotdevice_def logic_of_def login_Iotdevice_def mem_backend_def GetOneBySn_def Let_def)

lemma drain_demo_turns:
  "(service_turn ''iot'' (\<lambda>_. Inr path_req) no_span mem_backend 256 ^^ 7)
     (proc_of (demo_recorded\<lparr>qw_main := [demo_msg]\<rparr>) [] None []) (proc_of twice_done [] None [])"
proof -
  let ?turn = "service_turn ''iot'' (\<lambda>_. Inr path_req) no_span mem_backend 256"
  have 1: "?turn (proc_of (demo_recorded\<lparr>qw_main := [demo_msg]\<rparr>) [] None []) (proc_of demo_recorded [(demo_msg, None)] None [])"
    using turn_ingress_take [of demo_msg "proc_of (demo_recorded\<lparr>qw_main := [demo_msg]\<rparr>) [] None []"]
    unfolding drain_demo_steps by simp
  have 2: "?turn (proc_of demo_recorded [(demo_msg, None)] None [])
      (proc_of (demo_recorded\<lparr>qw_login := [demo_msg]\<rparr>) [(demo_msg, Some Ack)] None [])"
    using turn_ingress_work [of demo_msg "proc_of demo_recorded [(demo_msg, None)] None []" "''iot''"]
    unfolding drain_demo_steps by simp
  have 3: "?turn (proc_of (demo_recorded\<lparr>qw_login := [demo_msg]\<rparr>) [(demo_msg, Some Ack)] None [])
      (proc_of (demo_recorded\<lparr>qw_login := [demo_msg]\<rparr>) [] None [])"
    using turn_ingress_settle [of demo_msg Ack "proc_of (demo_recorded\<lparr>qw_login := [demo_msg]\<rparr>) [(demo_msg, Some Ack)] None []"]
    unfolding drain_demo_steps by simp
  have 4: "?turn (proc_of (demo_recorded\<lparr>qw_login := [demo_msg]\<rparr>) [] None []) (proc_of demo_recorded [] (Some demo_msg) [])"
    using turn_login_take [of demo_msg "proc_of (demo_recorded\<lparr>qw_login := [demo_msg]\<rparr>) [] None []"]
    unfolding drain_demo_steps by simp
  have 5: "?turn (proc_of demo_recorded [] (Some demo_msg) []) (proc_of demo_recorded [] None [(demo_msg, None)])"
    using turn_login_start [of "proc_of demo_recorded [] (Some demo_msg) []" demo_msg 256]
    unfolding drain_demo_steps by simp
  have 6: "?turn (proc_of demo_recorded [] None [(demo_msg, None)]) (proc_of demo_recorded [] None [(demo_msg, Some Ack)])"
    using turn_login_work [of demo_msg "proc_of demo_recorded [] None [(demo_msg, None)]" _ "\<lambda>_. Inr path_req" no_span mem_backend]
    unfolding drain_demo_steps by simp
  have 7: "?turn (proc_of demo_recorded [] None [(demo_msg, Some Ack)]) (proc_of twice_done [] None [])"
    using turn_login_settle [of demo_msg Ack "proc_of demo_recorded [] None [(demo_msg, Some Ack)]"]
    unfolding drain_demo_steps by simp
  note c = relpowp_Suc_I [where P = ?turn]
  have seven: "(7::nat) = Suc (Suc (Suc (Suc (Suc (Suc (Suc 0))))))" by simp
  show ?thesis unfolding seven by (rule c [OF c [OF c [OF c [OF c [OF c [OF c [OF relpowp_0_I 1] 2] 3] 4] 5] 6] 7])
qed


end
