(* ===== verification/ParallelLogin.thy ===== *)
theory ParallelLogin
  imports QueueDrain
begin

text \<open>
  Logins that run at the same time. The device service handles every HTTP request, gRPC call and message of
  the queue on a goroutine of its own, and a login
  (\<open>src/app/iotdevice/cmd/internal/logic/iotloginlogic.go\<close>) makes three calls of its backend. Elsewhere a
  login is one step; here it is split at its calls, any number of logins start and interleave, and the
  answers and the presence keys are those of the logins run one after another.
\<close>

section \<open>A login, call by call\<close>

datatype login_pc = AtCheck | AtGet | AtQuery | AtSet | Answered "go_error + response"

fun login_call :: "'w backend \<Rightarrow> DeviceConnectReq \<Rightarrow> login_pc \<Rightarrow> 'w \<Rightarrow> login_pc \<times> 'w" where
  "login_call b req AtCheck w =
     (if Sn req = [] then (Answered (Inl (NewMyError 5000 ''device sn cannot be empty'')), w) else (AtGet, w))"
| "login_call b req AtGet w = (case redis_get b (GetCacheConn (Sn req)) w of (_, w') \<Rightarrow> (AtQuery, w'))"
| "login_call b req AtQuery w =
     (case GetOneBySn b (Sn req) w of
        (Inl err, w') \<Rightarrow> (Answered (Inl err), w')
      | (Inr None, w') \<Rightarrow> (Answered (Inl (NewMyError 4000 ''device not found'')), w')
      | (Inr (Some _), w') \<Rightarrow> (AtSet, w'))"
| "login_call b req AtSet w =
     (case redis_set b (GetCacheConn (Sn req)) (ServiceName req) ConnTime w of
        (Some err, w') \<Rightarrow> (Answered (Inl err), w')
      | (None, w') \<Rightarrow> (Answered (Inr (empty_response\<lparr>rs_connId := Sn req\<rparr>)), w'))"
| "login_call b req (Answered r) w = (Answered r, w)"

text \<open>Alone, the four parts are the login.\<close>

lemma login_calls_alone:
  "((\<lambda>(pc, w). login_call b req pc w) ^^ 4) (AtCheck, w) =
     (case login_Iotdevice b req w of (r, w') \<Rightarrow> (Answered r, w'))"
  by (simp add: eval_nat_numeral login_Iotdevice_def Let_def split: prod.split sum.split option.split)

section \<open>Any number of logins\<close>

text \<open>
  A login that runs: its request, where it is, and which logins had been answered when it started. The
  state is all of them, in the order they started, the backend's world and the order of the answers.
\<close>

record login_run =
  lr_req :: DeviceConnectReq
  lr_pc :: login_pc
  lr_after :: "nat list"

record 'w logins =
  lg_runs :: "login_run list"
  lg_world :: 'w
  lg_order :: "nat list"

fun answered :: "login_pc \<Rightarrow> bool" where
  "answered (Answered r) = True"
| "answered _ = False"

definition login_turn_of :: "'w backend \<Rightarrow> nat \<Rightarrow> 'w logins \<Rightarrow> 'w logins" where
  "login_turn_of b i s =
     (let r = lg_runs s ! i; (pc, w) = login_call b (lr_req r) (lr_pc r) (lg_world s) in
      s\<lparr>lg_runs := (lg_runs s)[i := r\<lparr>lr_pc := pc\<rparr>], lg_world := w,
        lg_order := (if answered pc then lg_order s @ [i] else lg_order s)\<rparr>)"

definition login_begin :: "DeviceConnectReq \<Rightarrow> 'w logins \<Rightarrow> 'w logins" where
  "login_begin req s =
     s\<lparr>lg_runs := lg_runs s @ [\<lparr>lr_req = req, lr_pc = AtCheck, lr_after = lg_order s\<rparr>]\<rparr>"

inductive logins_step :: "'w backend \<Rightarrow> 'w logins \<Rightarrow> 'w logins \<Rightarrow> bool" for b where
  begins: "logins_step b s (login_begin req s)"
| goes_on: "i < length (lg_runs s) \<Longrightarrow> \<not> answered (lr_pc (lg_runs s ! i)) \<Longrightarrow> logins_step b s (login_turn_of b i s)"

inductive logins_reachable :: "'w backend \<Rightarrow> 'w \<Rightarrow> 'w logins \<Rightarrow> bool" for b w0 where
  no_login: "logins_reachable b w0 \<lparr>lg_runs = [], lg_world = w0, lg_order = []\<rparr>"
| more_logins: "logins_reachable b w0 s \<Longrightarrow> logins_step b s t \<Longrightarrow> logins_reachable b w0 t"

section \<open>The reference\<close>

text \<open>The logins one after another, each the whole handler.\<close>

fun run_logins :: "'w backend \<Rightarrow> DeviceConnectReq list \<Rightarrow> 'w \<Rightarrow> (go_error + response) list \<times> 'w" where
  "run_logins b [] w = ([], w)"
| "run_logins b (req # reqs) w =
     (let (r, w1) = login_Iotdevice b req w; (rs, w2) = run_logins b reqs w1 in (r # rs, w2))"

lemma run_logins_append:
  "run_logins b (xs @ ys) w =
     (let (rs, w1) = run_logins b xs w; (rs', w2) = run_logins b ys w1 in (rs @ rs', w2))"
  by (induction xs arbitrary: w) (simp_all add: Let_def case_prod_beta)

text \<open>The backend answers: it serves, and a device that is not there is reported as not found.\<close>

definition backend_answers :: "'w backend \<Rightarrow> ('w \<Rightarrow> string set) \<Rightarrow> bool" where
  "backend_answers b devs \<longleftrightarrow> backend_serves b devs \<and>
     (\<forall>sn w. sn \<notin> devs w \<longrightarrow>
        (\<exists>e. fst (query_row b (select_by ''sn'') [ArgText sn] w) = Inl e \<and> is_not_found e))"

text \<open>What a login answers and records, by the known devices.\<close>

definition login_answer :: "string set \<Rightarrow> DeviceConnectReq \<Rightarrow> go_error + response" where
  "login_answer known req =
     (if Sn req = [] then Inl (NewMyError 5000 ''device sn cannot be empty'')
      else if Sn req \<notin> known then Inl (NewMyError 4000 ''device not found'')
      else Inr (empty_response\<lparr>rs_connId := Sn req\<rparr>))"

definition login_effect :: "string set \<Rightarrow> (string \<rightharpoonup> string) \<Rightarrow> DeviceConnectReq \<Rightarrow> string \<rightharpoonup> string" where
  "login_effect known p req =
     (if Sn req \<noteq> [] \<and> Sn req \<in> known then p(GetCacheConn (Sn req) \<mapsto> ServiceName req) else p)"

lemma GetOneBySn_answers:
  assumes "backend_laws b devs pres" and "backend_answers b devs" and "GetOneBySn b sn w = (r, w')"
  shows "devs w' = devs w \<and> pres w' = pres w \<and>
     (if sn \<in> devs w then \<exists>d. r = Inr (Some d) else r = Inr None)"
proof -
  obtain q w1 where Q: "query_row b (select_by ''sn'') [ArgText sn] w = (q, w1)" by fastforce
  have "devs w1 = devs w \<and> pres w1 = pres w" using assms(1) Q unfolding backend_laws_def by blast
  moreover have "if sn \<in> devs w then \<exists>d. q = Inr d else \<exists>e. q = Inl e \<and> is_not_found e"
    using assms(2) Q unfolding backend_answers_def backend_serves_def by (metis fst_conv)
  ultimately show ?thesis
    using assms(3) Q by (auto simp: GetOneBySn_def split: if_splits sum.splits)
qed

lemma redis_get_answers:
  "backend_laws b devs pres \<Longrightarrow> redis_get b k w = (r, w') \<Longrightarrow> devs w' = devs w \<and> pres w' = pres w"
  unfolding backend_laws_def by blast

lemma redis_set_answers:
  assumes "backend_laws b devs pres" and "backend_answers b devs" and "redis_set b k v t w = (e, w')"
  shows "e = None \<and> devs w' = devs w \<and> pres w' = (pres w)(k \<mapsto> v)"
proof -
  have "e = None" using assms(2,3) unfolding backend_answers_def backend_serves_def by (metis fst_conv)
  moreover have "devs w' = devs w \<and> pres w' = (if e = None then (pres w)(k \<mapsto> v) else pres w)"
    using assms(1,3) unfolding backend_laws_def by blast
  ultimately show ?thesis by simp
qed

lemma login_Iotdevice_answers:
  assumes "backend_laws b devs pres" and "backend_answers b devs" and "login_Iotdevice b req w = (r, w')"
  shows "r = login_answer (devs w) req \<and> devs w' = devs w \<and> pres w' = login_effect (devs w) (pres w) req"
proof (cases "Sn req = []")
  case True
  then show ?thesis using assms(3) by (auto simp: login_Iotdevice_def login_answer_def login_effect_def)
next
  case False
  obtain v w1 where G: "redis_get b (GetCacheConn (Sn req)) w = (v, w1)" by fastforce
  obtain q w2 where Q: "GetOneBySn b (Sn req) w1 = (q, w2)" by fastforce
  obtain e w3 where S: "redis_set b (GetCacheConn (Sn req)) (ServiceName req) ConnTime w2 = (e, w3)" by fastforce
  show ?thesis
    using assms(3) False G Q S redis_get_answers [OF assms(1) G] GetOneBySn_answers [OF assms(1,2) Q]
      redis_set_answers [OF assms(1,2) S]
    by (auto simp: login_Iotdevice_def login_answer_def login_effect_def Let_def split: if_splits)
qed

lemma run_logins_answers:
  assumes "backend_laws b devs pres" and "backend_answers b devs" and "run_logins b reqs w = (rs, w')"
  shows "rs = map (login_answer (devs w)) reqs \<and> devs w' = devs w \<and>
     pres w' = foldl (login_effect (devs w)) (pres w) reqs"
  using assms(3)
proof (induction reqs arbitrary: w rs)
  case (Cons req reqs)
  obtain r w1 where L: "login_Iotdevice b req w = (r, w1)" by fastforce
  obtain rs1 where R: "run_logins b reqs w1 = (rs1, w')" "rs = r # rs1"
    using Cons.prems L by (auto simp: Let_def split: prod.splits)
  show ?case using login_Iotdevice_answers [OF assms(1,2) L] Cons.IH [OF R(1)] R(2) by simp
qed simp

section \<open>The invariant\<close>

fun pc_ok :: "string set \<Rightarrow> DeviceConnectReq \<Rightarrow> login_pc \<Rightarrow> bool" where
  "pc_ok known req AtCheck = True"
| "pc_ok known req AtGet = (Sn req \<noteq> [])"
| "pc_ok known req AtQuery = (Sn req \<noteq> [])"
| "pc_ok known req AtSet = (Sn req \<noteq> [] \<and> Sn req \<in> known)"
| "pc_ok known req (Answered r) = (r = login_answer known req)"

text \<open>One call: the presence changes only with the answer, and then as the whole login changes it.\<close>

lemma login_call_ok:
  assumes "backend_laws b devs pres" and "backend_answers b devs" and "login_call b req pc w = (pc', w')"
    and "pc_ok (devs w) req pc" and "\<not> answered pc"
  shows "devs w' = devs w \<and> pc_ok (devs w) req pc' \<and>
     pres w' = (if answered pc' then login_effect (devs w) (pres w) req else pres w)"
proof (cases pc)
  case AtCheck
  then show ?thesis using assms(3) by (auto simp: login_answer_def login_effect_def split: if_splits)
next
  case AtGet
  obtain v w1 where G: "redis_get b (GetCacheConn (Sn req)) w = (v, w1)" by fastforce
  then have "pc' = AtQuery" "w' = w1" using AtGet assms(3) by simp_all
  then show ?thesis using AtGet assms(4) redis_get_answers [OF assms(1) G] by simp
next
  case AtQuery
  obtain q w2 where Q: "GetOneBySn b (Sn req) w = (q, w2)" by fastforce
  note r = GetOneBySn_answers [OF assms(1,2) Q]
  show ?thesis
  proof (cases "Sn req \<in> devs w")
    case True
    with r obtain d where "q = Inr (Some d)" by auto
    then have "pc' = AtSet" "w' = w2" using AtQuery assms(3) Q by simp_all
    then show ?thesis using r True AtQuery assms(4) by simp
  next
    case False
    with r have "q = Inr None" by simp
    then have "pc' = Answered (Inl (NewMyError 4000 ''device not found''))" "w' = w2"
      using AtQuery assms(3) Q by simp_all
    then show ?thesis using r False AtQuery assms(4) by (simp add: login_answer_def login_effect_def)
  qed
next
  case AtSet
  obtain e w2 where S: "redis_set b (GetCacheConn (Sn req)) (ServiceName req) ConnTime w = (e, w2)" by fastforce
  show ?thesis
    using AtSet assms(3,4) S redis_set_answers [OF assms(1,2) S]
    by (auto simp: login_answer_def login_effect_def)
next
  case (Answered r)
  then show ?thesis using assms(5) by simp
qed

definition logins_inv :: "('w \<Rightarrow> string set) \<Rightarrow> ('w \<Rightarrow> string \<rightharpoonup> string) \<Rightarrow> 'w \<Rightarrow> 'w logins \<Rightarrow> bool" where
  "logins_inv devs pres w0 s \<longleftrightarrow>
     devs (lg_world s) = devs w0 \<and>
     (\<forall>r\<in>set (lg_runs s). pc_ok (devs w0) (lr_req r) (lr_pc r)) \<and>
     distinct (lg_order s) \<and>
     set (lg_order s) = {i. i < length (lg_runs s) \<and> answered (lr_pc (lg_runs s ! i))} \<and>
     pres (lg_world s) =
       foldl (login_effect (devs w0)) (pres w0) (map (\<lambda>i. lr_req (lg_runs s ! i)) (lg_order s)) \<and>
     (\<forall>i<length (lg_runs s). i \<notin> set (lr_after (lg_runs s ! i)) \<and>
        (\<exists>vs. lg_order s = lr_after (lg_runs s ! i) @ vs))"

lemma logins_invI:
  assumes "devs (lg_world s) = devs w0"
    and "\<And>r. r \<in> set (lg_runs s) \<Longrightarrow> pc_ok (devs w0) (lr_req r) (lr_pc r)"
    and "distinct (lg_order s)"
    and "\<And>i. i \<in> set (lg_order s) \<longleftrightarrow> i < length (lg_runs s) \<and> answered (lr_pc (lg_runs s ! i))"
    and "pres (lg_world s) =
       foldl (login_effect (devs w0)) (pres w0) (map (\<lambda>i. lr_req (lg_runs s ! i)) (lg_order s))"
    and "\<And>i. i < length (lg_runs s) \<Longrightarrow> i \<notin> set (lr_after (lg_runs s ! i))"
    and "\<And>i. i < length (lg_runs s) \<Longrightarrow> \<exists>vs. lg_order s = lr_after (lg_runs s ! i) @ vs"
  shows "logins_inv devs pres w0 s"
  using assms by (auto simp: logins_inv_def)

lemma logins_invD:
  assumes "logins_inv devs pres w0 s"
  shows "devs (lg_world s) = devs w0" and "r \<in> set (lg_runs s) \<Longrightarrow> pc_ok (devs w0) (lr_req r) (lr_pc r)"
    and "distinct (lg_order s)"
    and "i \<in> set (lg_order s) \<longleftrightarrow> i < length (lg_runs s) \<and> answered (lr_pc (lg_runs s ! i))"
    and "pres (lg_world s) =
       foldl (login_effect (devs w0)) (pres w0) (map (\<lambda>i. lr_req (lg_runs s ! i)) (lg_order s))"
    and "i < length (lg_runs s) \<Longrightarrow> i \<notin> set (lr_after (lg_runs s ! i))"
    and "i < length (lg_runs s) \<Longrightarrow> \<exists>vs. lg_order s = lr_after (lg_runs s ! i) @ vs"
  using assms by (auto simp: logins_inv_def)

lemma login_begin_inv [inv_intros]:
  assumes "logins_inv devs pres w0 s"
  shows "logins_inv devs pres w0 (login_begin req s)"
proof -
  note I = logins_invD [OF assms]
  let ?t = "login_begin req s"
  have t: "length (lg_runs ?t) = Suc (length (lg_runs s))" "lg_world ?t = lg_world s" "lg_order ?t = lg_order s"
    "\<And>i. i < length (lg_runs s) \<Longrightarrow> lg_runs ?t ! i = lg_runs s ! i"
    "lg_runs ?t ! length (lg_runs s) = \<lparr>lr_req = req, lr_pc = AtCheck, lr_after = lg_order s\<rparr>"
    by (simp_all add: login_begin_def nth_append)
  have q: "map (\<lambda>i. lr_req (lg_runs ?t ! i)) (lg_order s) = map (\<lambda>i. lr_req (lg_runs s ! i)) (lg_order s)"
    using I(4) t(4) by simp
  show ?thesis
  proof (rule logins_invI)
    show "pc_ok (devs w0) (lr_req r) (lr_pc r)" if "r \<in> set (lg_runs ?t)" for r
      using that I(2) by (auto simp: login_begin_def)
    show "i \<in> set (lg_order ?t) \<longleftrightarrow> i < length (lg_runs ?t) \<and> answered (lr_pc (lg_runs ?t ! i))" for i
      using t I(4) [of i] by (cases "i = length (lg_runs s)") (auto simp: less_Suc_eq)
    show "pres (lg_world ?t) =
       foldl (login_effect (devs w0)) (pres w0) (map (\<lambda>i. lr_req (lg_runs ?t ! i)) (lg_order ?t))"
      using I(5) by (simp only: t q)
    show "i \<notin> set (lr_after (lg_runs ?t ! i))" if "i < length (lg_runs ?t)" for i
      using that t I(6) I(4) [of i] by (cases "i = length (lg_runs s)") auto
    show "\<exists>vs. lg_order ?t = lr_after (lg_runs ?t ! i) @ vs" if "i < length (lg_runs ?t)" for i
      using that t I(7) [of i] by (cases "i = length (lg_runs s)") auto
  qed (use I t in auto)
qed

lemma login_turn_of_inv [inv_intros]:
  assumes "logins_inv devs pres w0 s" and "backend_laws b devs pres" and "backend_answers b devs"
    and "i < length (lg_runs s)" and "\<not> answered (lr_pc (lg_runs s ! i))"
  shows "logins_inv devs pres w0 (login_turn_of b i s)"
proof -
  note I = logins_invD [OF assms(1)]
  let ?t = "login_turn_of b i s" and ?r = "lg_runs s ! i"
  obtain pc w where C: "login_call b (lr_req ?r) (lr_pc ?r) (lg_world s) = (pc, w)" by fastforce
  have "pc_ok (devs (lg_world s)) (lr_req ?r) (lr_pc ?r)" using I(1) I(2) [of ?r] assms(4) by simp
  from login_call_ok [OF assms(2,3) C this assms(5)]
  have c: "devs w = devs w0" "pc_ok (devs w0) (lr_req ?r) pc"
    "pres w = (if answered pc then login_effect (devs w0) (pres (lg_world s)) (lr_req ?r) else pres (lg_world s))"
    by (simp_all add: I(1))
  have t: "length (lg_runs ?t) = length (lg_runs s)" "lg_world ?t = w"
    "lg_order ?t = (if answered pc then lg_order s @ [i] else lg_order s)"
    "\<And>j. j \<noteq> i \<Longrightarrow> lg_runs ?t ! j = lg_runs s ! j" "lg_runs ?t ! i = ?r\<lparr>lr_pc := pc\<rparr>"
    using assms(4) by (simp_all add: login_turn_of_def C Let_def)
  have f: "lr_req (lg_runs ?t ! j) = lr_req (lg_runs s ! j)" "lr_after (lg_runs ?t ! j) = lr_after (lg_runs s ! j)" for j
    using t(4,5) by (cases "j = i"; simp)+
  have n: "i \<notin> set (lg_order s)" using I(4) assms(5) by simp
  show ?thesis
  proof (rule logins_invI)
    show "pc_ok (devs w0) (lr_req r) (lr_pc r)" if r: "r \<in> set (lg_runs ?t)" for r
    proof -
      obtain j where "j < length (lg_runs s)" "r = lg_runs ?t ! j" using r t(1) by (auto simp: in_set_conv_nth)
      then show ?thesis using t(4,5) I(2) [of r] c(2) by (cases "j = i") auto
    qed
    show "distinct (lg_order ?t)" using I(3) n by (simp add: t(3))
    show "j \<in> set (lg_order ?t) \<longleftrightarrow> j < length (lg_runs ?t) \<and> answered (lr_pc (lg_runs ?t ! j))" for j
      using t(1,4,5) I(4) [of j] assms(4,5) n by (cases "j = i") (auto simp: t(3))
    show "pres (lg_world ?t) =
       foldl (login_effect (devs w0)) (pres w0) (map (\<lambda>i. lr_req (lg_runs ?t ! i)) (lg_order ?t))"
      by (simp add: t(2,3) f c(3) I(5))
    show "\<exists>vs. lg_order ?t = lr_after (lg_runs ?t ! j) @ vs" if "j < length (lg_runs ?t)" for j
      using I(7) [of j] that by (auto simp: t(1,3) f)
  qed (use I(6) c(1) in \<open>simp_all add: t(1,2) f\<close>)
qed

lemma logins_reachable_inv:
  assumes "logins_reachable b w0 s" and "backend_laws b devs pres" and "backend_answers b devs"
  shows "logins_inv devs pres w0 s"
  using assms(1)
proof (induction rule: logins_reachable.induct)
  case no_login
  then show ?case by (simp add: logins_inv_def)
next
  case (more_logins s t)
  from more_logins.hyps(2) more_logins.IH show ?case
    by (cases rule: logins_step.cases) (auto intro: inv_intros assms(2,3))
qed

section \<open>Linearization\<close>


text \<open>
  Two nodes log the same device in at once: both look it up before either writes, the second writes first,
  and the presence names the first.
\<close>

fun turns_ok :: "'w backend \<Rightarrow> nat list \<Rightarrow> 'w logins \<Rightarrow> bool" where
  "turns_ok b [] s = True"
| "turns_ok b (i # is) s =
     (i < length (lg_runs s) \<and> \<not> answered (lr_pc (lg_runs s ! i)) \<and> turns_ok b is (login_turn_of b i s))"

lemma turns_reachable:
  "logins_reachable b w0 s \<Longrightarrow> turns_ok b is s \<Longrightarrow> logins_reachable b w0 (fold (login_turn_of b) is s)"
  by (induction "is" arbitrary: s) (auto intro: more_logins goes_on)

lemma mem_backend_answers: "backend_answers mem_backend fst"
  by (simp add: backend_answers_def backend_serves_def mem_backend_def ErrNotFound_def)

definition first_login :: DeviceConnectReq where
  "first_login = empty_req\<lparr>Cmd := ''login'', Sn := ''d1'', ServiceName := ''ws1''\<rparr>"

definition second_login :: DeviceConnectReq where
  "second_login = empty_req\<lparr>Cmd := ''login'', Sn := ''d1'', ServiceName := ''ws2''\<rparr>"

definition two_logins :: "(string set \<times> (string \<rightharpoonup> string)) logins" where
  "two_logins = login_begin second_login (login_begin first_login
     \<lparr>lg_runs = [], lg_world = ({''d1''}, Map.empty), lg_order = []\<rparr>)"

lemma mem_login_calls:
  assumes "Sn req = ''d1''"
  shows "login_call mem_backend req AtCheck w = (AtGet, w)"
    and "login_call mem_backend req AtGet w = (AtQuery, w)"
    and "login_call mem_backend req AtQuery ({''d1''}, m) = (AtSet, ({''d1''}, m))"
    and "login_call mem_backend req AtSet ({''d1''}, m) =
      (Answered (Inr (empty_response\<lparr>rs_connId := ''d1''\<rparr>)), ({''d1''}, m(GetCacheConn ''d1'' \<mapsto> ServiceName req)))"
  using assms by (simp_all add: mem_backend_def GetOneBySn_def)

text \<open>The states of the two on the way.\<close>

definition two_at :: "login_pc \<Rightarrow> login_pc \<Rightarrow> (string \<rightharpoonup> string) \<Rightarrow> nat list \<Rightarrow> (string set \<times> (string \<rightharpoonup> string)) logins" where
  "two_at p q m order = \<lparr>lg_runs = [\<lparr>lr_req = first_login, lr_pc = p, lr_after = []\<rparr>,
     \<lparr>lr_req = second_login, lr_pc = q, lr_after = []\<rparr>], lg_world = ({''d1''}, m), lg_order = order\<rparr>"

lemma two_turns:
  "login_call mem_backend first_login p ({''d1''}, m) = (p', ({''d1''}, m')) \<Longrightarrow>
     login_turn_of mem_backend 0 (two_at p q m order) = two_at p' q m' (if answered p' then order @ [0] else order)"
  "login_call mem_backend second_login q ({''d1''}, m) = (q', ({''d1''}, m')) \<Longrightarrow>
     login_turn_of mem_backend (Suc 0) (two_at p q m order) = two_at p q' m' (if answered q' then order @ [Suc 0] else order)"
  by (simp_all add: login_turn_of_def two_at_def)

abbreviation done_login :: login_pc where
  "done_login \<equiv> Answered (Inr (empty_response\<lparr>rs_connId := ''d1''\<rparr>))"

lemma two_logins_run:
  "fold (login_turn_of mem_backend) [0, 1, 0, 1, 0, 1, 1, 0] two_logins =
     two_at done_login done_login [GetCacheConn ''d1'' \<mapsto> ''ws1''] [1, 0]"
  "turns_ok mem_backend [0, 1, 0, 1, 0, 1, 1, 0] two_logins"
proof -
  have sn: "Sn first_login = ''d1''" "Sn second_login = ''d1''" "ServiceName first_login = ''ws1''"
    by (simp_all add: first_login_def second_login_def)
  have start: "two_logins = two_at AtCheck AtCheck Map.empty []"
    by (simp add: two_logins_def two_at_def login_begin_def)
  have runs: "lg_runs (two_at p q m os) =
      [\<lparr>lr_req = first_login, lr_pc = p, lr_after = []\<rparr>, \<lparr>lr_req = second_login, lr_pc = q, lr_after = []\<rparr>]" for p q m os
    by (simp add: two_at_def)
  note calls = mem_login_calls [OF sn(1)] mem_login_calls [OF sn(2)]
  note turns = two_turns(1) [OF calls(1)] two_turns(1) [OF calls(2)] two_turns(1) [OF calls(3)] two_turns(1) [OF calls(4)]
    two_turns(2) [OF calls(5)] two_turns(2) [OF calls(6)] two_turns(2) [OF calls(7)] two_turns(2) [OF calls(8)]
  show "fold (login_turn_of mem_backend) [0, 1, 0, 1, 0, 1, 1, 0] two_logins =
      two_at done_login done_login [GetCacheConn ''d1'' \<mapsto> ''ws1''] [1, 0]"
    by (simp add: start turns sn)
  show "turns_ok mem_backend [0, 1, 0, 1, 0, 1, 1, 0] two_logins"
    by (simp add: start runs turns)
qed


text \<open>
  On the queue nothing orders the logins of one device: of two messages taken one after the other, from the
  node the device has left and from the node it is now at, the goroutine of the first can write last; both
  are acknowledged, and the presence names the node the device has left.
\<close>

definition node_msg :: "string \<Rightarrow> qmsg" where
  "node_msg service = push_msg service service ''d1'' []"

abbreviation settle_d1 :: "qmsg \<Rightarrow> string set \<times> (string \<rightharpoonup> string) \<Rightarrow> settle \<times> string set \<times> (string \<rightharpoonup> string)" where
  "settle_d1 \<equiv> settle_message (\<lambda>_. Inr (empty_req\<lparr>Cmd := ''login'', Sn := ''d1''\<rparr>)) no_span mem_backend"

lemma settle_node_msg:
  assumes "service \<noteq> []"
  shows "settle_d1 (node_msg service) ({''d1''}, p) = (Ack, ({''d1''}, p(GetCacheConn ''d1'' \<mapsto> service)))"
  using assms
  by (simp add: settle_message_def processMessage_def metadata_def node_msg_def push_msg_def empty_req_def Iotdevice_def
      logic_of_def login_Iotdevice_def mem_backend_def GetOneBySn_def Let_def)

theorem older_login_can_win:
  "\<exists>c. consumer_reachable settle_d1 256 [node_msg ''ws1'', node_msg ''ws2''] ({''d1''}, Map.empty) c \<and>
     settled c = [(node_msg ''ws1'', Ack), (node_msg ''ws2'', Ack)] \<and>
     snd (consumer.world c) (GetCacheConn ''d1'') = Some ''ws1''"
proof -
  let ?m1 = "node_msg ''ws1''" and ?m2 = "node_msg ''ws2''"
  let ?at = "\<lambda>wait hand run k done p. \<lparr>waiting = wait, in_hand = hand, running = run, sema = k,
     settled = done, world = ({''d1''}, p)\<rparr> :: (string set \<times> (string \<rightharpoonup> string)) consumer"
  let ?reach = "consumer_reachable settle_d1 256 [?m1, ?m2] ({''d1''}, Map.empty)"
  have 0: "?reach (?at [?m1, ?m2] None [] 0 [] Map.empty)"
    using begin_consumer [of settle_d1 256 "[?m1, ?m2]" "({''d1''}, Map.empty)"] by (simp add: consumer_start_def)
  have 1: "?reach (?at [?m2] (Some ?m1) [] 0 [] Map.empty)" using next_consumer [OF 0 take_message] by simp
  have 2: "?reach (?at [?m2] None [?m1] 1 [] Map.empty)" using next_consumer [OF 1 start_goroutine] by simp
  have 3: "?reach (?at [] (Some ?m2) [?m1] 1 [] Map.empty)" using next_consumer [OF 2 take_message] by simp
  have 4: "?reach (?at [] None [?m2, ?m1] 2 [] Map.empty)"
    using next_consumer [OF 3 start_goroutine] by (simp add: numeral_2_eq_2)
  have 5: "?reach (?at [] None [?m1] 1 [(?m2, Ack)] [GetCacheConn ''d1'' \<mapsto> ''ws2''])"
    using next_consumer [OF 4 settle_goroutine, where m1 = ?m2 and s1 = Ack and w'1 = "({''d1''}, [GetCacheConn ''d1'' \<mapsto> ''ws2''])"]
    by (simp add: settle_node_msg)
  have 6: "?reach (?at [] None [] 0 [(?m1, Ack), (?m2, Ack)] [GetCacheConn ''d1'' \<mapsto> ''ws1''])"
    using next_consumer [OF 5 settle_goroutine, where m1 = ?m1 and s1 = Ack and w'1 = "({''d1''}, [GetCacheConn ''d1'' \<mapsto> ''ws1''])"]
    by (simp add: settle_node_msg)
  then show ?thesis by (intro exI) auto
qed

end
