(* ===== verification/Ghost.thy ===== *)
theory Ghost
  imports WsLogic
begin

text \<open>
  A socket that closes while its login is still on the way: with parallel handling the close callback
  (\<open>OnClose\<close> of \<open>src/app/iotws/cmd/internal/ws/gateway.go\<close>) can run between the look-up of the session and
  the end of the callback of the first message. It finds no id and does nothing, and the message then
  registers the closed socket. What the rest of the node makes of that entry.
\<close>

lemma close_before_login:
  "conn_id g s = None \<Longrightarrow> OnClose s err g = g"
  by (simp add: OnClose_def)

text \<open>The three events are steps of the gateway with parallel handlers.\<close>

lemma late_login_reachable:
  assumes "gw_par_reachable fn w0 (g, w, ps)" and "conn_id g s = None"
    and "OnMessage_after fn None s op msg (OnClose s err g, w) = (g', w')"
  shows "gw_par_reachable fn w0 (g', w', ps)"
proof -
  have 1: "gw_par_reachable fn w0 (g, w, (s, None, op, msg) # ps)"
    using par_next [OF assms(1) par_read [of fn g w ps s op msg]] assms(2) by simp
  have 2: "gw_par_reachable fn w0 (OnClose s err g, w, (s, None, op, msg) # ps)" by (rule par_next [OF 1 par_closed])
  have "gw_par_step fn (OnClose s err g, w, (s, None, op, msg) # ps) (g', w', remove1 (s, None, op, msg) ((s, None, op, msg) # ps))"
    by (rule par_handle [OF _ assms(3)]) simp
  from par_next [OF 2 this] show ?thesis by simp
qed

lemma close_keeps_other_entries:
  assumes "\<forall>(t, e)\<in>set closes. conn_id g t \<noteq> Some (SStr k)"
  shows "GetconnByConnId (table (fold (\<lambda>(t, e). OnClose t e) closes g)) k = GetconnByConnId (table g) k"
  using assms
proof (induction closes arbitrary: g)
  case (Cons c closes)
  obtain t e where c: "c = (t, e)" by (cases c)
  have s: "conn_id (OnClose t e g) u = conn_id g u" for u by (simp add: OnClose_def split: option.split sval.split)
  have "GetconnByConnId (table (OnClose t e g)) k = GetconnByConnId (table g) k"
    using Cons.prems c by (auto simp: OnClose_def GetconnByConnId_def split: option.splits sval.splits)
  with Cons.IH [of "OnClose t e g"] Cons.prems show ?case unfolding c by (simp add: s)
qed simp

lemma set_cmds_member: "k \<in> set ids \<Longrightarrow> (GetCacheConn k, service, ConnTime) \<in> set (set_cmds service ids)"
  by (auto simp: set_cmds_def)

text \<open>When every key exists, the five-minute job changes nothing at the node.\<close>

lemma conn_Iotsync_all_exist:
  assumes "exec (set_cmds service ids) r = ((replicate (length ids) None, None), r')"
  shows "conn_Iotsync exec ids service (g, r) = (g, r')"
proof -
  have "filter (\<lambda>x. snd x \<noteq> None) (zip ids (replicate (length ids) (None :: go_error option))) = []"
    by (auto simp: filter_empty_conv set_zip)
  then show ?thesis by (simp add: conn_Iotsync_def setIfExistsBatchResult_def assms split_status_eq)
qed

text \<open>
  The closed socket stays: it is the table's entry of the device, no later close of a socket that does not
  carry the same id removes it, notices are written to it, the ping answers that the device is connected,
  and the job renews the presence key in every run and never closes it, so the key never expires.
\<close>

theorem late_login_leaves_ghost:
  assumes "gw_par_reachable fn w0 (g, w, ps)" and "conn_id g s = None"
    and "fn [] msg w = (Ret (by, sync, None), w')" and "extractSn by = k" and "k \<noteq> []"
    and "OnMessage_after fn None s op msg (OnClose s err g, w) = (g', w'')"
  shows "gw_par_reachable fn w0 (g', w'', ps) \<and> GetconnByConnId (table g') k = Some (GwsConn s) \<and>
     (\<forall>closes. (\<forall>(t, e)\<in>set closes. conn_id g' t \<noteq> Some (SStr k)) \<longrightarrow>
        GetconnByConnId (table (fold (\<lambda>(t, e). OnClose t e) closes g')) k = Some (GwsConn s)) \<and>
     fst (IotNotice write k d g') = write s d \<and> IotPing \<lparr>wq_ConnId = k\<rparr> g' = None \<and>
     (\<forall>ids service exec r r'. set ids = dom (soketMap (table g')) \<longrightarrow>
        exec (set_cmds service ids) r = ((replicate (length ids) None, None), r') \<longrightarrow>
        (GetCacheConn k, service, ConnTime) \<in> set (set_cmds service ids) \<and>
        conn_Iotsync exec ids service (g', r) = (g', r' :: 'r))"
proof -
  have e: "GetconnByConnId (table g') k = Some (GwsConn s)"
    using assms(3-6) by (auto simp: OnMessage_after_def OnMessage_new_def GetconnByConnId_def
        close_before_login [OF assms(2)] Let_def)
  then have k: "k \<in> dom (soketMap (table g'))" by (simp add: GetconnByConnId_def domI)
  have "GetconnByConnId (table (fold (\<lambda>(t, e). OnClose t e) closes g')) k = Some (GwsConn s)"
    if "\<forall>(t, e)\<in>set closes. conn_id g' t \<noteq> Some (SStr k)" for closes
    using close_keeps_other_entries [OF that] e by simp
  then show ?thesis
    using e k late_login_reachable [OF assms(1,2,6)] set_cmds_member conn_Iotsync_all_exist
    by (auto simp: IotNotice_def IotPing_def)
qed

theorem late_login_leaves_ghost_witness:
  "GetconnByConnId (table (fst (OnMessage_after login_fn None 1 OpcodeText ''hi'' (OnClose 1 None gw_start, ())))) ''d1'' =
     Some (GwsConn 1)"
proof -
  obtain g' w' where h: "OnMessage_after login_fn None 1 OpcodeText ''hi'' (OnClose 1 None gw_start, ()) = (g', w')"
    by (metis surj_pair)
  have c: "conn_id gw_start 1 = None" by (simp add: gw_start_def)
  have f: "login_fn [] ''hi'' () = (Ret (quote # ''connId'' @ [quote, CHR '':'', quote] @ ''d1'' @ [quote], True, None), ())" by (simp add: login_fn_def)
  from late_login_leaves_ghost [OF par_init c f extractSn_login _ h, where 'r = unit]
  show ?thesis using h by simp
qed

end
