(* ===== verification/Spec2Isabelle.thy ===== *)
theory Spec2Isabelle
  imports Support Boot Presence Resolver BridgeMain Exchanger PushRace QueuePath Notice Alarm Clients GrpcLink
    Fleet CrashDrain ParallelLogin Ghost
begin

text \<open>
  A verification development of rainIot (\<open>src/\<close>), a back end for devices that are connected by WebSocket.

  \<^bold>\<open>The program.\<close> Three services and a log shipper, in Go. The nodes (\<open>app/iotws\<close>) hold the sockets: the
  gateway (\<open>internal/ws/gateway.go\<close>) answers the events of a socket, keeps the table of sockets by connection
  id (\<open>internal/ws/connection.go\<close>) and hands each message to the device client (\<open>pkg/devicecli\<close>), which
  tries gRPC, NATS and HTTP in that order. The device service (\<open>app/iotdevice\<close>) takes the message at one of
  three entries - HTTP, gRPC, the queue -, looks the device up and records its presence in Redis. The cron
  service (\<open>app/iotcron\<close>) plans how to spread sockets over the nodes; a node acts on the plan in its
  \<open>ProcessTask\<close>. Logs go to Loki either directly, batched by the Promtail client (\<open>pkg/log/promtail\<close>), or
  through NATS and the log bridge (\<open>app/iotlogbridge\<close>).

  \<^bold>\<open>The theories\<close>, each a component with its state, operations and lemmas:

  \<^item> \<open>Prelude\<close>: calls that may panic, machine integers, visiting orders of maps. \<open>GoText\<close>: the functions on
    bytes of the standard library that the code uses. \<open>GoError\<close>: \<open>pkg/errors\<close> and the errors of libraries.
    \<open>GoJson\<close>: \<open>encoding/json\<close> - quoting, UTF-8, the syntax of a value, decoding into a struct - as a parser and
    a printer on bytes. \<open>GoTime\<close>: the calendar and RFC 3339 with nanoseconds.
  \<^item> \<open>Cache\<close>: \<open>pkg/cache\<close>, the Redis keys and the lock - its loop, and a step relation of clients that
    contend for a key.
  \<^item> \<open>ConnTable\<close>: \<open>ws/connection.go\<close>; the locale \<open>conn_table\<close> is what its clients rely on. \<open>Gateway\<close>:
    \<open>ws/gateway.go\<close> and \<open>handler/iotwshandler.go\<close>, every callback, as transitions of the table, the sessions
    and the list of calls made on sockets; the step relation \<open>gw_step\<close> interleaves them, \<open>gw_par_step\<close> also the
    handlers of one socket. \<open>WsLogic\<close>: the logic of a node (\<open>iotws/.../logic\<close>, its cron jobs). \<open>NodeSetup\<close>: the
    options of the upgrader, the gateway object and its callback, the task multiplexer.
  \<^item> \<open>DeviceHttp\<close>, \<open>DeviceGrpc\<close>, \<open>DeviceNats\<close>, \<open>Proto\<close>: the three transports
    (\<open>devicecli/httpc\<close>, \<open>grpc\<close>, \<open>mq\<close>) and their messages. \<open>DeviceCli\<close>: \<open>devicecli.go\<close>, the modes, the chain
    as a Go slice over shared arrays, \<open>Reload\<close> in its three phases, \<open>Push\<close>; \<open>dc_step\<close> interleaves reloads.
    The locale \<open>transport\<close> is the contract of a client; it is interpreted on all three. \<open>PushRace\<close>: \<open>Push\<close> as reads
    of the slice, one element at a time, between which reloads overwrite the array.
  \<^item> \<open>DeviceService\<close>: the model, the login logic, the three entries and the queue consumers of the device
    service; \<open>consumer_step\<close> interleaves the goroutines of a consumer.
  \<^item> Across the node and the service: this theory, a login over HTTP from the socket to Redis and back; \<open>GrpcLink\<close>, the
    same over gRPC, with the generated stub and handler (\<open>pb/iotdevice_grpc.pb.go\<close>); \<open>QueuePath\<close>, the system
    of a node, the broker and the two consumers of the service, and \<open>QueueDrain\<close>, its progress; \<open>CrashPath\<close> and
    \<open>CrashDrain\<close>, the same with the consumers goroutine by goroutine, their slots, and a service that is killed at any
    point and started again; \<open>ParallelLogin\<close>, logins that interleave at their backend calls; \<open>Presence\<close>, the system of a
    node and a Redis whose keys expire, with logins, the job that renews the keys, and other nodes' writes; \<open>Fleet\<close>, any
    number of such nodes on one Redis; \<open>Ghost\<close>, a socket that closes while its login is on the way.
  \<^item> \<open>Balance\<close>: the balancer's plan and the job that makes it.
  \<^item> \<open>Batching\<close>: the locale of a batch that is filled and flushed; interpreted by \<open>LogBridge\<close>
    (\<open>app/iotlogbridge/cmd/main.go\<close>) and \<open>Promtail\<close>. \<open>BridgeMain\<close>: the bridge's \<open>main\<close> and the constructor of the
    writer that feeds it. \<open>LokiPush\<close>: the body that Loki is sent and how it is read. \<open>Exchanger\<close>: construction, options
    and requests of the Promtail client. \<open>LogWriters\<close>: the log writers and their set-up.
  \<^item> \<open>Registry\<close>: the Nacos registry and configuration client, \<open>pkg/util\<close>, \<open>pkg/openconfig\<close>, the Nacos resolver.
    \<open>Resolver\<close>: the resolver of a list of instances, whose goroutines meet on channels. \<open>Queues\<close>: \<open>pkg/queue\<close>.
    \<open>Clients\<close>: how the clients of NATS, AMQP and Nacos are made and closed. \<open>Notice\<close>: the notice client, base64 and the
    node's reading of a notice. \<open>Alarm\<close>: the alarm sender. \<open>Support\<close>: the middleware and \<open>util.Go\<close>.
  \<^item> \<open>Boot\<close>: the \<open>main\<close> functions, service contexts, routes and jobs.

  \<^bold>\<open>What the lemmas show.\<close> Invariants by rule induction: the gateway's table and sessions agree
  (\<open>gw_inv\<close>), the fallback client's chain is that of its fields (\<open>dc_inv\<close>) and no push reads beyond it while reloads
  write (\<open>race_inv\<close>), the lock has one owner, a registered device's presence key outlives the next renewal
  (\<open>presence_inv\<close>) and names the node that has its socket (\<open>fleet_inv\<close>), every message that was accepted is in a queue, recorded or dropped for a reason (\<open>path_inv\<close>), also
  when the service crashes (\<open>sp_inv\<close>), the
  bridge accounts for every message, the consumer for every message and slot, the Promtail client for every
  entry; the resolver stops when closed (\<open>resolver_inv\<close> and a measure); the queue's consumers finish
  in a bounded number of turns (\<open>turns_left\<close>), after a crash in a bounded number of actions (\<open>service_left\<close>). Functional results on every branch, errors
  included, for the transports, the login and the entries. Round trips through real bytes: a log entry from the
  writer through JSON to the bridge and from there to the body Loki reads, timestamps, notices, alarms.
  Refinement: the table against the last writer of an id, the login against (known devices, presence keys),
  \<open>Push\<close> by reads against \<open>Push\<close> at once, interleaved logins against logins one after another. And what goes wrong, as theorems with a concrete run: a reconnect
  followed by the old close, the mode that changes and changes back, the body that is sent once, the
  surplus given away several times, the presence that names a node which does not hold the socket, a device
  service that never serves, a registry client that panics, an older login that is written last, a closed socket that
  stays registered.

  \<^bold>\<open>Bounds.\<close> \<open>BlockUntilLock\<close> runs on fuel; 51 rounds are enough, since a round that does not end takes at
  least 100 ms of the five seconds. The HTTP client makes 3 rounds, gRPC 1 + 3 calls, NATS 4; these and all
  other loops are structural or have a measure. JSON values nest to 10000, as in Go. The counter of the connection table and the balancer of the HTTP client are
  64-bit words; sizes of slices and the amounts of the plan are integers, with the wrap-around written out
  where they are summed in an \<open>int64\<close>. A \<open>float64\<close> is an integer rounded to 53 bits.

  \<^bold>\<open>Parameters.\<close> Redis, SQL, Nacos, gRPC, NATS, the HTTP transport, \<open>protojson\<close>, the texts of library errors and the clock are
  arguments. What a theorem needs of them is a named predicate (\<open>redis_lock_laws\<close>, \<open>redis_ttl_laws\<close>, \<open>waits_forward\<close>,
  \<open>backend_laws\<close>, \<open>grpc_carries\<close>) with a concrete instance in the witness. Visiting orders of maps are arguments too.

  \<^bold>\<open>Not modelled\<close>: the generated marshalling and reflection of the protobuf messages (the code of a library's
  generator), go-zero's \<open>httpx.Parse\<close> and configuration loading (a request and a configuration arrive decoded), log
  output, the tests. The log output of \<open>pkg/log\<close> itself is modelled.
  Handlers of one socket are interleaved at the look-up of its session (\<open>OnMessage_after\<close>) and with its close;
  inside a callback, calls on the table, each atomic, are not interleaved with other sockets. A crash of the device
  service is one between its actions on the broker and the backend; a broker that gives a message out again because an
  acknowledgement is late, without a crash, is not modelled apart. In \<open>Fleet\<close> devices log in over HTTP or with an id
  in the URL.
\<close>

section \<open>From a device to the service and back\<close>

text \<open>
  A device service instance as the other end of a node's HTTP transport: the handler on the request's
  body and headers, its answer with status 200; \<open>error_resp\<close> is how go-zero reports an error.
\<close>

definition header_of :: "(string \<rightharpoonup> string) \<Rightarrow> string \<Rightarrow> string" where
  "header_of hs h = (case hs h of None \<Rightarrow> [] | Some v \<Rightarrow> v)"

definition device_endpoint ::
  "(json_error \<Rightarrow> go_error) \<Rightarrow> span_ctx \<Rightarrow> bool \<Rightarrow> (go_error \<Rightarrow> http_resp) \<Rightarrow> 'b backend \<Rightarrow> http_req \<Rightarrow> 'b
     \<Rightarrow> do_outcome \<times> 'b" where
  "device_endpoint json_err ctx html error_resp b req w =
     (let (answer, w') = IotdeviceHandler json_err ctx b (header_of (headers req)) (body req) w;
          resp = (case answer of
              AnswerJson r \<Rightarrow> \<lparr>StatusCode = 200, resp_body = response_json html r, read_error = None\<rparr>
            | AnswerError e \<Rightarrow> error_resp e)
      in (\<lparr>do_resp = Some resp, do_err = None, consumed = length (body req)\<rparr>, w'))"

lemma http_transport_endpoint:
  assumes "instances \<noteq> []" and "0 \<le> sint c" and "\<And>u. new_request u = None"
    and "IotdeviceHandler json_err ctx b (header_of (request_headers service connId)) msg w = (AnswerJson resp, w1)"
  shows "http_transport new_request (device_endpoint json_err ctx html error_resp b) instances service connId msg (c, w) =
     (Ret (response_json html resp, True, None), (c + 1, w1))"
  using assms
  by (simp add: http_transport_def http_Push_def http_do_def retryCount_def numeral_3_eq_3 http_round_def
      Pick_nonneg device_endpoint_def succeeded_def Let_def)

lemma http_only_chain:
  assumes "grows grow" and "dc_reachable grow mq sys" and "has_mode (dc_mode (sys_cli sys)) ModeHTTP"
    and "\<not> has_mode (dc_mode (sys_cli sys)) ModeGRPC" and "\<not> has_mode (dc_mode (sys_cli sys)) ModeNATS"
  shows "\<exists>i. slice_read (dc_chain (sys_cli sys)) (dc_store (sys_cli sys)) = [Some (Http i)]"
proof -
  let ?d = "sys_cli sys"
  have inv: "dc_inv mq ?d" using dc_reachable_inv [OF assms(2,1)] by (simp add: dc_sys_inv_def)
  then have "chain_of ?d = map Some (by_priority ?d)"
    and f: "fields_inv mq (dc_mode ?d) (dc_grpc ?d) (dc_http ?d) (dc_nats ?d)"
    by (simp_all add: dc_inv_def)
  moreover have "dc_grpc ?d = None" "dc_nats ?d = None" "\<exists>i. dc_http ?d = Some (Http i)"
    using f assms(3-5) by (auto simp: fields_inv_def)
  ultimately show ?thesis by (auto simp: chain_of_def by_priority_def)
qed

text \<open>
  C1. Login, end to end over HTTP: on a node whose device client has the HTTP mode only, a new socket's message
  that the service's JSON decoder reads as a login goes through gateway, device client, balancer and the
  service's handler, and, when the service answers the login, the node's table leads from the serial number to the device's socket,
  the session carries it, the presence key in Redis names the node's service, and the device is sent the
  answer - for a serial number of characters that JSON does not escape.
\<close>

theorem login_over_http:
  assumes "grows grow" and "dc_reachable grow mq sys" and "has_mode (dc_mode (sys_cli sys)) ModeHTTP"
    and "\<not> has_mode (dc_mode (sys_cli sys)) ModeGRPC" and "\<not> has_mode (dc_mode (sys_cli sys)) ModeNATS"
    and "instances \<noteq> []" and "0 \<le> sint c" and "\<And>u. new_request u = None"
    and "backend_laws b devs pres" and "decode_request json_err msg = Inr decoded" and "Cmd decoded = ''login''"
    and "list_all (plain_char html) (Sn decoded)"
    and "IotdeviceHandler json_err ctx b (header_of (request_headers service [])) msg w = (AnswerJson resp, w1)"
    and "conn_id g s = None"
  shows "let (g', c', w') = OnMessage (ws_fn (client_Push grpc_push nats_push
           (\<lambda>i. http_transport new_request (device_endpoint json_err ctx html error_resp b) instances service))
           (sys_cli sys)) s op msg (g, c, w)
     in GetconnByConnId (table g') (Sn decoded) = Some (GwsConn s) \<and>
        conn_id g' s = Some (SStr (Sn decoded)) \<and>
        pres w' = (pres w)(GetCacheConn (Sn decoded) \<mapsto> service) \<and>
        out g' = out g @ [WriteMessage s op (response_json html (empty_response\<lparr>rs_connId := Sn decoded\<rparr>)), MessageClose]"
proof -
  let ?tp = "http_transport new_request (device_endpoint json_err ctx html error_resp b) instances service"
  let ?req = "decoded\<lparr>ConnId := [], ServiceName := service\<rparr>"
  have hs: "header_of (request_headers service []) ''ConnId'' = []"
    "header_of (request_headers service []) ''ServiceName'' = service"
    by (simp_all add: header_of_def request_headers_def)
  have "login_Iotdevice b ?req w = (Inr resp, w1)"
    using assms(10,11,13) hs
    by (auto simp: IotdeviceHandler_def parseIotdeviceRequest_def Iotdevice_def logic_of_def
        split: prod.splits sum.splits)
  from login_presence [OF assms(9) this]
  have l: "Sn decoded \<noteq> []" "resp = empty_response\<lparr>rs_connId := Sn decoded\<rparr>"
    "pres w1 = (pres w)(GetCacheConn (Sn decoded) \<mapsto> service)" by simp_all
  have x: "extractSn (response_json html resp) = Sn decoded"
    unfolding l(2) using extractSn_response wire_id_plain [OF assms(12)] by simp
  obtain i where ch: "slice_read (dc_chain (sys_cli sys)) (dc_store (sys_cli sys)) = [Some (Http i)]"
    using http_only_chain [OF assms(1-5)] by blast
  have t: "?tp [] msg (c, w) = (Ret (response_json html resp, True, None), (c + 1, w1))"
    by (rule http_transport_endpoint [OF assms(6-8,13)])
  have f: "ws_fn (client_Push grpc_push nats_push (\<lambda>i. ?tp)) (sys_cli sys) [] msg (c, w) =
      (Ret (response_json html resp, True, None), (c + 1, w1))"
    using t ch by (simp add: ws_fn_def Iotws_def dc_Push_def client_Push_def)
  show ?thesis
    using f x l assms(14)
    by (simp add: OnMessage_def OnMessage_after_def OnMessage_new_def GetconnByConnId_def emit_def Let_def)
qed

text \<open>A device "d1" known to a service in memory, connecting through a node "ws".\<close>

theorem login_over_http_witness:
  "let (g', c', w') = OnMessage (ws_fn (client_Push (\<lambda>_ _ _ w. (Panic [], w)) (\<lambda>_ _ _ w. (Panic [], w))
         (\<lambda>i. http_transport (\<lambda>_. None) (device_endpoint (\<lambda>_. TextError []) no_span False
            (\<lambda>_. \<lparr>StatusCode = 400, resp_body = [], read_error = None\<rparr>) mem_backend) [''10.0.0.1:80''] ''ws''))
         (sys_cli (start_sys ''http''))) 1 OpcodeText (login_text True ''d1'') (gw_start, 0, ({''d1''}, Map.empty))
   in GetconnByConnId (table g') ''d1'' = Some (GwsConn 1) \<and> snd w' (GetCacheConn ''d1'') = Some ''ws''"
proof -
  have m: "has_mode (dc_mode (sys_cli (start_sys ''http''))) ModeHTTP"
    "\<not> has_mode (dc_mode (sys_cli (start_sys ''http''))) ModeGRPC"
    "\<not> has_mode (dc_mode (sys_cli (start_sys ''http''))) ModeNATS"
    by (simp_all add: start_sys_def NewDeviceCli_def initLocked_def mode_words Let_def new_client_defs zero_cli_def)
  have pc: "list_all (plain_char html) ''d1''" for html
    by (simp add: plain_char_def byte_def quote_def backslash_def)
  let ?dec = "empty_req\<lparr>Cmd := ''login'', Sn := ''d1''\<rparr>"
  have d: "decode_request (\<lambda>_. TextError []) (login_text True ''d1'') = Inr ?dec"
    using decode_login_text [of "\<lambda>_. TextError []" True "''d1''" "[]"] to_valid_plain [OF pc [of True]] by simp
  have h: "IotdeviceHandler (\<lambda>_. TextError []) no_span mem_backend (header_of (request_headers ''ws'' []))
      (login_text True ''d1'') ({''d1''}, Map.empty) =
      (AnswerJson (empty_response\<lparr>rs_connId := ''d1''\<rparr>), ({''d1''}, [GetCacheConn ''d1'' \<mapsto> ''ws'']))"
    using d by (simp add: IotdeviceHandler_def parseIotdeviceRequest_def Iotdevice_def logic_of_def
        login_Iotdevice_def GetOneBySn_def empty_req_def mem_backend_def header_of_def request_headers_def Let_def)
  note L = login_over_http [OF grows_exact start_sys_reachable m _ _ _ mem_backend_laws d, where html = False
      and service = "''ws''" and c = 0 and g = gw_start and s = 1 and op = OpcodeText
      and new_request = "\<lambda>_. None" and instances = "[''10.0.0.1:80'']" and ctx = no_span
      and grpc_push = "\<lambda>_ _ _ w. (Panic [], w)" and nats_push = "\<lambda>_ _ _ w. (Panic [], w)"
      and error_resp = "\<lambda>_. \<lparr>StatusCode = 400, resp_body = [], read_error = None\<rparr>", OF _ _ _ _ _ h]
  show ?thesis
    using L pc [of False] by (simp add: gw_start_def empty_req_def case_prod_beta Let_def)
qed

section \<open>Without HTTP no device logs in\<close>

lemma grpc_transport_silent: "fst (grpc_transport unmarshal connect wait service c m w) = Ret (resp, sr, e) \<Longrightarrow> resp = []"
  by (auto simp: grpc_transport_def Let_def dest: grpc_Push_result split: prod.splits)

lemma nats_transport_silent:
  assumes "fst (nats_transport nc publish ctx_done wait uuid d c m w) = Ret (resp, sr, e)"
  shows "resp = []"
proof -
  obtain w' where "nats_transport nc publish ctx_done wait uuid d c m w = (Ret (resp, sr, e), w')"
    using assms by (cases "nats_transport nc publish ctx_done wait uuid d c m w") simp
  then show ?thesis using nats_tp.respond_const nats_tp.silent_answer by metis
qed

lemma silent_push:
  assumes "grows grow" and "dc_reachable grow mq sys" and "\<not> has_mode (dc_mode (sys_cli sys)) ModeHTTP"
    and "dc_Push (client_Push (\<lambda>i. grpc_transport unmarshal connect wait service)
        (\<lambda>i. nats_transport nc publish ctx_done nwait uuid d) http_push) [] msg (sys_cli sys) w =
      (Ret (resp, sync, None), n, w1)"
  shows "resp = []"
proof -
  let ?push = "client_Push (\<lambda>i. grpc_transport unmarshal connect wait service)
             (\<lambda>i. nats_transport nc publish ctx_done nwait uuid d) http_push"
  let ?cs = "by_priority (sys_cli sys)"
  have inv: "dc_inv mq (sys_cli sys)" using dc_reachable_inv [OF assms(2,1)] by (simp add: dc_sys_inv_def)
  then have chain: "slice_read (dc_chain (sys_cli sys)) (dc_store (sys_cli sys)) = map Some ?cs"
    by (simp add: dc_inv_def chain_of_def)
  then have ne: "?cs \<noteq> []" and "push_chain ?push [] msg (map Some ?cs) None 0 w = (Ret (resp, sync, None), n, w1)"
    using assms(4) by (auto simp: dc_Push_def Let_def split: if_split_asm)
  from push_chain_cases [OF this(2)] ne obtain us c vs w0 where
    c: "?cs = us @ c # vs" and p: "?push c [] msg w0 = (Ret (resp, sync, None), w1)" by auto
  have fp: "fst (?push c [] msg w0) = Ret (resp, sync, None)" using p by simp
  have "c \<in> set ?cs" using c by simp
  then show ?thesis
    using inv assms(3) grpc_transport_silent nats_transport_silent fp
    by (cases c) (auto simp: client_Push_def by_priority_def dc_inv_def fields_inv_def opt_list_def split: option.splits)
qed

lemma silent_callback_keeps_table:
  assumes "conn_id g s = None" and "\<And>resp sync w1. fn [] msg w = (Ret (resp, sync, None), w1) \<Longrightarrow> resp = []"
  shows "table (fst (OnMessage fn s op msg (g, w))) = table g"
proof -
  obtain r w1 where r: "fn [] msg w = (r, w1)" by (cases "fn [] msg w")
  have x: "extractSn [] = []" by (simp add: extractSn_def quoted_field_def)
  show ?thesis
    using assms(1) assms(2) [unfolded r] r x
    by (cases r) (auto simp: OnMessage_def OnMessage_after_def OnMessage_new_def ServerOnClose_def recover_panic_def
        Let_def split: prod.split option.split)
qed



end
